(* ===== verification/Prelude.thy ===== *)
theory Prelude
  imports Main "HOL-Library.Word"
begin

text \<open>
  Shared vocabulary of the development: Go's results (a value, or a panic), 64-bit signed
  integers written out on \<open>int\<close>, times and durations in nanoseconds, the interface type
  \<open>any\<close>, and the generic lemmas on lists and maps that the component theories use.

  Conventions used everywhere:
  \<^item> a Go \<open>string\<close> and a \<open>[]byte\<close> are both an Isabelle \<open>string\<close>: a list of 8-bit
    characters, i.e. of bytes;
  \<^item> a pair \<open>(T, error)\<close> of results is \<open>'e + T\<close> (\<open>Inl\<close> for the error);
  \<^item> a lone \<open>error\<close> result is \<open>'e option\<close> (\<open>None\<close> for Go's \<open>nil\<close>);
  \<^item> a method with a pointer receiver takes the state and returns the new one;
  \<^item> a mutex is not an object of the model: a method of an in-memory store that holds its lock
    throughout is one step, and calls that take several such steps are interleaved in \<open>Jwks\<close>,
    \<open>RbacConcurrent\<close>, \<open>JwtConcurrent\<close>, \<open>RateConcurrent\<close> and \<open>RateResets\<close>.
\<close>

named_theorems go_defs \<open>definitions of the straight-line helpers, for unfolding\<close>
named_theorems store_laws \<open>laws of the in-memory stores\<close>

section \<open>Values or panics\<close>

datatype 'a outcome = Ret 'a | Panic

fun bind_outcome :: "'a outcome \<Rightarrow> ('a \<Rightarrow> 'b outcome) \<Rightarrow> 'b outcome" where
  "bind_outcome (Ret x) f = f x"
| "bind_outcome Panic f = Panic"

lemma bind_outcome_eq_Ret [simp]:
  "bind_outcome m f = Ret y \<longleftrightarrow> (\<exists>x. m = Ret x \<and> f x = Ret y)"
  by (cases m) auto

lemma bind_outcome_Ret_right [simp]: "bind_outcome m Ret = m"
  by (cases m) auto

section \<open>Machine integers, times and durations\<close>

text \<open>
  An \<open>int64\<close> is an \<open>int\<close> in range; arithmetic that can leave the range goes through
  \<open>wrap64\<close>. A \<open>time.Duration\<close> is an \<open>int64\<close> count of nanoseconds, a \<open>time.Time\<close> an
  unbounded count of nanoseconds since the Unix epoch; \<open>Sub\<close> saturates, as Go's does.
\<close>

type_synonym int64 = int
type_synonym duration = int
type_synonym time = int

definition min_int64 :: int where "min_int64 = - (2 ^ 63)"
definition max_int64 :: int where "max_int64 = 2 ^ 63 - 1"

definition in_int64 :: "int \<Rightarrow> bool" where
  "in_int64 x \<longleftrightarrow> min_int64 \<le> x \<and> x \<le> max_int64"

definition wrap64 :: "int \<Rightarrow> int" where
  "wrap64 x = (x + 2 ^ 63) mod 2 ^ 64 - 2 ^ 63"

definition sat64 :: "int \<Rightarrow> int" where
  "sat64 x = (if x < min_int64 then min_int64 else if max_int64 < x then max_int64 else x)"

lemmas int64_defs = in_int64_def min_int64_def max_int64_def wrap64_def sat64_def

lemma wrap64_id [simp]: "in_int64 x \<Longrightarrow> wrap64 x = x"
  by (simp add: int64_defs)

lemma in_int64_wrap64 [simp]: "in_int64 (wrap64 x)"
proof -
  have "0 \<le> (x + 2 ^ 63) mod 2 ^ 64" and "(x + 2 ^ 63) mod 2 ^ 64 < (2::int) ^ 64"
    by simp_all
  then show ?thesis by (simp add: int64_defs)
qed

lemma in_int64_sat64 [simp]: "in_int64 (sat64 x)"
  by (simp add: int64_defs)

lemma sat64_id [simp]: "in_int64 x \<Longrightarrow> sat64 x = x"
  by (auto simp: int64_defs)

lemma in_int64_between:
  "in_int64 a \<Longrightarrow> in_int64 b \<Longrightarrow> a \<le> x \<Longrightarrow> x \<le> b \<Longrightarrow> in_int64 x"
  by (auto simp: in_int64_def)

definition Second :: duration where "Second = 1000000000"
definition Minute :: duration where "Minute = 60 * Second"
definition Hour :: duration where "Hour = 60 * Minute"

lemmas duration_defs = Second_def Minute_def Hour_def

definition time_Add :: "time \<Rightarrow> duration \<Rightarrow> time" where
  "time_Add t d = t + d"

definition time_Sub :: "time \<Rightarrow> time \<Rightarrow> duration" where
  "time_Sub t u = sat64 (t - u)"

definition time_After :: "time \<Rightarrow> time \<Rightarrow> bool" where
  "time_After t u \<longleftrightarrow> u < t"

text \<open>
  \<open>t.Unix()\<close> drops the nanoseconds, rounding towards minus infinity; \<open>time.Unix(s, 0)\<close>. Inside,
  the seconds are counted from year 1 in an \<open>int64\<close>, which wraps for extreme arguments.
\<close>

definition time_Unix :: "time \<Rightarrow> int64" where
  "time_Unix t = wrap64 (t div Second)"

definition from_Unix :: "int64 \<Rightarrow> time" where
  "from_Unix s = (wrap64 (s + 62135596800) - 62135596800) * Second"

text \<open>The zero \<open>time.Time\<close> is 1 January of year 1, UTC.\<close>

definition zero_time :: time where
  "zero_time = - 62135596800 * Second"

text \<open>The number of binary digits, \<open>0\<close> for \<open>0\<close>.\<close>

fun bit_length :: "nat \<Rightarrow> nat" where
  "bit_length n = (if n = 0 then 0 else Suc (bit_length (n div 2)))"

declare bit_length.simps [simp del]

lemma time_Unix_from_Unix [simp]: "in_int64 s \<Longrightarrow> time_Unix (from_Unix s) = s"
proof -
  assume s: "in_int64 s"
  have "wrap64 (wrap64 (s + 62135596800) - 62135596800) = wrap64 s"
    by (simp add: wrap64_def mod_simps algebra_simps)
  with s show ?thesis by (simp add: time_Unix_def from_Unix_def Second_def)
qed

text \<open>Seconds that are nowhere near the limits of \<open>int64\<close>.\<close>

lemma from_Unix_small: "\<bar>s\<bar> < 2 ^ 62 \<Longrightarrow> from_Unix s = s * Second"
  by (simp add: from_Unix_def int64_defs)

section \<open>Dynamic values\<close>

text \<open>
  \<open>any\<close> with the dynamic types the code distinguishes. \<open>AOther ty v\<close> stands for a value of
  any other comparable type, named by its type and its value.
\<close>

datatype any =
    ANil
  | AStr string
  | ABool bool
  | AInt int
  | AStrs "string list"
  | AList "any list"
  | AMap "(string \<times> any) list"
  | AOther string string

text \<open>
  Go's \<open>==\<close> on two interface values: different dynamic types are unequal; the same
  dynamic type is compared by value, and panics when that type is not comparable (a slice
  or a map).
\<close>

fun dynamic_type :: "any \<Rightarrow> string" where
  "dynamic_type ANil = ''nil''"
| "dynamic_type (AStr _) = ''string''"
| "dynamic_type (ABool _) = ''bool''"
| "dynamic_type (AInt _) = ''int''"
| "dynamic_type (AStrs _) = ''[]string''"
| "dynamic_type (AList _) = ''[]any''"
| "dynamic_type (AMap _) = ''map[string]any''"
| "dynamic_type (AOther ty _) = ''other '' @ ty"

fun comparable :: "any \<Rightarrow> bool" where
  "comparable (AStrs _) = False"
| "comparable (AList _) = False"
| "comparable (AMap _) = False"
| "comparable _ = True"

definition any_eq :: "any \<Rightarrow> any \<Rightarrow> bool outcome" where
  "any_eq a b =
     (if dynamic_type a \<noteq> dynamic_type b then Ret False
      else if comparable a then Ret (a = b)
      else Panic)"

lemma any_eq_comparable: "comparable a \<or> comparable b \<Longrightarrow> any_eq a b = Ret (a = b)"
  by (cases a; cases b) (auto simp: any_eq_def)

lemma any_eq_Panic: "any_eq a b = Panic \<longleftrightarrow> dynamic_type a = dynamic_type b \<and> \<not> comparable a"
  by (simp add: any_eq_def)

text \<open>The type assertion \<open>v.(string)\<close>, with its \<open>ok\<close> result.\<close>

fun as_string :: "any \<Rightarrow> string option" where
  "as_string (AStr s) = Some s"
| "as_string _ = None"

text \<open>The two-result form used as \<open>s, _ := v.(string)\<close>: the zero value on failure.\<close>

definition string_or_empty :: "any \<Rightarrow> string" where
  "string_or_empty v = (case as_string v of Some s \<Rightarrow> s | None \<Rightarrow> [])"

lemma as_string_eq_Some: "as_string v = Some s \<longleftrightarrow> v = AStr s"
  by (cases v) auto

lemma string_or_empty_AStr [simp]: "string_or_empty (AStr s) = s"
  by (simp add: string_or_empty_def)



text \<open>Indexing a \<open>map[string]any\<close>: the zero value of \<open>any\<close> for a missing key.\<close>

type_synonym attributes = "string \<rightharpoonup> any"

definition attr :: "attributes \<Rightarrow> string \<Rightarrow> any" where
  "attr m k = (case m k of Some v \<Rightarrow> v | None \<Rightarrow> ANil)"

lemma attr_upd [simp]: "attr (m(k \<mapsto> v)) j = (if j = k then v else attr m j)"
  by (simp add: attr_def)

lemma attr_empty [simp]: "attr Map.empty j = ANil"
  by (simp add: attr_def)

section \<open>Lists\<close>

text \<open>
  Removing the first occurrence: \<open>append(xs[:i], xs[i+1:]...)\<close> at the first matching index.
\<close>

lemma remove1_distinct_set: "distinct xs \<Longrightarrow> set (remove1 x xs) = set xs - {x}"
  by (rule set_remove1_eq)

lemma distinct_length_le_card: "distinct xs \<Longrightarrow> set xs \<subseteq> U \<Longrightarrow> finite U \<Longrightarrow> length xs \<le> card U"
  by (metis card_mono distinct_card)

end
