(* ===== verification/Jwt.thy ===== *)
theory Jwt
  imports Prelude
begin

text \<open>
  The package \<open>auth/jwt\<close>: claims (\<open>claims.go\<close>), options (\<open>options.go\<close>), the revocation
  blacklist (\<open>blacklist.go\<close>) and the service (\<open>jwt.go\<close>).

  The library \<open>golang-jwt\<close> is not part of the repository. It is the record \<open>gojwt\<close> of the
  three operations the service calls, an argument of every definition that uses it; what the
  properties rely on is stated by the predicates \<open>library_checks_key\<close> and
  \<open>library_roundtrip\<close>. The blacklist is an interface: a record of its two methods over a
  state \<open>'w\<close>, of which the in-memory implementation is one instance.
\<close>

section \<open>Claims, keys and errors\<close>

record Claims =
  Claims_Subject :: string
  Claims_Audience :: "string list"
  Claims_ExpiresAt :: time
  Claims_IssuedAt :: time
  Claims_Custom :: attributes

text \<open>The embedded \<open>RegisteredClaims\<close> of the library, and the custom map under \<open>cst\<close>.\<close>

record standardClaims =
  sc_Issuer :: string
  sc_Subject :: string
  sc_Audience :: "string list"
  sc_ExpiresAt :: "time option"
  sc_NotBefore :: "time option"
  sc_IssuedAt :: "time option"
  sc_Custom :: attributes

datatype curve = P224 | P256 | P384 | P521

text \<open>Keys are opaque, except for the curve of an ECDSA key.\<close>

datatype jwt_key =
    HMACSecret string
  | RSAPrivate string
  | RSAPublic string
  | ECDSAPrivate curve string
  | ECDSAPublic curve string

datatype SigningMethod = HS256 | HS384 | HS512 | RS256 | RS512 | ES256 | ES384 | ES512

fun Alg :: "SigningMethod \<Rightarrow> string" where
  "Alg HS256 = ''HS256''"
| "Alg HS384 = ''HS384''"
| "Alg HS512 = ''HS512''"
| "Alg RS256 = ''RS256''"
| "Alg RS512 = ''RS512''"
| "Alg ES256 = ''ES256''"
| "Alg ES384 = ''ES384''"
| "Alg ES512 = ''ES512''"

lemma Alg_inject [simp]: "Alg m = Alg n \<longleftrightarrow> m = n"
  by (cases m; cases n) simp_all

text \<open>
  Errors: the package's sentinels, those of the library that \<open>mapJWTError\<close> tests for, and any
  other error. A library error is the set of sentinels \<open>errors.Is\<close> finds in it (the library
  joins several), with a message.
\<close>

datatype gojwt_sentinel =
    TokenExpired | SignatureInvalid | TokenMalformed | TokenNotValidYet | TokenUnverifiable

datatype jwt_error =
    ErrInvalidToken
  | ErrExpiredToken
  | ErrInvalidSigningMethod
  | ErrTokenRevoked
  | ErrNoBlacklist
  | ErrMissingAlgorithm
  | GojwtError "gojwt_sentinel list" string
  | OtherError string

fun errors_Is :: "jwt_error \<Rightarrow> gojwt_sentinel \<Rightarrow> bool" where
  "errors_Is (GojwtError ss msg) s = (s \<in> set ss)"
| "errors_Is _ s = False"

text \<open>The parsed header of a token, as a key function sees it.\<close>

record Token =
  Token_Alg :: string
  Token_Header :: attributes

type_synonym 'w Keyfunc = "Token \<Rightarrow> 'w \<Rightarrow> 'w \<times> (jwt_error + jwt_key option)"

record 'w gojwt =
  NewNumericDate :: "time \<Rightarrow> time"
  SignedString :: "SigningMethod \<Rightarrow> standardClaims \<Rightarrow> jwt_key option \<Rightarrow> jwt_error + string"
  ParseWithClaims :: "time \<Rightarrow> string \<Rightarrow> 'w Keyfunc \<Rightarrow> 'w \<Rightarrow> 'w \<times> (jwt_error + standardClaims \<times> bool)"

section \<open>Blacklists\<close>

record 'w Blacklist =
  bl_Revoke :: "'w \<Rightarrow> string \<Rightarrow> 'w \<times> jwt_error option"
  bl_IsRevoked :: "'w \<Rightarrow> string \<Rightarrow> jwt_error + bool"

record MemoryBlacklist =
  mb_revoked :: "string \<rightharpoonup> unit"

definition NewMemoryBlacklist :: MemoryBlacklist where
  "NewMemoryBlacklist = \<lparr>mb_revoked = Map.empty\<rparr>"

definition MemoryBlacklist_Revoke :: "MemoryBlacklist \<Rightarrow> string \<Rightarrow> MemoryBlacklist \<times> jwt_error option" where
  "MemoryBlacklist_Revoke b token = (b\<lparr>mb_revoked := (mb_revoked b)(token \<mapsto> ())\<rparr>, None)"

definition MemoryBlacklist_IsRevoked :: "MemoryBlacklist \<Rightarrow> string \<Rightarrow> jwt_error + bool" where
  "MemoryBlacklist_IsRevoked b token = Inr (mb_revoked b token \<noteq> None)"

definition memory_blacklist :: "MemoryBlacklist Blacklist" where
  "memory_blacklist = \<lparr>bl_Revoke = MemoryBlacklist_Revoke, bl_IsRevoked = MemoryBlacklist_IsRevoked\<rparr>"

section \<open>Options\<close>

record 'w jwt_options =
  opt_signingMethod :: "SigningMethod option"
  opt_signingKey :: "jwt_key option"
  opt_verifyKey :: "jwt_key option"
  opt_expiry :: duration
  opt_issuer :: string
  opt_blacklist :: "'w Blacklist option"
  opt_keyFunc :: "'w Keyfunc option"

definition defaultExpiry :: duration where
  "defaultExpiry = Hour"

definition defaultOptions :: "'w jwt_options" where
  "defaultOptions = \<lparr>opt_signingMethod = None, opt_signingKey = None, opt_verifyKey = None,
     opt_expiry = defaultExpiry, opt_issuer = '''', opt_blacklist = None, opt_keyFunc = None\<rparr>"

type_synonym 'w jwt_Option = "'w jwt_options \<Rightarrow> 'w jwt_options"

definition with_algorithm :: "SigningMethod \<Rightarrow> jwt_key \<Rightarrow> jwt_key \<Rightarrow> 'w jwt_Option" where
  "with_algorithm m sk vk o' =
     o'\<lparr>opt_signingMethod := Some m, opt_signingKey := Some sk, opt_verifyKey := Some vk\<rparr>"

definition WithHMAC :: "string \<Rightarrow> 'w jwt_Option" where
  "WithHMAC secret = with_algorithm HS256 (HMACSecret secret) (HMACSecret secret)"

definition WithHMAC384 :: "string \<Rightarrow> 'w jwt_Option" where
  "WithHMAC384 secret = with_algorithm HS384 (HMACSecret secret) (HMACSecret secret)"

definition WithHMAC512 :: "string \<Rightarrow> 'w jwt_Option" where
  "WithHMAC512 secret = with_algorithm HS512 (HMACSecret secret) (HMACSecret secret)"

definition WithRSA :: "string \<Rightarrow> string \<Rightarrow> 'w jwt_Option" where
  "WithRSA priv pub = with_algorithm RS256 (RSAPrivate priv) (RSAPublic pub)"

definition WithRSA512 :: "string \<Rightarrow> string \<Rightarrow> 'w jwt_Option" where
  "WithRSA512 priv pub = with_algorithm RS512 (RSAPrivate priv) (RSAPublic pub)"

text \<open>The algorithm follows the curve of the private key; the default branch is ES256.\<close>

definition WithECDSA :: "curve \<times> string \<Rightarrow> curve \<times> string \<Rightarrow> 'w jwt_Option" where
  "WithECDSA priv pub =
     with_algorithm (case fst priv of P384 \<Rightarrow> ES384 | P521 \<Rightarrow> ES512 | _ \<Rightarrow> ES256)
       (ECDSAPrivate (fst priv) (snd priv)) (ECDSAPublic (fst pub) (snd pub))"

definition WithExpiry :: "duration \<Rightarrow> 'w jwt_Option" where
  "WithExpiry d o' = o'\<lparr>opt_expiry := d\<rparr>"

definition WithIssuer :: "string \<Rightarrow> 'w jwt_Option" where
  "WithIssuer issuer o' = o'\<lparr>opt_issuer := issuer\<rparr>"

definition WithBlacklist :: "'w Blacklist \<Rightarrow> 'w jwt_Option" where
  "WithBlacklist bl o' = o'\<lparr>opt_blacklist := Some bl\<rparr>"

definition WithJWKS :: "'w Keyfunc \<Rightarrow> 'w jwt_Option" where
  "WithJWKS kf o' = o'\<lparr>opt_keyFunc := Some kf\<rparr>"

definition jwt_New :: "'w jwt_Option list \<Rightarrow> 'w jwt_options" where
  "jwt_New opts = fold (\<lambda>f o'. f o') opts defaultOptions"

section \<open>The service\<close>

text \<open>\<open>now\<close> is the reading of the clock that \<open>Sign\<close> takes once.\<close>

definition claims_to_sign :: "'w gojwt \<Rightarrow> 'w jwt_options \<Rightarrow> time \<Rightarrow> Claims \<Rightarrow> standardClaims" where
  "claims_to_sign lib opts now claims =
     \<lparr>sc_Issuer = (if opt_issuer opts \<noteq> '''' then opt_issuer opts else ''''),
      sc_Subject = Claims_Subject claims,
      sc_Audience = (if Claims_Audience claims \<noteq> [] then Claims_Audience claims else []),
      sc_ExpiresAt = Some (NewNumericDate lib (time_Add now (opt_expiry opts))),
      sc_NotBefore = Some (NewNumericDate lib now),
      sc_IssuedAt = Some (NewNumericDate lib now),
      sc_Custom = Claims_Custom claims\<rparr>"

definition jwt_Sign :: "'w gojwt \<Rightarrow> 'w jwt_options \<Rightarrow> time \<Rightarrow> Claims \<Rightarrow> jwt_error + string" where
  "jwt_Sign lib opts now claims =
     (case opt_signingMethod opts of
        None \<Rightarrow> Inl ErrMissingAlgorithm
      | Some m \<Rightarrow> SignedString lib m (claims_to_sign lib opts now claims) (opt_signingKey opts))"

fun mapJWTError :: "jwt_error \<Rightarrow> jwt_error" where
  "mapJWTError e =
     (if errors_Is e TokenExpired then ErrExpiredToken
      else if errors_Is e SignatureInvalid \<or> errors_Is e TokenMalformed \<or>
              errors_Is e TokenNotValidYet \<or> errors_Is e TokenUnverifiable then ErrInvalidToken
      else e)"

declare mapJWTError.simps [simp del]

text \<open>
  The key function built from the static configuration, which hands out the verify key only
  for the configured algorithm. \<open>Verify\<close> has checked that a signing method is set before it
  is used.
\<close>

definition static_keyfunc :: "SigningMethod \<Rightarrow> jwt_key option \<Rightarrow> 'w Keyfunc" where
  "static_keyfunc m vk t w =
     (w, if Token_Alg t \<noteq> Alg m then Inl ErrInvalidSigningMethod else Inr vk)"

definition verify_keyfunc :: "'w jwt_options \<Rightarrow> 'w Keyfunc option" where
  "verify_keyfunc opts =
     (case opt_keyFunc opts of
        Some kf \<Rightarrow> Some kf
      | None \<Rightarrow> map_option (\<lambda>m. static_keyfunc m (opt_verifyKey opts)) (opt_signingMethod opts))"

definition claims_of :: "standardClaims \<Rightarrow> Claims" where
  "claims_of c =
     \<lparr>Claims_Subject = sc_Subject c,
      Claims_Audience = (if sc_Audience c \<noteq> [] then sc_Audience c else []),
      Claims_ExpiresAt = (case sc_ExpiresAt c of Some t \<Rightarrow> t | None \<Rightarrow> zero_time),
      Claims_IssuedAt = (case sc_IssuedAt c of Some t \<Rightarrow> t | None \<Rightarrow> zero_time),
      Claims_Custom = sc_Custom c\<rparr>"

definition check_revoked :: "'w jwt_options \<Rightarrow> 'w \<Rightarrow> string \<Rightarrow> bool" where
  "check_revoked opts w tokenString =
     (case opt_blacklist opts of
        None \<Rightarrow> False
      | Some bl \<Rightarrow> (case bl_IsRevoked bl w tokenString of Inl _ \<Rightarrow> True | Inr revoked \<Rightarrow> revoked))"

definition jwt_Verify ::
  "'w gojwt \<Rightarrow> 'w jwt_options \<Rightarrow> time \<Rightarrow> string \<Rightarrow> 'w \<Rightarrow> 'w \<times> (jwt_error + Claims)" where
  "jwt_Verify lib opts now tokenString w =
     (case verify_keyfunc opts of
        None \<Rightarrow> (w, Inl ErrMissingAlgorithm)
      | Some kf \<Rightarrow>
          (case ParseWithClaims lib now tokenString kf w of
             (w', Inl e) \<Rightarrow> (w', Inl (mapJWTError e))
           | (w', Inr (c, valid)) \<Rightarrow>
               if \<not> valid then (w', Inl ErrInvalidToken)
               else if check_revoked opts w' tokenString then (w', Inl ErrTokenRevoked)
               else (w', Inr (claims_of c))))"

definition jwt_Revoke :: "'w jwt_options \<Rightarrow> 'w \<Rightarrow> string \<Rightarrow> 'w \<times> jwt_error option" where
  "jwt_Revoke opts w tokenString =
     (case opt_blacklist opts of
        None \<Rightarrow> (w, Some ErrNoBlacklist)
      | Some bl \<Rightarrow> bl_Revoke bl w tokenString)"

text \<open>\<open>Refresh\<close> discards the error of \<open>Revoke\<close>, and revokes before it signs.\<close>

definition jwt_Refresh ::
  "'w gojwt \<Rightarrow> 'w jwt_options \<Rightarrow> time \<Rightarrow> time \<Rightarrow> string \<Rightarrow> 'w \<Rightarrow> 'w \<times> (jwt_error + string)" where
  "jwt_Refresh lib opts now now' tokenString w =
     (case jwt_Verify lib opts now tokenString w of
        (w', Inl e) \<Rightarrow> (w', Inl e)
      | (w', Inr claims) \<Rightarrow>
          (let w'' = (case opt_blacklist opts of None \<Rightarrow> w' | Some bl \<Rightarrow> fst (bl_Revoke bl w' tokenString))
           in (w'', jwt_Sign lib opts now' claims)))"

section \<open>What is relied on of the library\<close>

text \<open>
  \<open>ParseWithClaims\<close> touches the caller's state only through the key function: what every call
  of the key function preserves, the parse preserves.
\<close>

definition library_frame :: "'w gojwt \<Rightarrow> bool" where
  "library_frame lib \<longleftrightarrow> (\<forall>P kf. (\<forall>t w. P w \<longrightarrow> P (fst (kf t w))) \<longrightarrow>
     (\<forall>now s w. P w \<longrightarrow> P (fst (ParseWithClaims lib now s kf w))))"

text \<open>A token is only accepted with a key that the key function returned for its header.\<close>

definition library_checks_key :: "'w gojwt \<Rightarrow> (string \<Rightarrow> Token) \<Rightarrow> bool" where
  "library_checks_key lib header \<longleftrightarrow> (\<forall>now s kf w w' r.
     ParseWithClaims lib now s kf w = (w', Inr r) \<longrightarrow> (\<exists>v k. snd (kf (header s) v) = Inr k))"

text \<open>
  The string \<open>s\<close> carries the claims \<open>c\<close> signed with method \<open>m\<close> for the verify key \<open>vk\<close>: with
  a key function that returns \<open>vk\<close> for that algorithm, parsing gives \<open>c\<close> back while the token
  is valid, and an error marked as expired from its expiry on.
\<close>

definition valid_at :: "standardClaims \<Rightarrow> time \<Rightarrow> bool" where
  "valid_at c now \<longleftrightarrow> (\<forall>t. sc_NotBefore c = Some t \<longrightarrow> t \<le> now) \<and> (\<forall>t. sc_ExpiresAt c = Some t \<longrightarrow> now < t)"

definition library_carries :: "'w gojwt \<Rightarrow> SigningMethod \<Rightarrow> jwt_key option \<Rightarrow> string \<Rightarrow> standardClaims \<Rightarrow> bool" where
  "library_carries lib m vk s c \<longleftrightarrow> (\<forall>now kf w. (\<forall>t. Token_Alg t = Alg m \<longrightarrow> kf t w = (w, Inr vk)) \<longrightarrow>
     (valid_at c now \<longrightarrow> ParseWithClaims lib now s kf w = (w, Inr (c, True))) \<and>
     (\<forall>t. sc_ExpiresAt c = Some t \<and> t \<le> now \<longrightarrow>
        (\<exists>ss msg. TokenExpired \<in> set ss \<and> ParseWithClaims lib now s kf w = (w, Inl (GojwtError ss msg)))))"

definition keyfunc_keeps :: "'w jwt_options \<Rightarrow> ('w \<Rightarrow> bool) \<Rightarrow> bool" where
  "keyfunc_keeps opts P \<longleftrightarrow> (\<forall>kf t w. verify_keyfunc opts = Some kf \<and> P w \<longrightarrow> P (fst (kf t w)))"

lemma library_frameD:
  assumes "library_frame lib" and "keyfunc_keeps opts P" and "verify_keyfunc opts = Some kf" and "P w"
  shows "P (fst (ParseWithClaims lib now s kf w))"
proof -
  from assms(2,3) have "\<forall>t w. P w \<longrightarrow> P (fst (kf t w))"
    by (simp add: keyfunc_keeps_def)
  with assms(1,4) show ?thesis
    unfolding library_frame_def by blast
qed

section \<open>The contract of a blacklist\<close>

text \<open>
  A revoked token is reported as revoked, and stays so whatever is revoked later. The client
  of the contract is the service: the lemmas follow a token through any sequence of calls.
\<close>

locale token_blacklist =
  fixes revoke :: "'w \<Rightarrow> string \<Rightarrow> 'w \<times> jwt_error option"
    and isRevoked :: "'w \<Rightarrow> string \<Rightarrow> jwt_error + bool"
  assumes revoke_revokes: "snd (revoke w t) = None \<Longrightarrow> isRevoked (fst (revoke w t)) t = Inr True"
    and revoke_keeps: "isRevoked w u = Inr True \<Longrightarrow> isRevoked (fst (revoke w t)) u = Inr True"
begin

lemma Verify_rejects_revoked:
  assumes "opt_blacklist opts = Some \<lparr>bl_Revoke = revoke, bl_IsRevoked = isRevoked\<rparr>"
    and "library_frame lib"
    and "keyfunc_keeps opts (\<lambda>w. isRevoked w u = Inr True)"
    and "isRevoked w u = Inr True"
  shows "\<exists>e. snd (jwt_Verify lib opts now u w) = Inl e" and "isRevoked (fst (jwt_Verify lib opts now s w)) u = Inr True"
proof -
  have keep: "isRevoked (fst (ParseWithClaims lib now s kf w)) u = Inr True" if "verify_keyfunc opts = Some kf" for kf s
    using library_frameD[OF assms(2,3) that assms(4)] .
  show "\<exists>e. snd (jwt_Verify lib opts now u w) = Inl e"
    using keep[of _ u] assms(1)
    by (auto simp: jwt_Verify_def check_revoked_def split: option.splits prod.splits sum.splits)
  show "isRevoked (fst (jwt_Verify lib opts now s w)) u = Inr True"
    using keep[of _ s] assms(4)
    by (auto simp: jwt_Verify_def split: option.splits prod.splits sum.splits)
qed

lemma Refresh_keeps_revoked:
  assumes "opt_blacklist opts = Some \<lparr>bl_Revoke = revoke, bl_IsRevoked = isRevoked\<rparr>"
    and "library_frame lib"
    and "keyfunc_keeps opts (\<lambda>w. isRevoked w u = Inr True)"
    and "isRevoked w u = Inr True"
  shows "isRevoked (fst (jwt_Refresh lib opts now now' s w)) u = Inr True"
  using Verify_rejects_revoked(2)[OF assms, of now s] assms(1)
  by (auto simp: jwt_Refresh_def revoke_keeps split: prod.splits sum.splits)

end

text \<open>The in-memory blacklist keeps the contract.\<close>

interpretation mb: token_blacklist MemoryBlacklist_Revoke MemoryBlacklist_IsRevoked
  by unfold_locales (auto simp: MemoryBlacklist_Revoke_def MemoryBlacklist_IsRevoked_def)

section \<open>Sequences of calls\<close>

datatype jwt_call =
    CallVerify time string
  | CallRefresh time time string
  | CallRevoke string

fun jwt_step :: "'w gojwt \<Rightarrow> 'w jwt_options \<Rightarrow> 'w \<Rightarrow> jwt_call \<Rightarrow> 'w" where
  "jwt_step lib opts w (CallVerify now s) = fst (jwt_Verify lib opts now s w)"
| "jwt_step lib opts w (CallRefresh now now' s) = fst (jwt_Refresh lib opts now now' s w)"
| "jwt_step lib opts w (CallRevoke s) = fst (jwt_Revoke opts w s)"

fun jwt_run :: "'w gojwt \<Rightarrow> 'w jwt_options \<Rightarrow> 'w \<Rightarrow> jwt_call list \<Rightarrow> 'w" where
  "jwt_run lib opts w [] = w"
| "jwt_run lib opts w (x # xs) = jwt_run lib opts (jwt_step lib opts w x) xs"

text \<open>A service on the in-memory blacklist whose key function leaves the blacklist alone.\<close>

definition memory_service :: "MemoryBlacklist gojwt \<Rightarrow> MemoryBlacklist jwt_options \<Rightarrow> bool" where
  "memory_service lib opts \<longleftrightarrow> opt_blacklist opts = Some memory_blacklist \<and> library_frame lib \<and>
     (\<forall>kf t b. opt_keyFunc opts = Some kf \<longrightarrow> fst (kf t b) = b)"

lemma memory_service_keyfunc:
  assumes "memory_service lib opts" and "verify_keyfunc opts = Some kf"
  shows "fst (kf t b) = b"
  using assms by (cases "opt_keyFunc opts"; cases "opt_signingMethod opts")
    (auto simp: memory_service_def verify_keyfunc_def static_keyfunc_def)

lemma jwt_run_keeps_revoked:
  assumes "memory_service lib opts" and "MemoryBlacklist_IsRevoked b u = Inr True"
  shows "MemoryBlacklist_IsRevoked (jwt_run lib opts b calls) u = Inr True"
  using assms(2)
proof (induction calls arbitrary: b)
  case Nil
  then show ?case by simp
next
  case (Cons x xs)
  have bl: "opt_blacklist opts = Some \<lparr>bl_Revoke = MemoryBlacklist_Revoke, bl_IsRevoked = MemoryBlacklist_IsRevoked\<rparr>"
    and frame: "library_frame lib"
    using assms(1) by (simp_all add: memory_service_def memory_blacklist_def)
  have kf: "keyfunc_keeps opts (\<lambda>w. MemoryBlacklist_IsRevoked w u = Inr True)"
    using memory_service_keyfunc[OF assms(1)] by (simp add: keyfunc_keeps_def)
  have "MemoryBlacklist_IsRevoked (jwt_step lib opts b x) u = Inr True"
    using Cons.prems by (cases x)
      (simp_all add: mb.Verify_rejects_revoked(2)[OF bl frame kf] mb.Refresh_keeps_revoked[OF bl frame kf]
        jwt_Revoke_def bl mb.revoke_keeps)
  then show ?case by (simp add: Cons.IH)
qed

lemma revoked_never_verifies:
  assumes "memory_service lib opts" and "MemoryBlacklist_IsRevoked b u = Inr True"
  shows "\<exists>e. snd (jwt_Verify lib opts now u (jwt_run lib opts b calls)) = Inl e"
proof (rule mb.Verify_rejects_revoked(1))
  show "opt_blacklist opts = Some \<lparr>bl_Revoke = MemoryBlacklist_Revoke, bl_IsRevoked = MemoryBlacklist_IsRevoked\<rparr>"
    and "library_frame lib"
    using assms(1) by (simp_all add: memory_service_def memory_blacklist_def)
  show "MemoryBlacklist_IsRevoked (jwt_run lib opts b calls) u = Inr True"
    by (rule jwt_run_keeps_revoked[OF assms])
qed (simp add: keyfunc_keeps_def memory_service_keyfunc[OF assms(1)])

section \<open>A library with one token, for the examples\<close>

text \<open>
  A small library that satisfies what is relied on: it signs everything as the string
  \<open>tok\<close>, which it reads back as the given claims under HS256, checking key and times.
\<close>

definition one_token_header :: Token where
  "one_token_header = \<lparr>Token_Alg = ''HS256'', Token_Header = Map.empty\<rparr>"

definition one_token_parse :: "standardClaims \<Rightarrow> time \<Rightarrow> string \<Rightarrow> 'w Keyfunc \<Rightarrow> 'w \<Rightarrow> 'w \<times> (jwt_error + standardClaims \<times> bool)" where
  "one_token_parse c now s kf w =
     (if s \<noteq> ''tok'' then (w, Inl (GojwtError [TokenMalformed] ''malformed''))
      else case kf one_token_header w of
             (w', Inl e) \<Rightarrow> (w', Inl (GojwtError [TokenUnverifiable] ''keyfunc''))
           | (w', Inr k) \<Rightarrow>
               if \<exists>t \<in> set_option (sc_ExpiresAt c). t \<le> now then (w', Inl (GojwtError [TokenExpired] ''expired''))
               else if \<exists>t \<in> set_option (sc_NotBefore c). now < t then (w', Inl (GojwtError [TokenNotValidYet] ''early''))
               else (w', Inr (c, True)))"

definition one_token_lib :: "standardClaims \<Rightarrow> 'w gojwt" where
  "one_token_lib c = \<lparr>NewNumericDate = (\<lambda>t. t - t mod Second), SignedString = (\<lambda>m c k. Inr ''tok''),
     ParseWithClaims = one_token_parse c\<rparr>"

lemma one_token_frame: "library_frame (one_token_lib c)"
  unfolding library_frame_def
proof (intro allI impI)
  fix P :: "'a \<Rightarrow> bool" and kf :: "'a Keyfunc" and now s w
  assume "\<forall>t w. P w \<longrightarrow> P (fst (kf t w))" and "P w"
  then have "P (fst (kf one_token_header w))" by blast
  with \<open>P w\<close> show "P (fst (ParseWithClaims (one_token_lib c) now s kf w))"
    by (auto simp: one_token_lib_def one_token_parse_def split: prod.splits sum.splits)
qed

lemma one_token_checks_key: "library_checks_key (one_token_lib c) (\<lambda>_. one_token_header)"
  unfolding library_checks_key_def
proof (intro allI impI)
  fix now s w w' and kf :: "'a Keyfunc" and r :: "standardClaims \<times> bool"
  assume "ParseWithClaims (one_token_lib c) now s kf w = (w', Inr r)"
  then have "\<exists>k. snd (kf one_token_header w) = Inr k"
    by (auto simp: one_token_lib_def one_token_parse_def split: prod.splits sum.splits if_splits)
  then show "\<exists>v k. snd (kf one_token_header v) = Inr k" by blast
qed

lemma one_token_carries: "library_carries (one_token_lib c) HS256 vk ''tok'' c"
  by (auto simp: library_carries_def one_token_lib_def one_token_parse_def one_token_header_def valid_at_def
      split: prod.splits sum.splits)

definition hmac_opts :: "MemoryBlacklist jwt_options" where
  "hmac_opts = jwt_New [WithHMAC ''secret'', WithBlacklist memory_blacklist]"

definition bob_claims :: Claims where
  "bob_claims = \<lparr>Claims_Subject = ''bob'', Claims_Audience = [''api''], Claims_ExpiresAt = 0, Claims_IssuedAt = 0,
     Claims_Custom = [''role'' \<mapsto> AStr ''admin'']\<rparr>"

text \<open>The library that carries what the service signs for bob at time 0.\<close>

definition bob_lib :: "MemoryBlacklist gojwt" where
  "bob_lib = one_token_lib (claims_to_sign (one_token_lib undefined) hmac_opts 0 bob_claims)"

lemmas jwt_option_defs = jwt_New_def WithHMAC_def with_algorithm_def WithBlacklist_def defaultOptions_def
  defaultExpiry_def

lemma hmac_opts_simps [simp]:
  "opt_signingMethod hmac_opts = Some HS256" "opt_verifyKey hmac_opts = Some (HMACSecret ''secret'')"
  "opt_signingKey hmac_opts = Some (HMACSecret ''secret'')" "opt_keyFunc hmac_opts = None"
  "opt_blacklist hmac_opts = Some memory_blacklist" "opt_expiry hmac_opts = Hour" "opt_issuer hmac_opts = ''''"
  by (simp_all add: hmac_opts_def jwt_option_defs)

lemma memory_service_bob: "memory_service bob_lib hmac_opts"
  by (simp add: memory_service_def bob_lib_def one_token_frame)

lemma claims_to_sign_bob: "claims_to_sign bob_lib hmac_opts 0 bob_claims =
    claims_to_sign (one_token_lib undefined) hmac_opts 0 bob_claims"
  by (simp add: claims_to_sign_def bob_lib_def one_token_lib_def)

lemma Verify_bob: "jwt_Verify bob_lib hmac_opts 0 ''tok'' NewMemoryBlacklist =
   (NewMemoryBlacklist, Inr (claims_of (claims_to_sign bob_lib hmac_opts 0 bob_claims)))"
proof -
  let ?c = "claims_to_sign bob_lib hmac_opts 0 bob_claims"
  have "valid_at ?c 0"
    by (simp add: valid_at_def claims_to_sign_def bob_lib_def one_token_lib_def time_Add_def duration_defs)
  moreover have "library_carries bob_lib HS256 (Some (HMACSecret ''secret'')) ''tok'' ?c"
    unfolding claims_to_sign_bob by (simp add: bob_lib_def one_token_carries)
  ultimately have "ParseWithClaims bob_lib 0 ''tok'' (static_keyfunc HS256 (Some (HMACSecret ''secret''))) NewMemoryBlacklist
      = (NewMemoryBlacklist, Inr (?c, True))"
    by (simp add: library_carries_def static_keyfunc_def)
  then show ?thesis
    by (simp add: jwt_Verify_def verify_keyfunc_def check_revoked_def memory_blacklist_def
        MemoryBlacklist_IsRevoked_def NewMemoryBlacklist_def)
qed

section \<open>Properties\<close>

text \<open>
  C3: Revocation is final. With the in-memory blacklist, \<open>Revoke\<close> of a token succeeds, and no
  sequence of later calls (verifying, refreshing or revoking any tokens) makes \<open>Verify\<close>
  accept that token again.
\<close>

theorem revoked_token_stays_rejected:
  assumes "memory_service lib opts"
  shows "snd (jwt_Revoke opts b s) = None \<and>
    (\<exists>e. snd (jwt_Verify lib opts now s (jwt_run lib opts (fst (jwt_Revoke opts b s)) calls)) = Inl e)"
proof -
  have "jwt_Revoke opts b s = MemoryBlacklist_Revoke b s"
    using assms by (simp add: memory_service_def jwt_Revoke_def memory_blacklist_def)
  moreover have none: "snd (MemoryBlacklist_Revoke b s) = None"
    by (simp add: MemoryBlacklist_Revoke_def)
  moreover have "MemoryBlacklist_IsRevoked (fst (MemoryBlacklist_Revoke b s)) s = Inr True"
    using none by (rule mb.revoke_revokes)
  ultimately show ?thesis
    using revoked_never_verifies[OF assms] by simp
qed

theorem revoked_token_stays_rejected_witness:
  "snd (jwt_Verify bob_lib hmac_opts 0 ''tok'' NewMemoryBlacklist) =
     Inr (claims_of (claims_to_sign bob_lib hmac_opts 0 bob_claims)) \<and>
   (\<exists>e. snd (jwt_Verify bob_lib hmac_opts 0 ''tok''
        (jwt_run bob_lib hmac_opts (fst (jwt_Revoke hmac_opts NewMemoryBlacklist ''tok'')) [CallRevoke ''other''])) = Inl e)"
  using revoked_token_stays_rejected[OF memory_service_bob, of NewMemoryBlacklist "''tok''" 0 "[CallRevoke ''other'']"]
  by (simp add: Verify_bob)

text \<open>
  C12: A refresh consumes the old token. When a service on the in-memory blacklist refreshes a
  token, that token never verifies and never refreshes again, whatever calls follow.
\<close>

theorem refresh_consumes_token:
  assumes "memory_service lib opts" and "jwt_Refresh lib opts t1 t2 s b = (b', Inr s')"
  shows "(\<exists>e. snd (jwt_Verify lib opts now s (jwt_run lib opts b' calls)) = Inl e) \<and>
    (\<exists>e. snd (jwt_Refresh lib opts now now' s (jwt_run lib opts b' calls)) = Inl e)"
proof -
  from assms have "MemoryBlacklist_IsRevoked b' s = Inr True"
    by (auto simp: jwt_Refresh_def memory_service_def memory_blacklist_def MemoryBlacklist_Revoke_def
        MemoryBlacklist_IsRevoked_def split: prod.splits sum.splits)
  then obtain e where "snd (jwt_Verify lib opts now s (jwt_run lib opts b' calls)) = Inl e"
    using revoked_never_verifies[OF assms(1)] by blast
  then show ?thesis
    by (auto simp: jwt_Refresh_def split: prod.splits)
qed

theorem refresh_consumes_token_witness:
  "\<exists>b' e. jwt_Refresh bob_lib hmac_opts 0 0 ''tok'' NewMemoryBlacklist = (b', Inr ''tok'') \<and>
     snd (jwt_Verify bob_lib hmac_opts 0 ''tok'' b') = Inl e"
proof -
  obtain b' where r: "jwt_Refresh bob_lib hmac_opts 0 0 ''tok'' NewMemoryBlacklist = (b', Inr ''tok'')"
    by (simp add: jwt_Refresh_def Verify_bob jwt_Sign_def) (simp add: bob_lib_def one_token_lib_def)
  from refresh_consumes_token[OF memory_service_bob r, of 0 "[]"] r show ?thesis by auto
qed

text \<open>
  C9: No algorithm confusion. With a statically configured method, \<open>Verify\<close> accepts a token
  only if the algorithm in its header is the configured one, so a token cannot choose how its
  signature is checked.
\<close>

theorem verified_token_has_configured_alg:
  fixes lib :: "'w gojwt"
  assumes "library_checks_key lib header"
    and "opt_keyFunc opts = None" and "opt_signingMethod opts = Some m"
    and "jwt_Verify lib opts now s w = (w', Inr claims)"
  shows "Token_Alg (header s) = Alg m"
proof -
  let ?kf = "static_keyfunc m (opt_verifyKey opts)"
  from assms(2-4) obtain w1 c where parsed: "ParseWithClaims lib now s ?kf w = (w1, Inr (c, True))"
    by (auto simp: jwt_Verify_def verify_keyfunc_def split: prod.splits sum.splits if_splits)
  obtain v :: 'w and k where "snd (?kf (header s) v) = Inr k"
    using assms(1)[unfolded library_checks_key_def, rule_format, OF parsed] by auto
  then show ?thesis
    by (simp add: static_keyfunc_def split: if_splits)
qed

theorem verified_token_has_configured_alg_witness:
  "Token_Alg one_token_header = Alg HS256"
proof -
  have "library_checks_key bob_lib (\<lambda>_. one_token_header)"
    by (simp add: bob_lib_def one_token_checks_key)
  from verified_token_has_configured_alg[OF this _ _ Verify_bob, of HS256] show ?thesis by simp
qed

text \<open>A token that carries claims verifies to them while they are valid, unless it is blacklisted.\<close>

lemma Verify_carried:
  assumes "opt_keyFunc opts = None" and "opt_signingMethod opts = Some m" and "\<not> check_revoked opts w s"
    and "library_carries lib m (opt_verifyKey opts) s c" and "valid_at c now"
  shows "jwt_Verify lib opts now s w = (w, Inr (claims_of c))"
proof -
  let ?kf = "static_keyfunc m (opt_verifyKey opts)"
  have "\<forall>t. Token_Alg t = Alg m \<longrightarrow> ?kf t w = (w, Inr (opt_verifyKey opts))"
    by (simp add: static_keyfunc_def)
  with assms(4,5) have "ParseWithClaims lib now s ?kf w = (w, Inr (c, True))"
    unfolding library_carries_def by blast
  with assms(1-3) show ?thesis
    by (simp add: jwt_Verify_def verify_keyfunc_def)
qed



text \<open>
  A refresh can lose the session. In a service that can verify but not sign (only a key
  function, as for an external identity provider) with a blacklist, refreshing a valid token
  fails with \<open>ErrMissingAlgorithm\<close> and yet revokes the token.
\<close>

theorem refresh_without_signer_revokes:
  assumes "opt_signingMethod opts = None" and "opt_blacklist opts = Some memory_blacklist"
    and "jwt_Verify lib opts now s b = (b', Inr claims)"
  shows "\<exists>b''. jwt_Refresh lib opts now now' s b = (b'', Inl ErrMissingAlgorithm) \<and>
    MemoryBlacklist_IsRevoked b'' s = Inr True"
  using assms by (simp add: jwt_Refresh_def jwt_Sign_def memory_blacklist_def MemoryBlacklist_Revoke_def
      MemoryBlacklist_IsRevoked_def)

theorem refresh_without_signer_revokes_witness:
  "let opts = jwt_New [WithJWKS (\<lambda>t w. (w, Inr None)), WithBlacklist memory_blacklist] in
   \<exists>b''. jwt_Refresh bob_lib opts 0 0 ''tok'' NewMemoryBlacklist = (b'', Inl ErrMissingAlgorithm) \<and>
     MemoryBlacklist_IsRevoked b'' ''tok'' = Inr True"
proof -
  let ?opts = "jwt_New [WithJWKS (\<lambda>t w. (w, Inr None)), WithBlacklist memory_blacklist]"
  have opts: "opt_signingMethod ?opts = None" "opt_blacklist ?opts = Some memory_blacklist"
      "opt_keyFunc ?opts = Some (\<lambda>t w. (w, Inr None))"
    by (simp_all add: jwt_option_defs WithJWKS_def)
  let ?c = "claims_to_sign bob_lib hmac_opts 0 bob_claims"
  have "ParseWithClaims bob_lib 0 ''tok'' (\<lambda>t w. (w, Inr None)) NewMemoryBlacklist = (NewMemoryBlacklist, Inr (?c, True))"
    unfolding claims_to_sign_bob
    by (simp add: bob_lib_def one_token_lib_def one_token_parse_def claims_to_sign_def time_Add_def duration_defs)
  moreover have "verify_keyfunc ?opts = Some (\<lambda>t w. (w, Inr None))" "check_revoked ?opts NewMemoryBlacklist ''tok'' = False"
    unfolding verify_keyfunc_def check_revoked_def opts
    by (simp_all add: memory_blacklist_def MemoryBlacklist_IsRevoked_def NewMemoryBlacklist_def)
  ultimately have "jwt_Verify bob_lib ?opts 0 ''tok'' NewMemoryBlacklist = (NewMemoryBlacklist, Inr (claims_of ?c))"
    by (simp add: jwt_Verify_def)
  from refresh_without_signer_revokes[OF opts(1,2) this, of 0] show ?thesis
    unfolding Let_def .
qed

end
