(* ===== verification/ApiKey.thy ===== *)
theory ApiKey
  imports Hashes
begin

text \<open>
  The package \<open>apikey\<close>: key generation and the service of \<open>apikey/apikey.go\<close>, and the
  in-memory store of \<open>apikey/store.go\<close>. The \<open>Store\<close> interface is a record of its methods over
  a state \<open>'w\<close>. Randomness is the finite list of bytes the reader will still deliver, an error
  when it is exhausted. The HTTP middleware of the package is in \<open>Guards\<close>.
\<close>

section \<open>Types\<close>

datatype apikey_error =
    ErrInvalidKey
  | ErrRevokedKey
  | ErrExpiredKey
  | ErrKeyNotFound
  | ErrGenerateKey
  | ErrStore string

record Key =
  Key_ID :: string
  Key_Hash :: string
  Key_Name :: string
  Key_Subject :: string
  Key_Metadata :: attributes
  Key_CreatedAt :: time
  Key_ExpiresAt :: "time option"
  Key_Revoked :: bool

definition IsExpired :: "time \<Rightarrow> Key \<Rightarrow> bool" where
  "IsExpired now k = (case Key_ExpiresAt k of None \<Rightarrow> False | Some t \<Rightarrow> time_After now t)"

record IssueOptions =
  Issue_Prefix :: string
  Issue_Name :: string
  Issue_Subject :: string
  Issue_Metadata :: attributes
  Issue_ExpiresIn :: duration
  Issue_Length :: int

record IssuedKey =
  Issued_Plaintext :: string
  Issued_Key :: Key

section \<open>Random base62 strings\<close>

definition base62Chars :: string where
  "base62Chars = ''0123456789ABCDEFGHIJKLMNOPQRSTUVWXYZabcdefghijklmnopqrstuvwxyz''"

text \<open>
  \<open>rand.Int(rand.Reader, max)\<close> for \<open>1 < max \<le> 256\<close>: draw a byte, keep as many low bits as
  \<open>max - 1\<close> has, and draw again until the value is below \<open>max\<close>.
\<close>

fun rand_Int :: "nat \<Rightarrow> string \<Rightarrow> (nat \<times> string) option" where
  "rand_Int n [] = None"
| "rand_Int n (b # rs) =
     (let v = take_bit (bit_length (n - 1)) (of_char b)
      in if v < n then Some (v, rs) else rand_Int n rs)"

fun generateBase62 :: "nat \<Rightarrow> string \<Rightarrow> (string \<times> string) option" where
  "generateBase62 0 rs = Some ([], rs)"
| "generateBase62 (Suc n) rs =
     (case rand_Int (length base62Chars) rs of
        None \<Rightarrow> None
      | Some (i, rs') \<Rightarrow>
          (case generateBase62 n rs' of
             None \<Rightarrow> None
           | Some (cs, rs'') \<Rightarrow> Some (base62Chars ! i # cs, rs'')))"

definition hashKey :: "string \<Rightarrow> string" where
  "hashKey plaintext = hex_encode (sha256 plaintext)"

section \<open>The service\<close>

record 'w KeyStore =
  ks_Save :: "'w \<Rightarrow> Key \<Rightarrow> 'w \<times> apikey_error option"
  ks_GetByHash :: "'w \<Rightarrow> string \<Rightarrow> apikey_error + Key"
  ks_GetByID :: "'w \<Rightarrow> string \<Rightarrow> apikey_error + Key"
  ks_Revoke :: "'w \<Rightarrow> string \<Rightarrow> 'w \<times> apikey_error option"

text \<open>
  The plaintext and the record of a key from its random part; \<open>now\<close> and \<open>now'\<close> are the two
  readings of the clock.
\<close>

definition key_plaintext :: "IssueOptions \<Rightarrow> string \<Rightarrow> string" where
  "key_plaintext opts random =
     (if Issue_Prefix opts \<noteq> '''' then Issue_Prefix opts @ ''_'' @ random else random)"

definition new_key :: "IssueOptions \<Rightarrow> time \<Rightarrow> time \<Rightarrow> string \<Rightarrow> Key" where
  "new_key opts now now' h =
     \<lparr>Key_ID = take 16 h, Key_Hash = h, Key_Name = Issue_Name opts, Key_Subject = Issue_Subject opts,
      Key_Metadata = Issue_Metadata opts, Key_CreatedAt = now,
      Key_ExpiresAt = (if 0 < Issue_ExpiresIn opts then Some (time_Add now' (Issue_ExpiresIn opts)) else None),
      Key_Revoked = False\<rparr>"

definition apikey_Issue ::
  "'w KeyStore \<Rightarrow> IssueOptions \<Rightarrow> time \<Rightarrow> time \<Rightarrow> string \<Rightarrow> 'w \<Rightarrow> 'w \<times> (apikey_error + IssuedKey)" where
  "apikey_Issue st opts now now' rand w =
     (let len = (if Issue_Length opts \<le> 0 then 40 else nat (Issue_Length opts)) in
      case generateBase62 len rand of
        None \<Rightarrow> (w, Inl ErrGenerateKey)
      | Some (random, _) \<Rightarrow>
          (let plaintext = key_plaintext opts random;
               k = new_key opts now now' (hashKey plaintext)
           in case ks_Save st w k of
                (w', Some e) \<Rightarrow> (w', Inl e)
              | (w', None) \<Rightarrow> (w', Inr \<lparr>Issued_Plaintext = plaintext, Issued_Key = k\<rparr>)))"

definition apikey_Verify :: "'w KeyStore \<Rightarrow> time \<Rightarrow> string \<Rightarrow> 'w \<Rightarrow> apikey_error + Key" where
  "apikey_Verify st now plaintext w =
     (let h = hashKey plaintext in
      case ks_GetByHash st w h of
        Inl _ \<Rightarrow> Inl ErrInvalidKey
      | Inr k \<Rightarrow>
          if Key_Hash k \<noteq> h then Inl ErrInvalidKey
          else if Key_Revoked k then Inl ErrRevokedKey
          else if IsExpired now k then Inl ErrExpiredKey
          else Inr k)"

definition apikey_Revoke :: "'w KeyStore \<Rightarrow> string \<Rightarrow> 'w \<Rightarrow> 'w \<times> apikey_error option" where
  "apikey_Revoke st i w = ks_Revoke st w i"

section \<open>The in-memory store\<close>

record apikey_MemoryStore =
  byID :: "string \<rightharpoonup> Key"
  byH :: "string \<rightharpoonup> string"

definition apikey_NewMemoryStore :: apikey_MemoryStore where
  "apikey_NewMemoryStore = \<lparr>byID = Map.empty, byH = Map.empty\<rparr>"

definition Save :: "apikey_MemoryStore \<Rightarrow> Key \<Rightarrow> apikey_MemoryStore \<times> apikey_error option" where
  "Save s k = (s\<lparr>byID := (byID s)(Key_ID k \<mapsto> k), byH := (byH s)(Key_Hash k \<mapsto> Key_ID k)\<rparr>, None)"

definition GetByID :: "apikey_MemoryStore \<Rightarrow> string \<Rightarrow> apikey_error + Key" where
  "GetByID s i = (case byID s i of None \<Rightarrow> Inl ErrKeyNotFound | Some k \<Rightarrow> Inr k)"

definition GetByHash :: "apikey_MemoryStore \<Rightarrow> string \<Rightarrow> apikey_error + Key" where
  "GetByHash s h = (case byH s h of None \<Rightarrow> Inl ErrKeyNotFound | Some i \<Rightarrow> GetByID s i)"

definition apikey_MemoryStore_Revoke :: "apikey_MemoryStore \<Rightarrow> string \<Rightarrow> apikey_MemoryStore \<times> apikey_error option" where
  "apikey_MemoryStore_Revoke s i =
     (case byID s i of
        None \<Rightarrow> (s, Some ErrKeyNotFound)
      | Some k \<Rightarrow> (s\<lparr>byID := (byID s)(i \<mapsto> k\<lparr>Key_Revoked := True\<rparr>)\<rparr>, None))"

text \<open>The map is walked in an unspecified order: \<open>ord\<close> lists its keys once each.\<close>

definition ListBySubject :: "string list \<Rightarrow> apikey_MemoryStore \<Rightarrow> string \<Rightarrow> apikey_error + Key list" where
  "ListBySubject ord s subject = Inr (filter (\<lambda>k. Key_Subject k = subject) (List.map_filter (byID s) ord))"

definition memory_key_store :: "apikey_MemoryStore KeyStore" where
  "memory_key_store = \<lparr>ks_Save = Save, ks_GetByHash = GetByHash, ks_GetByID = GetByID,
     ks_Revoke = apikey_MemoryStore_Revoke\<rparr>"

section \<open>The contract of a key store\<close>

locale key_store =
  fixes save :: "'w \<Rightarrow> Key \<Rightarrow> 'w \<times> apikey_error option"
    and getByHash :: "'w \<Rightarrow> string \<Rightarrow> apikey_error + Key"
    and getByID :: "'w \<Rightarrow> string \<Rightarrow> apikey_error + Key"
    and revoke :: "'w \<Rightarrow> string \<Rightarrow> 'w \<times> apikey_error option"
    and invar :: "'w \<Rightarrow> bool"
  assumes invar_save: "invar w \<Longrightarrow> invar (fst (save w k))"
    and invar_revoke: "invar w \<Longrightarrow> invar (fst (revoke w i))"
    and get_saved: "invar w \<Longrightarrow> snd (save w k) = None \<Longrightarrow> getByHash (fst (save w k)) (Key_Hash k) = Inr k"
    and get_other: "invar w \<Longrightarrow> getByHash w h = Inr k' \<Longrightarrow> h \<noteq> Key_Hash k \<Longrightarrow> Key_ID k' \<noteq> Key_ID k \<Longrightarrow>
           getByHash (fst (save w k)) h = Inr k'"
    and get_revoked: "invar w \<Longrightarrow> getByHash w h = Inr k \<Longrightarrow>
           getByHash (fst (revoke w (Key_ID k))) h = Inr (k\<lparr>Key_Revoked := True\<rparr>)"
    and get_unrevoked: "invar w \<Longrightarrow> getByHash w h = Inr k \<Longrightarrow> Key_ID k \<noteq> i \<Longrightarrow>
           getByHash (fst (revoke w i)) h = Inr k"
begin

definition service :: "'w KeyStore" where
  "service = \<lparr>ks_Save = save, ks_GetByHash = getByHash, ks_GetByID = getByID, ks_Revoke = revoke\<rparr>"

lemma Issue_Verify:
  assumes "invar w" and "apikey_Issue service opts now now' rand w = (w', Inr ik)"
  shows "apikey_Verify service t (Issued_Plaintext ik) w' =
    (if IsExpired t (Issued_Key ik) then Inl ErrExpiredKey else Inr (Issued_Key ik))"
proof -
  obtain k where k: "save w k = (w', None)" "Issued_Key ik = k" "Key_Hash k = hashKey (Issued_Plaintext ik)"
      "\<not> Key_Revoked k"
    using assms(2)
    by (auto simp: apikey_Issue_def service_def new_key_def Let_def split: option.splits prod.splits)
  then have "getByHash w' (hashKey (Issued_Plaintext ik)) = Inr k"
    using get_saved[OF assms(1), of k] by simp
  with k show ?thesis
    by (simp add: apikey_Verify_def service_def Let_def)
qed

lemma Verify_after_Revoke:
  assumes "invar w" and "apikey_Verify service t p w = Inr k"
  shows "apikey_Verify service t' p (fst (apikey_Revoke service (Key_ID k) w)) = Inl ErrRevokedKey"
proof -
  from assms(2) have "getByHash w (hashKey p) = Inr k" "Key_Hash k = hashKey p"
    by (auto simp: apikey_Verify_def service_def Let_def split: sum.splits if_splits)
  with get_revoked[OF assms(1)] show ?thesis
    by (simp add: apikey_Verify_def apikey_Revoke_def service_def Let_def)
qed

lemma Verify_after_other_Revoke:
  assumes "invar w" and "apikey_Verify service t p w = Inr k" and "Key_ID k \<noteq> i"
  shows "apikey_Verify service t p (fst (apikey_Revoke service i w)) = Inr k"
proof -
  from assms(2) have "getByHash w (hashKey p) = Inr k"
    by (auto simp: apikey_Verify_def service_def Let_def split: sum.splits if_splits)
  with get_unrevoked[OF assms(1) _ assms(3)] assms(2) show ?thesis
    by (simp add: apikey_Verify_def apikey_Revoke_def service_def Let_def)
qed

end

section \<open>The in-memory store keeps the contract\<close>

text \<open>Keys are filed under their own ID, and every hash index entry points to a stored key.\<close>

definition apikey_invar :: "apikey_MemoryStore \<Rightarrow> bool" where
  "apikey_invar s \<longleftrightarrow> (\<forall>i k. byID s i = Some k \<longrightarrow> Key_ID k = i) \<and> (\<forall>h i. byH s h = Some i \<longrightarrow> byID s i \<noteq> None)"

lemma apikey_invar_init: "apikey_invar apikey_NewMemoryStore"
  by (simp add: apikey_invar_def apikey_NewMemoryStore_def)

interpretation keys: key_store Save GetByHash GetByID apikey_MemoryStore_Revoke apikey_invar
proof (unfold_locales, goal_cases)
  case (1 w k)
  then show ?case by (auto simp: apikey_invar_def Save_def)
next
  case (2 w i)
  then show ?case by (auto simp: apikey_invar_def apikey_MemoryStore_Revoke_def split: option.splits)
next
  case (3 w k)
  show ?case by (simp add: Save_def GetByHash_def GetByID_def)
next
  case (4 w h k' k)
  then show ?case
    by (auto simp: Save_def GetByHash_def GetByID_def apikey_invar_def split: option.splits)
next
  case (5 w h k)
  then show ?case
    by (auto simp: apikey_MemoryStore_Revoke_def GetByHash_def GetByID_def apikey_invar_def split: option.splits)
next
  case (6 w h k i)
  then show ?case
    by (auto simp: apikey_MemoryStore_Revoke_def GetByHash_def GetByID_def apikey_invar_def split: option.splits)
qed

lemma keys_service [simp]: "keys.service = memory_key_store"
  by (simp add: keys.service_def memory_key_store_def)

lemma memory_key_store_simps [simp]:
  "ks_Save memory_key_store = Save" "ks_GetByHash memory_key_store = GetByHash"
  "ks_GetByID memory_key_store = GetByID" "ks_Revoke memory_key_store = apikey_MemoryStore_Revoke"
  by (simp_all add: memory_key_store_def)


section \<open>Histories of the service\<close>

text \<open>The calls that change the store, and a run of them on the in-memory store.\<close>

datatype key_op = KIssue IssueOptions time time string | KRevoke string

fun key_step :: "key_op \<Rightarrow> apikey_MemoryStore \<Rightarrow> apikey_MemoryStore" where
  "key_step (KIssue opts now now' rand) s = fst (apikey_Issue memory_key_store opts now now' rand s)"
| "key_step (KRevoke i) s = fst (apikey_Revoke memory_key_store i s)"

definition key_run :: "key_op list \<Rightarrow> apikey_MemoryStore \<Rightarrow> apikey_MemoryStore" where
  "key_run ops s = fold key_step ops s"

text \<open>The call issues a key whose hash is \<open>h\<close> (to anybody else that is a SHA-256 collision).\<close>

fun issues_hash :: "string \<Rightarrow> key_op \<Rightarrow> bool" where
  "issues_hash h (KIssue opts now now' rand) =
     (case generateBase62 (if Issue_Length opts \<le> 0 then 40 else nat (Issue_Length opts)) rand of
        None \<Rightarrow> False
      | Some (random, _) \<Rightarrow> hashKey (key_plaintext opts random) = h)"
| "issues_hash h (KRevoke i) = False"

text \<open>The hash index leads from \<open>h\<close> to a revoked record, or to a record of another hash.\<close>

definition dead_hash :: "string \<Rightarrow> apikey_MemoryStore \<Rightarrow> bool" where
  "dead_hash h s \<longleftrightarrow> (\<forall>i k. byH s h = Some i \<longrightarrow> byID s i = Some k \<longrightarrow> Key_Hash k = h \<longrightarrow> Key_Revoked k)"

lemma dead_hash_Revoke: "dead_hash h s \<Longrightarrow> dead_hash h (fst (apikey_MemoryStore_Revoke s i))"
  by (auto simp: dead_hash_def apikey_MemoryStore_Revoke_def split: option.splits if_splits)

lemma dead_hash_Save: "dead_hash h s \<Longrightarrow> Key_Hash k \<noteq> h \<Longrightarrow> dead_hash h (fst (Save s k))"
  by (auto simp: dead_hash_def Save_def)

lemma dead_hash_Save_new:
  "dead_hash h s \<Longrightarrow> h' \<noteq> h \<Longrightarrow>
     dead_hash h (s\<lparr>byID := (byID s)(Key_ID (new_key opts now now' h') \<mapsto> new_key opts now now' h'),
                    byH := (byH s)(Key_Hash (new_key opts now now' h') \<mapsto> Key_ID (new_key opts now now' h'))\<rparr>)"
  using dead_hash_Save[of h s "new_key opts now now' h'"] by (simp add: Save_def new_key_def)

lemma dead_hash_step: "dead_hash h s \<Longrightarrow> \<not> issues_hash h op \<Longrightarrow> dead_hash h (key_step op s)"
proof (cases op)
  case (KIssue opts now now' rand)
  assume "dead_hash h s" "\<not> issues_hash h op"
  with KIssue show ?thesis
    by (auto simp: apikey_Issue_def Let_def Save_def dead_hash_Save_new split: option.splits)
next
  case (KRevoke i)
  assume "dead_hash h s"
  with KRevoke show ?thesis by (simp add: apikey_Revoke_def dead_hash_Revoke)
qed

lemma dead_hash_run:
  "dead_hash h s \<Longrightarrow> list_all (\<lambda>op. \<not> issues_hash h op) ops \<Longrightarrow> dead_hash h (key_run ops s)"
  by (induction ops arbitrary: s) (auto simp: key_run_def dead_hash_step)

lemma dead_hash_Verify:
  "dead_hash (hashKey p) s \<Longrightarrow> apikey_Verify memory_key_store t p s \<in> {Inl ErrRevokedKey, Inl ErrInvalidKey}"
  by (auto simp: apikey_Verify_def dead_hash_def GetByHash_def GetByID_def Let_def
      split: option.splits sum.splits)

lemma Revoke_dead:
  assumes "apikey_invar s" "apikey_Verify memory_key_store t p s = Inr k"
  shows "dead_hash (hashKey p) (fst (apikey_Revoke memory_key_store (Key_ID k) s))"
  using assms
  by (auto simp: apikey_Verify_def dead_hash_def GetByHash_def GetByID_def Let_def apikey_Revoke_def
      apikey_MemoryStore_Revoke_def apikey_invar_def split: option.splits sum.splits if_splits)

lemma Issue_Inr:
  assumes "apikey_Issue st opts now now' rand w = (w', Inr ik)"
  shows "Key_ExpiresAt (Issued_Key ik) =
      (if 0 < Issue_ExpiresIn opts then Some (time_Add now' (Issue_ExpiresIn opts)) else None)"
    and "Key_Subject (Issued_Key ik) = Issue_Subject opts"
    and "Key_Hash (Issued_Key ik) = hashKey (Issued_Plaintext ik)"
  using assms by (auto simp: apikey_Issue_def new_key_def Let_def split: option.splits prod.splits)

text \<open>
  Well-formed stores: every record is filed under its ID, which is the first 16 of the 64 digits of
  its hash, the hash is that of some plaintext, and the index leads from each hash to a record
  with the ID that belongs to it.
\<close>

definition stores_hashes :: "apikey_MemoryStore \<Rightarrow> bool" where
  "stores_hashes s \<longleftrightarrow>
     (\<forall>i k. byID s i = Some k \<longrightarrow> Key_ID k = i \<and> i = take 16 (Key_Hash k) \<and> (\<exists>p. Key_Hash k = hashKey p)) \<and>
     (\<forall>h i. byH s h = Some i \<longrightarrow> i = take 16 h \<and> length h = 64 \<and> byID s i \<noteq> None)"

lemma length_hashKey: "length (hashKey p) = 64"
  by (simp add: hashKey_def)

lemma stores_hashes_Save:
  "stores_hashes s \<Longrightarrow> stores_hashes (fst (Save s (new_key opts now now' (hashKey p))))"
  by (auto simp: stores_hashes_def Save_def new_key_def length_hashKey)

lemma stores_hashes_Revoke: "stores_hashes s \<Longrightarrow> stores_hashes (fst (apikey_MemoryStore_Revoke s i))"
  by (auto simp: stores_hashes_def apikey_MemoryStore_Revoke_def split: option.splits)

lemma stores_hashes_step: "stores_hashes s \<Longrightarrow> stores_hashes (key_step op s)"
proof (cases op)
  case (KIssue opts now now' rand)
  assume "stores_hashes s"
  then have "stores_hashes (fst (Save s (new_key opts now now' (hashKey p))))" for p
    by (rule stores_hashes_Save)
  note saved = this[unfolded Save_def fst_conv]
  from KIssue \<open>stores_hashes s\<close> show ?thesis
    by (auto simp: apikey_Issue_def Let_def Save_def saved split: option.splits)
next
  case (KRevoke i)
  assume "stores_hashes s"
  with KRevoke show ?thesis by (simp add: apikey_Revoke_def stores_hashes_Revoke)
qed

section \<open>Properties\<close>

text \<open>
  C11: the life of a key. A plaintext that \<open>Issue\<close> has returned verifies to the very record that
  was issued, until the expiry that the options asked for (never, when \<open>ExpiresIn\<close> is not
  positive), from then on it is rejected as expired; once its ID is revoked it is rejected as
  revoked at any time, expired or not.
\<close>

theorem issued_key_lifecycle:
  assumes "apikey_invar s"
    and "apikey_Issue memory_key_store opts now now' rand s = (s', Inr ik)"
  shows "apikey_Verify memory_key_store t (Issued_Plaintext ik) s' =
      (if 0 < Issue_ExpiresIn opts \<and> time_After t (time_Add now' (Issue_ExpiresIn opts))
       then Inl ErrExpiredKey else Inr (Issued_Key ik))
    \<and> apikey_Verify memory_key_store t' (Issued_Plaintext ik)
        (fst (apikey_Revoke memory_key_store (Key_ID (Issued_Key ik)) s')) = Inl ErrRevokedKey"
proof -
  have inv: "apikey_invar s'"
    using assms keys.invar_save[OF assms(1)]
    by (auto simp: apikey_Issue_def Let_def split: option.splits prod.splits)
      (metis fst_conv)
  have v: "apikey_Verify memory_key_store t (Issued_Plaintext ik) s' =
    (if IsExpired t (Issued_Key ik) then Inl ErrExpiredKey else Inr (Issued_Key ik))" for t
    using keys.Issue_Verify[OF assms(1)] assms(2) by simp
  have "byH s' (hashKey (Issued_Plaintext ik)) = Some (Key_ID (Issued_Key ik))"
    "byID s' (Key_ID (Issued_Key ik)) = Some (Issued_Key ik)"
    using assms(2)
    by (auto simp: apikey_Issue_def Save_def new_key_def Let_def split: option.splits prod.splits)
  then have "apikey_Verify memory_key_store t' (Issued_Plaintext ik)
        (fst (apikey_Revoke memory_key_store (Key_ID (Issued_Key ik)) s')) = Inl ErrRevokedKey"
    using Issue_Inr(3)[OF assms(2)]
    by (simp add: apikey_Verify_def apikey_Revoke_def apikey_MemoryStore_Revoke_def GetByHash_def
        GetByID_def Let_def)
  with v Issue_Inr(1)[OF assms(2)] show ?thesis
    by (simp add: IsExpired_def)
qed


text \<open>One base62 digit from the byte 5, which is the character ''5''.\<close>

definition sample_options :: IssueOptions where
  "sample_options = \<lparr>Issue_Prefix = ''sk'', Issue_Name = ''ci'', Issue_Subject = ''alice'',
     Issue_Metadata = Map.empty, Issue_ExpiresIn = 10, Issue_Length = 1\<rparr>"

definition sample_key :: Key where
  "sample_key = new_key sample_options 100 100 (hashKey ''sk_5'')"

lemma sample_draw: "generateBase62 1 [CHR 0x05] = Some (''5'', [])"
  by code_simp

lemma sample_Issue:
  "apikey_Issue memory_key_store sample_options 100 100 [CHR 0x05] s =
     (fst (Save s sample_key), Inr \<lparr>Issued_Plaintext = ''sk_5'', Issued_Key = sample_key\<rparr>)"
  using sample_draw
  by (simp add: apikey_Issue_def Let_def sample_options_def key_plaintext_def sample_key_def Save_def)

lemma issued_key_lifecycle_witness:
  "apikey_Verify memory_key_store 110 ''sk_5'' (fst (Save apikey_NewMemoryStore sample_key)) = Inr sample_key \<and>
   apikey_Verify memory_key_store 111 ''sk_5'' (fst (Save apikey_NewMemoryStore sample_key)) = Inl ErrExpiredKey \<and>
   apikey_Verify memory_key_store 5 ''sk_5''
     (fst (apikey_Revoke memory_key_store (Key_ID sample_key) (fst (Save apikey_NewMemoryStore sample_key)))) =
     Inl ErrRevokedKey"
proof -
  note i = issued_key_lifecycle[OF apikey_invar_init sample_Issue]
  have d: "Issue_ExpiresIn sample_options = 10" by (simp add: sample_options_def)
  show ?thesis
    using i[of 110 5] i[of 111 5] by (simp add: d time_After_def time_Add_def)
qed

text \<open>
  C6: revocation is final. A plaintext that verified before its key was revoked is never
  accepted again, at any time and after any further calls of \<open>Issue\<close> and \<open>Revoke\<close> by anybody,
  unless one of them issues a key with the same SHA-256 hash.
\<close>

theorem revoked_key_stays_rejected:
  assumes "apikey_invar s"
    and "apikey_Verify memory_key_store t p s = Inr k"
    and "list_all (\<lambda>op. \<not> issues_hash (hashKey p) op) ops"
  shows "apikey_Verify memory_key_store t' p (key_run (KRevoke (Key_ID k) # ops) s)
         \<in> {Inl ErrRevokedKey, Inl ErrInvalidKey}"
  using dead_hash_Verify[OF dead_hash_run[OF Revoke_dead[OF assms(1,2)] assms(3)]]
  by (simp add: key_run_def)

lemma revoked_key_stays_rejected_witness:
  "apikey_Verify memory_key_store 105 ''sk_5''
     (key_run [KRevoke (Key_ID sample_key), KRevoke ''other'', KIssue sample_options 101 101 []]
        (fst (Save apikey_NewMemoryStore sample_key)))
   \<in> {Inl ErrRevokedKey, Inl ErrInvalidKey}"
proof (rule revoked_key_stays_rejected[where t = 100])
  show inv: "apikey_invar (fst (Save apikey_NewMemoryStore sample_key))"
    by (rule keys.invar_save[OF apikey_invar_init])
  show "apikey_Verify memory_key_store 100 ''sk_5'' (fst (Save apikey_NewMemoryStore sample_key)) = Inr sample_key"
    using keys.Issue_Verify[OF apikey_invar_init, of sample_options 100 100 "[CHR 0x05]"] sample_Issue
    by (simp add: IsExpired_def sample_key_def new_key_def sample_options_def time_Add_def time_After_def)
  show "list_all (\<lambda>op. \<not> issues_hash (hashKey ''sk_5'') op)
      [KRevoke ''other'', KIssue sample_options 101 101 []]"
    by (simp add: sample_options_def)
qed


text \<open>
  Keys do not disturb each other. Saving a key with another hash and another ID (as \<open>Issue\<close>
  does), or revoking another ID, leaves the verification of a key as it was, whatever the result
  of \<open>Verify\<close> was for a key on file.
\<close>

theorem other_keys_unaffected:
  assumes "apikey_invar s" and "GetByHash s (hashKey p) = Inr k"
  shows "(Key_Hash k' \<noteq> hashKey p \<and> Key_ID k' \<noteq> Key_ID k \<longrightarrow>
            apikey_Verify memory_key_store t p (fst (Save s k')) = apikey_Verify memory_key_store t p s)
       \<and> (i \<noteq> Key_ID k \<longrightarrow>
            apikey_Verify memory_key_store t p (fst (apikey_Revoke memory_key_store i s)) =
            apikey_Verify memory_key_store t p s)"
proof (intro conjI impI)
  assume "Key_Hash k' \<noteq> hashKey p \<and> Key_ID k' \<noteq> Key_ID k"
  then have "GetByHash (fst (Save s k')) (hashKey p) = Inr k"
    using keys.get_other[OF assms, of k'] by metis
  with assms(2) show "apikey_Verify memory_key_store t p (fst (Save s k')) = apikey_Verify memory_key_store t p s"
    by (simp add: apikey_Verify_def Let_def)
next
  assume "i \<noteq> Key_ID k"
  then have "GetByHash (fst (apikey_MemoryStore_Revoke s i)) (hashKey p) = Inr k"
    using keys.get_unrevoked[OF assms, of i] by metis
  with assms(2) show "apikey_Verify memory_key_store t p (fst (apikey_Revoke memory_key_store i s)) =
      apikey_Verify memory_key_store t p s"
    by (simp add: apikey_Verify_def apikey_Revoke_def Let_def)
qed

lemma other_keys_unaffected_witness:
  "apikey_Verify memory_key_store 105 ''sk_5''
     (fst (apikey_Revoke memory_key_store ''other'' (fst (Save apikey_NewMemoryStore sample_key)))) =
   apikey_Verify memory_key_store 105 ''sk_5'' (fst (Save apikey_NewMemoryStore sample_key))"
proof -
  have inv: "apikey_invar (fst (Save apikey_NewMemoryStore sample_key))"
    by (rule keys.invar_save[OF apikey_invar_init])
  have h: "Key_Hash sample_key = hashKey ''sk_5''"
    by (simp add: sample_key_def new_key_def)
  have get: "GetByHash (fst (Save apikey_NewMemoryStore sample_key)) (hashKey ''sk_5'') = Inr sample_key"
    using keys.get_saved[OF apikey_invar_init, of sample_key] by (simp add: h Save_def)
  have "length (Key_ID sample_key) = 16"
    by (simp add: sample_key_def new_key_def hashKey_def)
  then have "length ''other'' \<noteq> length (Key_ID sample_key)" by simp
  then have "''other'' \<noteq> Key_ID sample_key" by metis
  with other_keys_unaffected[OF inv get, of sample_key 105 "''other''"] show ?thesis by simp
qed


lemma bit_length_61: "bit_length 61 = 6"
  by (simp add: bit_length.simps)

text \<open>The numbers that \<open>rand.Int\<close> keeps out of a stream of random bytes.\<close>

definition kept_draws :: "string \<Rightarrow> nat list" where
  "kept_draws rs = filter (\<lambda>v. v < 62) (map (\<lambda>b. of_char b mod 64) rs)"

lemma length_base62Chars: "length base62Chars = 62"
  by (simp add: base62Chars_def)

lemma rand_Int_kept:
  "case rand_Int 62 rs of
     None \<Rightarrow> kept_draws rs = []
   | Some (i, rs') \<Rightarrow> kept_draws rs = i # kept_draws rs'"
  by (induction "62 :: nat" rs rule: rand_Int.induct)
    (auto simp: kept_draws_def Let_def bit_length_61 take_bit_eq_mod split: option.splits)

lemma generateBase62_kept:
  "map_option fst (generateBase62 n rs) =
     (if n \<le> length (kept_draws rs) then Some (map (\<lambda>i. base62Chars ! i) (take n (kept_draws rs))) else None)"
proof (induction n arbitrary: rs)
  case (Suc n)
  show ?case
  proof (cases "rand_Int 62 rs")
    case None
    with rand_Int_kept[of rs] show ?thesis by (simp add: length_base62Chars)
  next
    case (Some p)
    obtain i rs' where p: "p = (i, rs')" by fastforce
    with Some rand_Int_kept[of rs] have "kept_draws rs = i # kept_draws rs'" by simp
    with Some p Suc.IH[of rs'] show ?thesis
      by (auto simp: length_base62Chars split: option.splits if_splits)
  qed
qed simp

lemma rand_Int_62: "rand_Int 62 [b] = Some (i, []) \<longleftrightarrow> i < 62 \<and> of_char b mod 64 = i"
  by (auto simp: Let_def bit_length_61 take_bit_eq_mod)

lemma card_draws:
  assumes "i < 62"
  shows "card {b. rand_Int 62 [b] = Some (i, [])} = 4"
proof -
  let ?S = "{i, i + 64, i + 128, i + 192}"
  have "x mod 64 = i \<longleftrightarrow> x \<in> ?S" if "x < 256" for x :: nat
  proof
    assume a: "x mod 64 = i"
    have "x = x div 64 * 64 + x mod 64" by simp
    moreover from that have "x div 64 < 4" by (simp add: less_mult_imp_div_less)
    then have "x div 64 = 0 \<or> x div 64 = 1 \<or> x div 64 = 2 \<or> x div 64 = 3" by linarith
    ultimately show "x \<in> ?S"
      using a by auto
  next
    assume "x \<in> ?S"
    with assms show "x mod 64 = i" by (auto simp: mod_add_eq[symmetric])
  qed
  moreover have "of_char b < (256 :: nat)" for b :: char by simp
  ultimately have "{b. rand_Int 62 [b] = Some (i, [])} = {b. of_char b \<in> ?S}"
    unfolding rand_Int_62 using assms by blast
  also have "\<dots> = char_of ` ?S"
  proof (rule set_eqI)
    fix b :: char
    have "b \<in> char_of ` ?S" if "of_char b \<in> ?S"
      using that by (metis char_of_char image_eqI)
    moreover have "of_char b \<in> ?S" if "b \<in> char_of ` ?S"
      using that assms by (auto simp: of_char_of)
    ultimately show "b \<in> {b. of_char b \<in> ?S} \<longleftrightarrow> b \<in> char_of ` ?S" by blast
  qed
  also have "card \<dots> = card ?S"
  proof (rule card_image)
    show "inj_on (char_of :: nat \<Rightarrow> char) ?S"
      by (rule inj_on_inverseI[where g = of_char]) (use assms in \<open>auto simp: of_char_of\<close>)
  qed
  finally show ?thesis by simp
qed

text \<open>
  A generated key has exactly the requested number of base62 characters, one per random byte
  whose low six bits are below 62, in the order of the bytes (generation fails only when the
  randomness runs out), and the choice of every character is unbiased: of the 256 values of a
  random byte, each of the 62 characters is produced by exactly four.
\<close>

theorem generated_keys_unbiased:
  "map_option fst (generateBase62 n rs) =
     (if n \<le> length (kept_draws rs) then Some (map (\<lambda>i. base62Chars ! i) (take n (kept_draws rs))) else None)
   \<and> card {b. rand_Int (length base62Chars) [b] = Some (i, [])} = (if i < length base62Chars then 4 else 0)"
  using card_draws[of i] generateBase62_kept[of n rs] rand_Int_62[of _ i] by (simp add: length_base62Chars)

end
