(* ===== verification/AuditLog.thy ===== *)
theory AuditLog
  imports Prelude
begin

text \<open>
  The package \<open>audit\<close> without its HTTP part (\<open>audit/audit.go\<close>): events, the loggers, the event
  builder. A logger is its \<open>Log\<close> method: a function of the event and the state \<open>'w\<close> it writes to,
  with an error or none. The context argument of \<open>Log\<close> is not modelled: no logger of this file
  reads it. The JSON logger is in \<open>AuditJson\<close>.
\<close>

section \<open>Events\<close>

datatype EventType =
    EventLogin | EventLoginFailed | EventLogout | EventMFASuccess | EventMFAFailed
  | EventTokenIssued | EventTokenVerified | EventTokenRefreshed | EventTokenRevoked
  | EventTokenExpired | EventTokenInvalid
  | EventAPIKeyIssued | EventAPIKeyUsed | EventAPIKeyRevoked | EventAPIKeyInvalid
  | EventAccessGranted | EventAccessDenied
  | EventRateLimited
  | EventPasswordChanged | EventPasswordReset | EventAccountLocked | EventAccountUnlocked
  | EventOther string

fun EventType_string :: "EventType \<Rightarrow> string" where
  "EventType_string EventLogin = ''auth.login''"
| "EventType_string EventLoginFailed = ''auth.login_failed''"
| "EventType_string EventLogout = ''auth.logout''"
| "EventType_string EventMFASuccess = ''auth.mfa_success''"
| "EventType_string EventMFAFailed = ''auth.mfa_failed''"
| "EventType_string EventTokenIssued = ''token.issued''"
| "EventType_string EventTokenVerified = ''token.verified''"
| "EventType_string EventTokenRefreshed = ''token.refreshed''"
| "EventType_string EventTokenRevoked = ''token.revoked''"
| "EventType_string EventTokenExpired = ''token.expired''"
| "EventType_string EventTokenInvalid = ''token.invalid''"
| "EventType_string EventAPIKeyIssued = ''apikey.issued''"
| "EventType_string EventAPIKeyUsed = ''apikey.used''"
| "EventType_string EventAPIKeyRevoked = ''apikey.revoked''"
| "EventType_string EventAPIKeyInvalid = ''apikey.invalid''"
| "EventType_string EventAccessGranted = ''authz.access_granted''"
| "EventType_string EventAccessDenied = ''authz.access_denied''"
| "EventType_string EventRateLimited = ''rate.limited''"
| "EventType_string EventPasswordChanged = ''account.password_changed''"
| "EventType_string EventPasswordReset = ''account.password_reset''"
| "EventType_string EventAccountLocked = ''account.locked''"
| "EventType_string EventAccountUnlocked = ''account.unlocked''"
| "EventType_string (EventOther s) = s"

datatype Result = ResultAllow | ResultDeny | ResultUnknown | ResultOther string

fun Result_string :: "Result \<Rightarrow> string" where
  "Result_string ResultAllow = ''allow''"
| "Result_string ResultDeny = ''deny''"
| "Result_string ResultUnknown = ''unknown''"
| "Result_string (ResultOther s) = s"

record Event =
  Event_ID :: string
  Event_Type :: EventType
  Event_Timestamp :: time
  Event_Subject :: string
  Event_Resource :: string
  Event_Action :: string
  Event_Result :: Result
  Event_IP :: string
  Event_UserAgent :: string
  Event_RequestID :: string
  Event_Meta :: "attributes option"

definition zero_Event :: Event where
  "zero_Event = \<lparr>Event_ID = '''', Event_Type = EventOther '''', Event_Timestamp = zero_time,
     Event_Subject = '''', Event_Resource = '''', Event_Action = '''', Event_Result = ResultOther '''',
     Event_IP = '''', Event_UserAgent = '''', Event_RequestID = '''', Event_Meta = None\<rparr>"

section \<open>Loggers\<close>

type_synonym 'w Logger = "Event \<Rightarrow> 'w \<Rightarrow> 'w \<times> string option"

definition stamp :: "time \<Rightarrow> Event \<Rightarrow> Event" where
  "stamp now e = (if Event_Timestamp e = zero_time then e\<lparr>Event_Timestamp := now\<rparr> else e)"

text \<open>The loop of \<open>MultiLogger.Log\<close>: \<open>first\<close> is the first error met so far.\<close>

fun multi_log :: "'w Logger list \<Rightarrow> Event \<Rightarrow> string option \<Rightarrow> 'w \<Rightarrow> 'w \<times> string option" where
  "multi_log [] e first w = (w, first)"
| "multi_log (l # ls) e first w =
     (case l e w of
        (w', err) \<Rightarrow> multi_log ls e (if err \<noteq> None \<and> first = None then err else first) w')"

definition MultiLogger_Log :: "'w Logger list \<Rightarrow> 'w Logger" where
  "MultiLogger_Log loggers e w = multi_log loggers e None w"

definition NOOPLogger_Log :: "'w Logger" where
  "NOOPLogger_Log e w = (w, None)"

section \<open>The event builder\<close>

definition Eventf :: "time \<Rightarrow> EventType \<Rightarrow> string \<Rightarrow> Result \<Rightarrow> Event" where
  "Eventf now t subject result =
     zero_Event\<lparr>Event_Type := t, Event_Subject := subject, Event_Result := result, Event_Timestamp := now\<rparr>"

definition WithResource :: "string \<Rightarrow> Event \<Rightarrow> Event" where
  "WithResource resource b = b\<lparr>Event_Resource := resource\<rparr>"

definition WithAction :: "string \<Rightarrow> Event \<Rightarrow> Event" where
  "WithAction action b = b\<lparr>Event_Action := action\<rparr>"

definition WithIP :: "string \<Rightarrow> Event \<Rightarrow> Event" where
  "WithIP ip b = b\<lparr>Event_IP := ip\<rparr>"

definition WithMeta :: "string \<Rightarrow> any \<Rightarrow> Event \<Rightarrow> Event" where
  "WithMeta key v b =
     b\<lparr>Event_Meta := Some ((case Event_Meta b of None \<Rightarrow> Map.empty | Some m \<Rightarrow> m)(key \<mapsto> v))\<rparr>"

definition WithRequestID :: "string \<Rightarrow> Event \<Rightarrow> Event" where
  "WithRequestID i b = b\<lparr>Event_RequestID := i\<rparr>"

section \<open>Lemmas\<close>

text \<open>The states of a run of the loggers and the errors they return, one after the other.\<close>

fun log_results :: "'w Logger list \<Rightarrow> Event \<Rightarrow> 'w \<Rightarrow> string option list" where
  "log_results [] e w = []"
| "log_results (l # ls) e w = snd (l e w) # log_results ls e (fst (l e w))"

definition log_states :: "'w Logger list \<Rightarrow> Event \<Rightarrow> 'w \<Rightarrow> 'w" where
  "log_states ls e w = fold (\<lambda>l w. fst (l e w)) ls w"

fun first_error :: "string option list \<Rightarrow> string option" where
  "first_error [] = None"
| "first_error (None # rs) = first_error rs"
| "first_error (Some e # rs) = Some e"

lemma multi_log_spec:
  "multi_log ls e first w =
     (log_states ls e w, case first of None \<Rightarrow> first_error (log_results ls e w) | Some _ \<Rightarrow> first)"
proof (induction ls arbitrary: first w)
  case Nil
  then show ?case by (cases first) (simp_all add: log_states_def)
next
  case (Cons l ls)
  obtain w' err where "l e w = (w', err)" by fastforce
  with Cons show ?case
    by (cases err; cases first) (auto simp: log_states_def)
qed

section \<open>Properties\<close>

text \<open>
  The fan-out of \<open>MultiLogger\<close>. Every logger is called exactly once, in order, whatever the
  others return, and the result is the first error in that order, or none when all succeed.
\<close>

theorem MultiLogger_calls_all:
  "MultiLogger_Log ls e w = (log_states ls e w, first_error (log_results ls e w))"
  by (simp add: MultiLogger_Log_def multi_log_spec)

end
