(* ===== verification/Http.thy ===== *)
theory Http
  imports Jwt ApiKey AuditLog
begin

text \<open>
  The part of Go's \<open>net/http\<close>, \<open>net\<close>, \<open>strings\<close> and \<open>strconv\<close> that the middleware uses. A request
  carries its context, one field per context key of the library (the keys are private types, so
  that no other package can set them). A handler is a function of the request and the state
  \<open>'w\<close> of everything behind it; it returns the list of calls it makes on the
  \<open>ResponseWriter\<close>, in order, or panics.
\<close>

section \<open>Strings\<close>

definition HasPrefix :: "string \<Rightarrow> string \<Rightarrow> bool" where
  "HasPrefix s p \<longleftrightarrow> take (length p) s = p"

definition TrimPrefix :: "string \<Rightarrow> string \<Rightarrow> string" where
  "TrimPrefix s p = (if HasPrefix s p then drop (length p) s else s)"

fun index_of :: "char \<Rightarrow> string \<Rightarrow> nat option" where
  "index_of c [] = None"
| "index_of c (x # xs) = (if x = c then Some 0 else map_option Suc (index_of c xs))"

fun last_index_of :: "char \<Rightarrow> string \<Rightarrow> nat option" where
  "last_index_of c [] = None"
| "last_index_of c (x # xs) =
     (case last_index_of c xs of
        Some i \<Rightarrow> Some (Suc i)
      | None \<Rightarrow> if x = c then Some 0 else None)"

definition ascii :: "char \<Rightarrow> bool" where
  "ascii c \<longleftrightarrow> of_char c < (128 :: nat)"

definition upper_byte :: "char \<Rightarrow> char" where
  "upper_byte c = (let n = of_char c :: nat in if 97 \<le> n \<and> n \<le> 122 then char_of (n - 32) else c)"

definition lower_byte :: "char \<Rightarrow> char" where
  "lower_byte c = (let n = of_char c :: nat in if 65 \<le> n \<and> n \<le> 90 then char_of (n + 32) else c)"

text \<open>
  \<open>strings.ToLower\<close> and \<open>strings.ToUpper\<close>: on ASCII strings bytewise; the Unicode case tables,
  which apply to other strings, are the parameter \<open>u\<close>.
\<close>

definition ToLower :: "(string \<Rightarrow> string) \<Rightarrow> string \<Rightarrow> string" where
  "ToLower u s = (if list_all ascii s then map lower_byte s else u s)"

definition ToUpper :: "(string \<Rightarrow> string) \<Rightarrow> string \<Rightarrow> string" where
  "ToUpper u s = (if list_all ascii s then map upper_byte s else u s)"

fun join :: "string \<Rightarrow> string list \<Rightarrow> string" where
  "join sep [] = ''''"
| "join sep [x] = x"
| "join sep (x # y # zs) = x @ sep @ join sep (y # zs)"

text \<open>\<open>strconv.Itoa\<close> and \<open>strconv.FormatInt(_, 10)\<close>.\<close>

fun decimal :: "nat \<Rightarrow> string" where
  "decimal n = (if n < 10 then [char_of (48 + n)] else decimal (n div 10) @ [char_of (48 + n mod 10)])"

declare decimal.simps [simp del]

definition FormatInt :: "int \<Rightarrow> string" where
  "FormatInt i = (if i < 0 then CHR ''-'' # decimal (nat (- i)) else decimal (nat i))"

text \<open>\<open>strconv.ParseInt(_, 10, 64)\<close>: an optional sign, then digits, in range.\<close>

definition digit_value :: "char \<Rightarrow> nat option" where
  "digit_value c = (let n = of_char c :: nat in if 48 \<le> n \<and> n \<le> 57 then Some (n - 48) else None)"

fun parse_digits :: "nat \<Rightarrow> string \<Rightarrow> nat option" where
  "parse_digits acc [] = Some acc"
| "parse_digits acc (c # cs) =
     (case digit_value c of None \<Rightarrow> None | Some d \<Rightarrow> parse_digits (10 * acc + d) cs)"

definition parse_nat :: "string \<Rightarrow> nat option" where
  "parse_nat s = (if s = [] then None else parse_digits 0 s)"

definition ParseInt :: "string \<Rightarrow> int64 option" where
  "ParseInt s =
     (let r = (case s of
                 [] \<Rightarrow> None
               | c # cs \<Rightarrow>
                   if c = CHR ''-'' then map_option (\<lambda>n. - int n) (parse_nat cs)
                   else if c = CHR ''+'' then map_option int (parse_nat cs)
                   else map_option int (parse_nat s))
      in case r of Some i \<Rightarrow> (if in_int64 i then Some i else None) | None \<Rightarrow> None)"

text \<open>\<open>strings.TrimSpace\<close> and \<open>strings.EqualFold\<close>, with \<open>u\<close> for strings that are not ASCII.\<close>

definition is_space :: "char \<Rightarrow> bool" where
  "is_space c \<longleftrightarrow> of_char c \<in> {9, 10, 11, 12, 13, 32 :: nat}"

definition TrimSpace :: "(string \<Rightarrow> string) \<Rightarrow> string \<Rightarrow> string" where
  "TrimSpace u s = (if list_all ascii s then rev (dropWhile is_space (rev (dropWhile is_space s))) else u s)"

definition EqualFold :: "(string \<Rightarrow> string \<Rightarrow> bool) \<Rightarrow> string \<Rightarrow> string \<Rightarrow> bool" where
  "EqualFold u s t =
     (if list_all ascii s \<and> list_all ascii t then map lower_byte s = map lower_byte t else u s t)"

section \<open>Headers\<close>

text \<open>
  \<open>textproto.CanonicalMIMEHeaderKey\<close>: a key with a byte that may not occur in a header name is
  left alone; otherwise the first letter and each letter after a hyphen become upper case, the
  others lower case.
\<close>

definition token_char :: "char \<Rightarrow> bool" where
  "token_char c =
     (let n = of_char c :: nat
      in (48 \<le> n \<and> n \<le> 57) \<or> (65 \<le> n \<and> n \<le> 90) \<or> (97 \<le> n \<and> n \<le> 122)
         \<or> c \<in> set ''!#$%&*+-.^_|~'' \<or> n = 39 \<or> n = 96)"

fun capitalise :: "bool \<Rightarrow> string \<Rightarrow> string" where
  "capitalise up [] = []"
| "capitalise up (c # cs) = (if up then upper_byte c else lower_byte c) # capitalise (c = CHR ''-'') cs"

definition CanonicalKey :: "string \<Rightarrow> string" where
  "CanonicalKey k = (if list_all token_char k then capitalise True k else k)"

type_synonym Header = "string \<rightharpoonup> string list"

definition Header_Get :: "Header \<Rightarrow> string \<Rightarrow> string" where
  "Header_Get h k = (case h (CanonicalKey k) of Some (v # _) \<Rightarrow> v | _ \<Rightarrow> '''')"

definition Header_Set :: "string \<Rightarrow> string \<Rightarrow> Header \<Rightarrow> Header" where
  "Header_Set k v h = h(CanonicalKey k \<mapsto> [v])"

definition Header_Add :: "string \<Rightarrow> string \<Rightarrow> Header \<Rightarrow> Header" where
  "Header_Add k v h =
     h(CanonicalKey k \<mapsto> (case h (CanonicalKey k) of None \<Rightarrow> [v] | Some vs \<Rightarrow> vs @ [v]))"

definition Header_Del :: "string \<Rightarrow> Header \<Rightarrow> Header" where
  "Header_Del k h = h(CanonicalKey k := None)"

section \<open>Requests\<close>

text \<open>The body of a request: its bytes, or the error that reading it ends with.\<close>

datatype http_body = Body string | BrokenBody string

record 'w http_Request =
  req_Method :: string
  req_Path :: string
  req_Query :: "string \<Rightarrow> string"
  req_RemoteAddr :: string
  req_Header :: Header
  req_Body :: http_body
  ctx_Claims :: "Claims option"
  ctx_Key :: "Key option"
  ctx_Logger :: "'w Logger option"

text \<open>
  \<open>net.SplitHostPort\<close>, the host only (\<open>None\<close> is the error): the port follows the last colon,
  and a host with colons is in brackets.
\<close>

definition SplitHostPort :: "string \<Rightarrow> string option" where
  "SplitHostPort s =
     (case last_index_of (CHR '':'') s of
        None \<Rightarrow> None
      | Some i \<Rightarrow>
          if hd s = CHR ''['' then
            (case index_of (CHR '']'') s of
               None \<Rightarrow> None
             | Some e \<Rightarrow>
                 if e + 1 \<noteq> i then None
                 else if CHR ''['' \<in> set (drop 1 s) \<or> CHR '']'' \<in> set (drop (e + 1) s) then None
                 else Some (take (e - 1) (drop 1 s)))
          else if CHR '':'' \<in> set (take i s) then None
          else if CHR ''['' \<in> set s \<or> CHR '']'' \<in> set s then None
          else Some (take i s))"

section \<open>Responses\<close>

datatype rw_call =
    RwSet string string
  | RwAdd string string
  | RwDel string
  | RwWriteHeader int
  | RwWrite string

text \<open>
  What a response writer of the server has done with the calls: the header map that can still be
  changed, what went over the wire as the final status with the header map of that moment, and
  the body. The first final status wins; informational ones (100 to 199, except 101) do not end
  the header; a write without a status sends 200.
\<close>

record ResponseWriter =
  rw_Header :: Header
  rw_Sent :: "(int \<times> Header) option"
  rw_Body :: string

definition new_ResponseWriter :: ResponseWriter where
  "new_ResponseWriter = \<lparr>rw_Header = Map.empty, rw_Sent = None, rw_Body = ''''\<rparr>"

definition informational :: "int \<Rightarrow> bool" where
  "informational status \<longleftrightarrow> 100 \<le> status \<and> status \<le> 199 \<and> status \<noteq> 101"

definition send_header :: "int \<Rightarrow> ResponseWriter \<Rightarrow> ResponseWriter" where
  "send_header status rw =
     (if rw_Sent rw \<noteq> None \<or> informational status then rw
      else rw\<lparr>rw_Sent := Some (status, rw_Header rw)\<rparr>)"

fun rw_step :: "rw_call \<Rightarrow> ResponseWriter \<Rightarrow> ResponseWriter" where
  "rw_step (RwSet k v) rw = rw\<lparr>rw_Header := Header_Set k v (rw_Header rw)\<rparr>"
| "rw_step (RwAdd k v) rw = rw\<lparr>rw_Header := Header_Add k v (rw_Header rw)\<rparr>"
| "rw_step (RwDel k) rw = rw\<lparr>rw_Header := Header_Del k (rw_Header rw)\<rparr>"
| "rw_step (RwWriteHeader status) rw = send_header status rw"
| "rw_step (RwWrite b) rw =
     (let rw' = send_header 200 rw in rw'\<lparr>rw_Body := rw_Body rw' @ b\<rparr>)"

definition rw_run :: "rw_call list \<Rightarrow> ResponseWriter \<Rightarrow> ResponseWriter" where
  "rw_run calls rw = fold rw_step calls rw"

text \<open>When the handler returns, the server finishes the response with 200 if nothing was sent.\<close>

definition response :: "rw_call list \<Rightarrow> int \<times> Header" where
  "response calls = the (rw_Sent (send_header 200 (rw_run calls new_ResponseWriter)))"

definition response_status :: "rw_call list \<Rightarrow> int" where
  "response_status calls = fst (response calls)"

definition response_header :: "rw_call list \<Rightarrow> Header" where
  "response_header calls = snd (response calls)"

section \<open>Handlers\<close>

type_synonym 'w Handler = "'w http_Request \<Rightarrow> 'w \<Rightarrow> ('w \<times> rw_call list) outcome"

definition reply :: "rw_call list \<Rightarrow> 'w \<Rightarrow> ('w \<times> rw_call list) outcome" where
  "reply calls w = Ret (w, calls)"

text \<open>The calls a middleware makes before it hands the same writer to the next handler.\<close>

definition and_then :: "rw_call list \<Rightarrow> ('w \<times> rw_call list) outcome \<Rightarrow> ('w \<times> rw_call list) outcome" where
  "and_then calls x = bind_outcome x (\<lambda>(w, calls'). Ret (w, calls @ calls'))"


text \<open>The literal body of the error responses, an object with one field \<open>error\<close>.\<close>

definition quoted :: "string \<Rightarrow> string" where
  "quoted s = [CHR 0x22] @ s @ [CHR 0x22]"

definition json_error :: "string \<Rightarrow> string" where
  "json_error msg = [CHR 0x7B] @ quoted ''error'' @ '':'' @ quoted msg @ [CHR 0x7D]"

section \<open>Lemmas\<close>

lemma canonical_keys [simp]:
  "CanonicalKey ''Authorization'' = ''Authorization''"
  "CanonicalKey ''X-API-Key'' = ''X-Api-Key''"
  "CanonicalKey ''Content-Type'' = ''Content-Type''"
  "CanonicalKey ''WWW-Authenticate'' = ''Www-Authenticate''"
  "CanonicalKey ''Origin'' = ''Origin''"
  "CanonicalKey ''Vary'' = ''Vary''"
  "CanonicalKey ''X-Forwarded-For'' = ''X-Forwarded-For''"
  "CanonicalKey ''X-Signature'' = ''X-Signature''"
  "CanonicalKey ''X-Timestamp'' = ''X-Timestamp''"
  by code_simp+

lemma digit_chars [simp]:
  "char_of (48 :: nat) = CHR ''0''" "char_of (49 :: nat) = CHR ''1''" "char_of (50 :: nat) = CHR ''2''"
  "char_of (51 :: nat) = CHR ''3''" "char_of (52 :: nat) = CHR ''4''" "char_of (53 :: nat) = CHR ''5''"
  "char_of (54 :: nat) = CHR ''6''" "char_of (55 :: nat) = CHR ''7''" "char_of (56 :: nat) = CHR ''8''"
  "char_of (57 :: nat) = CHR ''9''"
  by code_simp+

lemma HasPrefix_append [simp]: "HasPrefix (p @ s) p" "TrimPrefix (p @ s) p = s"
  by (simp_all add: HasPrefix_def TrimPrefix_def)

lemma HasPrefix_iff: "HasPrefix s p \<longleftrightarrow> (\<exists>t. s = p @ t)"
  by (auto simp: HasPrefix_def) (metis append_take_drop_id)

lemma after_prefix:
  "(if \<not> HasPrefix s p then Inl e
    else let t = TrimPrefix s p in if t = [] then Inl e else Inr t) = Inr token \<longleftrightarrow>
   s = p @ token \<and> token \<noteq> []"
  by (auto simp: HasPrefix_iff Let_def split: if_splits)

lemma dropWhile_none: "list_all (\<lambda>c. \<not> P c) xs \<Longrightarrow> dropWhile P xs = xs"
  by (cases xs) simp_all

lemma TrimSpace_plain:
  "list_all ascii s \<Longrightarrow> list_all (\<lambda>c. \<not> is_space c) s \<Longrightarrow> TrimSpace u s = s"
  by (simp add: TrimSpace_def dropWhile_none)

lemma Header_Get_Set: "Header_Get (Header_Set k v h) k' = (if CanonicalKey k' = CanonicalKey k then v else Header_Get h k')"
  by (simp add: Header_Get_def Header_Set_def)

lemma Header_Get_Del: "Header_Get (Header_Del k h) k' = (if CanonicalKey k' = CanonicalKey k then '''' else Header_Get h k')"
  by (simp add: Header_Get_def Header_Del_def)

lemma rw_run_Nil [simp]: "rw_run [] rw = rw"
  by (simp add: rw_run_def)

lemma rw_run_Cons [simp]: "rw_run (c # cs) rw = rw_run cs (rw_step c rw)"
  by (simp add: rw_run_def)

lemma rw_run_append [simp]: "rw_run (xs @ ys) rw = rw_run ys (rw_run xs rw)"
  by (simp add: rw_run_def)

lemma rw_Sent_keeps: "rw_Sent rw = Some s \<Longrightarrow> rw_Sent (rw_run calls rw) = Some s"
proof (induction calls arbitrary: rw)
  case (Cons c cs)
  then have "rw_Sent (rw_step c rw) = Some s"
    by (cases c) (auto simp: send_header_def Let_def)
  with Cons.IH show ?case by simp
qed simp

text \<open>After a \<open>WriteHeader\<close> on a writer that has sent nothing, the response is fixed.\<close>

lemma response_fixed:
  assumes "rw_Sent (rw_run xs new_ResponseWriter) = None" and "\<not> informational status"
  shows "response (xs @ RwWriteHeader status # ys) = (status, rw_Header (rw_run xs new_ResponseWriter))"
proof -
  have "rw_Sent (rw_step (RwWriteHeader status) (rw_run xs new_ResponseWriter)) =
      Some (status, rw_Header (rw_run xs new_ResponseWriter))"
    using assms by (simp add: send_header_def)
  from rw_Sent_keeps[OF this, of ys] show ?thesis
    by (simp add: response_def send_header_def)
qed

lemma and_then_Ret [simp]: "and_then calls (Ret (w, calls')) = Ret (w, calls @ calls')"
  by (simp add: and_then_def)

lemma and_then_Panic [simp]: "and_then calls Panic = Panic"
  by (simp add: and_then_def)

text \<open>Decimal numbers: they are digits, and reading them back gives the number.\<close>

lemma digit_value_decimal: "d < 10 \<Longrightarrow> digit_value (char_of (48 + d)) = Some d"
  by (simp add: digit_value_def of_char_of)

lemma parse_digits_append:
  "parse_digits acc (xs @ ys) = (case parse_digits acc xs of None \<Rightarrow> None | Some a \<Rightarrow> parse_digits a ys)"
  by (induction xs arbitrary: acc) (auto split: option.splits)

lemma decimal_not_Nil [simp]: "decimal n \<noteq> []"
  by (subst decimal.simps) simp

lemma parse_digits_decimal: "parse_digits 0 (decimal n) = Some n"
proof (induction n rule: decimal.induct)
  case (1 n)
  show ?case
  proof (cases "n < 10")
    case True
    then show ?thesis by (subst decimal.simps) (simp add: digit_value_decimal)
  next
    case False
    with 1 have "parse_digits 0 (decimal (n div 10)) = Some (n div 10)" by simp
    with False show ?thesis
      by (subst decimal.simps) (simp add: parse_digits_append digit_value_decimal)
  qed
qed

definition is_digit :: "char \<Rightarrow> bool" where
  "is_digit c \<longleftrightarrow> digit_value c \<noteq> None"

lemma decimal_digits: "list_all is_digit (decimal n)"
proof (induction n rule: decimal.induct)
  case (1 n)
  show ?case
  proof (cases "n < 10")
    case True
    then show ?thesis by (subst decimal.simps) (simp add: is_digit_def digit_value_decimal)
  next
    case False
    with 1 have "list_all is_digit (decimal (n div 10))" by simp
    with False show ?thesis
      by (subst decimal.simps) (simp add: is_digit_def digit_value_decimal)
  qed
qed

lemma parse_nat_decimal [simp]: "parse_nat (decimal n) = Some n"
  by (simp add: parse_nat_def parse_digits_decimal)

lemma sign_not_digit: "\<not> is_digit (CHR ''-'')" "\<not> is_digit (CHR ''+'')" "\<not> is_digit (CHR 0x0A)"
  by (simp_all add: is_digit_def digit_value_def)

lemma ParseInt_FormatInt: "in_int64 i \<Longrightarrow> ParseInt (FormatInt i) = Some i"
proof -
  assume i: "in_int64 i"
  show ?thesis
  proof (cases "i < 0")
    case True
    with i show ?thesis by (simp add: FormatInt_def ParseInt_def)
  next
    case False
    obtain c cs where d: "decimal (nat i) = c # cs"
      using decimal_not_Nil[of "nat i"] by (meson list.exhaust)
    with decimal_digits[of "nat i"] have "is_digit c" by simp
    then have "c \<noteq> CHR ''-''" "c \<noteq> CHR ''+''"
      using sign_not_digit by metis+
    with d parse_nat_decimal[of "nat i"] False i show ?thesis
      by (simp add: FormatInt_def ParseInt_def)
  qed
qed


lemma FormatInt_chars: "c \<in> set (FormatInt i) \<Longrightarrow> is_digit c \<or> c = CHR ''-''"
  using decimal_digits by (auto simp: FormatInt_def list_all_iff split: if_splits)

text \<open>A header that the calls do not name keeps its value up to the response.\<close>

fun call_key :: "rw_call \<Rightarrow> string option" where
  "call_key (RwSet k v) = Some (CanonicalKey k)"
| "call_key (RwAdd k v) = Some (CanonicalKey k)"
| "call_key (RwDel k) = Some (CanonicalKey k)"
| "call_key _ = None"

definition untouched :: "string \<Rightarrow> rw_call list \<Rightarrow> bool" where
  "untouched k calls \<longleftrightarrow> list_all (\<lambda>c. call_key c \<noteq> Some k) calls"

lemma untouched_simps [simp]:
  "untouched k []"
  "untouched k (c # cs) \<longleftrightarrow> call_key c \<noteq> Some k \<and> untouched k cs"
  "untouched k (xs @ ys) \<longleftrightarrow> untouched k xs \<and> untouched k ys"
  by (simp_all add: untouched_def)

lemma rw_step_untouched:
  "call_key c \<noteq> Some k \<Longrightarrow> rw_Header (rw_step c rw) k = rw_Header rw k"
  by (cases c) (auto simp: Header_Set_def Header_Add_def Header_Del_def send_header_def Let_def)

lemma rw_step_Sent:
  "rw_Sent rw = None \<Longrightarrow> rw_Sent (rw_step c rw) = None \<or> (\<exists>s. rw_Sent (rw_step c rw) = Some (s, rw_Header rw))"
  by (cases c) (auto simp: send_header_def Let_def)

lemma response_untouched_run:
  assumes "rw_Sent rw = None" "untouched k calls"
  shows "snd (the (rw_Sent (send_header 200 (rw_run calls rw)))) k = rw_Header rw k"
  using assms
proof (induction calls arbitrary: rw)
  case Nil
  then show ?case by (simp add: send_header_def informational_def)
next
  case (Cons c cs)
  show ?case
  proof (cases "rw_Sent (rw_step c rw)")
    case None
    with Cons.IH[OF None] Cons.prems rw_step_untouched[of c k rw] show ?thesis by simp
  next
    case (Some s)
    with rw_step_Sent[OF Cons.prems(1), of c] have "snd s = rw_Header rw" by auto
    moreover from rw_Sent_keeps[OF Some, of cs] have "rw_Sent (send_header 200 (rw_run cs (rw_step c rw))) = Some s"
      by (simp add: send_header_def)
    ultimately show ?thesis by simp
  qed
qed

lemma response_untouched:
  "rw_Sent (rw_run xs new_ResponseWriter) = None \<Longrightarrow> untouched k ys \<Longrightarrow>
     response_header (xs @ ys) k = rw_Header (rw_run xs new_ResponseWriter) k"
  by (simp add: response_header_def response_def response_untouched_run)

text \<open>Calls that only change headers send nothing.\<close>

fun header_call :: "rw_call \<Rightarrow> bool" where
  "header_call (RwSet k v) = True"
| "header_call (RwAdd k v) = True"
| "header_call (RwDel k) = True"
| "header_call _ = False"

lemma header_calls_Sent:
  "list_all header_call calls \<Longrightarrow> rw_Sent (rw_run calls rw) = rw_Sent rw"
proof (induction calls arbitrary: rw)
  case (Cons c cs)
  then show ?case by (cases c) simp_all
qed simp

end
