(* ===== verification/AuthMiddleware.thy ===== *)
theory AuthMiddleware
  imports Http
begin

text \<open>
  The package \<open>auth/middleware\<close>: extraction of the bearer token, the three middlewares and the
  accessors of the request context. \<open>now\<close> is the clock when the token is verified.
\<close>

section \<open>The context\<close>

definition WithClaims :: "'w http_Request \<Rightarrow> Claims option \<Rightarrow> 'w http_Request" where
  "WithClaims r claims = r\<lparr>ctx_Claims := claims\<rparr>"

definition ClaimsFrom :: "'w http_Request \<Rightarrow> Claims option" where
  "ClaimsFrom r = ctx_Claims r"

definition SubjectFrom :: "'w http_Request \<Rightarrow> string" where
  "SubjectFrom r = (case ClaimsFrom r of Some c \<Rightarrow> Claims_Subject c | None \<Rightarrow> '''')"

definition CustomClaimFrom :: "'w http_Request \<Rightarrow> string \<Rightarrow> any" where
  "CustomClaimFrom r key =
     (case ClaimsFrom r of None \<Rightarrow> ANil | Some c \<Rightarrow> attr (Claims_Custom c) key)"

section \<open>Errors\<close>

type_synonym 'w ErrorHandler = "'w http_Request \<Rightarrow> jwt_error \<Rightarrow> 'w \<Rightarrow> ('w \<times> rw_call list) outcome"

definition unauthorized_calls :: "rw_call list" where
  "unauthorized_calls =
     [RwSet ''Content-Type'' ''application/json'',
      RwSet ''WWW-Authenticate'' (''Bearer realm='' @ quoted ''api''),
      RwWriteHeader 401,
      RwWrite (json_error ''unauthorized'')]"

definition defaultErrorHandler :: "'w ErrorHandler" where
  "defaultErrorHandler r err = reply unauthorized_calls"

section \<open>The middlewares\<close>

definition extractBearer :: "'w http_Request \<Rightarrow> jwt_error + string" where
  "extractBearer r =
     (let auth = Header_Get (req_Header r) ''Authorization'' in
      if \<not> HasPrefix auth ''Bearer '' then Inl ErrInvalidToken
      else (let token = TrimPrefix auth ''Bearer '' in
            if token = '''' then Inl ErrInvalidToken else Inr token))"

text \<open>The options of \<open>JWT\<close> come down to the error handler: the last one wins.\<close>

type_synonym 'w MiddlewareOption = "'w ErrorHandler \<Rightarrow> 'w ErrorHandler"

definition WithErrorHandler :: "'w ErrorHandler \<Rightarrow> 'w MiddlewareOption" where
  "WithErrorHandler h cfg = h"

definition JWT ::
  "'w gojwt \<Rightarrow> 'w jwt_options \<Rightarrow> 'w MiddlewareOption list \<Rightarrow> time \<Rightarrow> 'w Handler \<Rightarrow> 'w Handler" where
  "JWT lib svc mwopts now nextH r w =
     (let onError = fold (\<lambda>opt cfg. opt cfg) mwopts defaultErrorHandler in
      case extractBearer r of
        Inl err \<Rightarrow> onError r err w
      | Inr token \<Rightarrow>
          (case jwt_Verify lib svc now token w of
             (w', Inl err) \<Rightarrow> onError r err w'
           | (w', Inr claims) \<Rightarrow> nextH (WithClaims r (Some claims)) w'))"

definition Optional :: "'w gojwt \<Rightarrow> 'w jwt_options \<Rightarrow> time \<Rightarrow> 'w Handler \<Rightarrow> 'w Handler" where
  "Optional lib svc now nextH r w =
     (case extractBearer r of
        Inl _ \<Rightarrow> nextH r w
      | Inr token \<Rightarrow>
          (case jwt_Verify lib svc now token w of
             (w', Inl _) \<Rightarrow> nextH r w'
           | (w', Inr claims) \<Rightarrow> nextH (WithClaims r (Some claims)) w'))"

text \<open>A nil handler in \<open>onError\<close> is \<open>None\<close>.\<close>

definition RequireAuth :: "'w ErrorHandler option list \<Rightarrow> 'w Handler \<Rightarrow> 'w Handler" where
  "RequireAuth onError nextH r w =
     (let handler = (case onError of Some h # _ \<Rightarrow> h | _ \<Rightarrow> defaultErrorHandler) in
      if ClaimsFrom r = None then handler r ErrInvalidToken w
      else nextH r w)"

section \<open>Lemmas\<close>

lemma extractBearer_Inr:
  "extractBearer r = Inr token \<longleftrightarrow>
     Header_Get (req_Header r) ''Authorization'' = ''Bearer '' @ token \<and> token \<noteq> []"
  unfolding extractBearer_def Let_def[where s = "Header_Get (req_Header r) ''Authorization''"]
  by (rule after_prefix)

lemma extractBearer_Inl: "extractBearer r = Inl e \<Longrightarrow> e = ErrInvalidToken"
  by (auto simp: extractBearer_def Let_def split: if_splits)

lemma unauthorized_response:
  "response unauthorized_calls =
     (401, [''Content-Type'' \<mapsto> [''application/json''],
            ''Www-Authenticate'' \<mapsto> [''Bearer realm='' @ quoted ''api'']])"
proof -
  let ?pre = "take 2 unauthorized_calls"
  have eq: "unauthorized_calls = ?pre @ RwWriteHeader 401 # drop 3 unauthorized_calls"
    by (simp add: unauthorized_calls_def)
  have s: "rw_Sent (rw_run ?pre new_ResponseWriter) = None"
    by (simp add: unauthorized_calls_def new_ResponseWriter_def)
  have "response unauthorized_calls = (401, rw_Header (rw_run ?pre new_ResponseWriter))"
    by (subst eq) (rule response_fixed[OF s], simp add: informational_def)
  then show ?thesis
    by (simp add: unauthorized_calls_def new_ResponseWriter_def Header_Set_def)
qed

text \<open>What the middleware accepts: a bearer token that the service verifies.\<close>

definition authenticates ::
  "'w gojwt \<Rightarrow> 'w jwt_options \<Rightarrow> time \<Rightarrow> 'w http_Request \<Rightarrow> 'w \<Rightarrow> 'w \<Rightarrow> Claims \<Rightarrow> bool" where
  "authenticates lib svc now r w w' claims \<longleftrightarrow>
     (\<exists>token. Header_Get (req_Header r) ''Authorization'' = ''Bearer '' @ token \<and> token \<noteq> '''' \<and>
        jwt_Verify lib svc now token w = (w', Inr claims))"

lemma authenticates_iff:
  "authenticates lib svc now r w w' claims \<longleftrightarrow>
     (\<exists>token. extractBearer r = Inr token \<and> jwt_Verify lib svc now token w = (w', Inr claims))"
  by (simp only: authenticates_def extractBearer_Inr conj_assoc)

lemma JWT_accepts:
  "authenticates lib svc now r w w' claims \<Longrightarrow>
     JWT lib svc mwopts now nextH r w = nextH (WithClaims r (Some claims)) w'"
  by (auto simp: authenticates_iff JWT_def)

lemma JWT_rejects:
  assumes "\<nexists>w' claims. authenticates lib svc now r w w' claims"
  shows "\<exists>w'. JWT lib svc [] now nextH r w = Ret (w', unauthorized_calls)"
proof (cases "extractBearer r")
  case (Inl e)
  then show ?thesis by (simp add: JWT_def defaultErrorHandler_def reply_def)
next
  case (Inr token)
  obtain w' x where v: "jwt_Verify lib svc now token w = (w', x)" by fastforce
  with assms Inr have "x \<noteq> Inr claims" for claims
    by (auto simp: authenticates_iff)
  then obtain e where "x = Inl e" by (cases x) auto
  with Inr v show ?thesis by (simp add: JWT_def defaultErrorHandler_def reply_def)
qed

section \<open>Properties\<close>

text \<open>
  C16: complete mediation. Behind the \<open>JWT\<close> middleware the handler runs exactly for requests
  whose \<open>Authorization\<close> header is \<open>Bearer\<close> and a token that verifies; it then sees the claims
  of that very token, whatever claims the request carried before. Every other request is
  answered 401 with a challenge, without the handler having any influence on the answer.
\<close>

theorem JWT_complete_mediation:
  "if \<exists>w' claims. authenticates lib svc now r w w' claims
   then \<exists>w' claims. authenticates lib svc now r w w' claims \<and>
     JWT lib svc [] now nextH r w = nextH (r\<lparr>ctx_Claims := Some claims\<rparr>) w'
   else \<exists>w'. JWT lib svc [] now nextH r w = Ret (w', unauthorized_calls) \<and>
     response_status unauthorized_calls = 401 \<and>
     response_header unauthorized_calls ''Www-Authenticate'' \<noteq> None"
proof (cases "\<exists>w' claims. authenticates lib svc now r w w' claims")
  case True
  then obtain w' claims where a: "authenticates lib svc now r w w' claims" by blast
  from JWT_accepts[OF this, of "[]" nextH] have
    "JWT lib svc [] now nextH r w = nextH (r\<lparr>ctx_Claims := Some claims\<rparr>) w'"
    by (simp add: WithClaims_def)
  with a True show ?thesis by auto
next
  case False
  with JWT_rejects[of lib svc now r w nextH] show ?thesis
    by (simp add: response_status_def response_header_def unauthorized_response)
qed

text \<open>
  \<open>Optional\<close> followed by \<open>RequireAuth\<close> protects as \<open>JWT\<close> does: on a request that carries no
  claims yet, both chains give the same state, the same calls on the response and the same run
  of the handler, for every handler.
\<close>

theorem Optional_RequireAuth_is_JWT:
  assumes "ctx_Claims r = None"
  shows "Optional lib svc now (RequireAuth [] nextH) r w = JWT lib svc [] now nextH r w"
  using assms
  by (auto simp: Optional_def RequireAuth_def JWT_def ClaimsFrom_def WithClaims_def
      defaultErrorHandler_def split: sum.splits prod.splits)

text \<open>A request to test the middlewares with.\<close>

definition plain_request :: "'w http_Request" where
  "plain_request = \<lparr>req_Method = ''GET'', req_Path = ''/'', req_Query = (\<lambda>_. ''''),
     req_RemoteAddr = ''10.0.0.1:4711'', req_Header = Map.empty, req_Body = Body '''',
     ctx_Claims = None, ctx_Key = None, ctx_Logger = None\<rparr>"

definition bearer_request :: "string \<Rightarrow> 'w http_Request" where
  "bearer_request token = plain_request\<lparr>req_Header := [''Authorization'' \<mapsto> [''Bearer '' @ token]]\<rparr>"

lemma Optional_RequireAuth_is_JWT_witness:
  "Optional bob_lib hmac_opts 0 (RequireAuth [] (\<lambda>r. reply [RwWrite (SubjectFrom r)])) (bearer_request ''tok'') NewMemoryBlacklist =
   JWT bob_lib hmac_opts [] 0 (\<lambda>r. reply [RwWrite (SubjectFrom r)]) (bearer_request ''tok'') NewMemoryBlacklist"
  by (rule Optional_RequireAuth_is_JWT) (simp add: bearer_request_def plain_request_def)

end
