(* ===== verification/Rbac.thy ===== *)
theory Rbac
  imports Prelude
begin

text \<open>
  The role-based access control package \<open>rbac\<close>: the types of \<open>rbac/types.go\<close>, the
  in-memory store of \<open>rbac/store.go\<close> and the enforcer of \<open>rbac/rbac.go\<close>. The enforcer reads
  roles through the \<open>Store\<close> interface, so its definitions take the two readers of that
  interface as arguments; the HTTP middleware of the package is in \<open>Guards\<close>.
\<close>

section \<open>Types\<close>

record Permission =
  Permission_Resource :: string
  Permission_Action :: string

definition Permission_String :: "Permission \<Rightarrow> string" where
  "Permission_String p = Permission_Resource p @ '':'' @ Permission_Action p"

definition matches :: "Permission \<Rightarrow> string \<Rightarrow> string \<Rightarrow> bool" where
  "matches p resource action =
     (let resourceOK = Permission_Resource p = ''*'' \<or> Permission_Resource p = resource;
          actionOK = Permission_Action p = ''*'' \<or> Permission_Action p = action
      in resourceOK \<and> actionOK)"

record Role =
  Role_Name :: string
  Role_Parents :: "string list"
  Role_Permissions :: "Permission list"

datatype rbac_error = ErrRoleNotFound | ErrPermissionDenied

section \<open>The in-memory store\<close>

record rbac_MemoryStore =
  rbac_roles :: "string \<rightharpoonup> Role"
  rbac_subjects :: "string \<rightharpoonup> string list"

definition rbac_NewMemoryStore :: rbac_MemoryStore where
  "rbac_NewMemoryStore = \<lparr>rbac_roles = Map.empty, rbac_subjects = Map.empty\<rparr>"

definition GetRole :: "rbac_MemoryStore \<Rightarrow> string \<Rightarrow> rbac_error + Role" where
  "GetRole s name = (case rbac_roles s name of None \<Rightarrow> Inl ErrRoleNotFound | Some r \<Rightarrow> Inr r)"

text \<open>A missing subject reads as a nil slice; the result is a copy.\<close>

definition subject_slice :: "rbac_MemoryStore \<Rightarrow> string \<Rightarrow> string list" where
  "subject_slice s subject = (case rbac_subjects s subject of None \<Rightarrow> [] | Some rs \<Rightarrow> rs)"

definition GetSubjectRoles :: "rbac_MemoryStore \<Rightarrow> string \<Rightarrow> rbac_error + string list" where
  "GetSubjectRoles s subject = Inr (subject_slice s subject)"

definition AssignRole ::
  "rbac_MemoryStore \<Rightarrow> string \<Rightarrow> string \<Rightarrow> rbac_MemoryStore \<times> rbac_error option" where
  "AssignRole s subject role =
     (if list_ex (\<lambda>r. r = role) (subject_slice s subject) then (s, None)
      else (s\<lparr>rbac_subjects := (rbac_subjects s)(subject \<mapsto> subject_slice s subject @ [role])\<rparr>, None))"

text \<open>
  The loop finds the first index holding \<open>role\<close> and cuts it out with
  \<open>append(roles[:i], roles[i+1:]...)\<close>; without a match the map is not written.
\<close>

fun cut_first :: "string \<Rightarrow> string list \<Rightarrow> string list option" where
  "cut_first role [] = None"
| "cut_first role (r # rs) =
     (if r = role then Some rs else map_option (\<lambda>rs'. r # rs') (cut_first role rs))"

definition UnassignRole ::
  "rbac_MemoryStore \<Rightarrow> string \<Rightarrow> string \<Rightarrow> rbac_MemoryStore \<times> rbac_error option" where
  "UnassignRole s subject role =
     (case cut_first role (subject_slice s subject) of
        None \<Rightarrow> (s, None)
      | Some rs \<Rightarrow> (s\<lparr>rbac_subjects := (rbac_subjects s)(subject \<mapsto> rs)\<rparr>, None))"

definition AddRole :: "rbac_MemoryStore \<Rightarrow> Role \<Rightarrow> rbac_MemoryStore \<times> rbac_error option" where
  "AddRole s role = (s\<lparr>rbac_roles := (rbac_roles s)(Role_Name role \<mapsto> role)\<rparr>, None)"

definition RemoveRole :: "rbac_MemoryStore \<Rightarrow> string \<Rightarrow> rbac_MemoryStore \<times> rbac_error option" where
  "RemoveRole s name = (s\<lparr>rbac_roles := (rbac_roles s)(name := None)\<rparr>, None)"

section \<open>The enforcer\<close>

text \<open>
  \<open>roleHasPermission\<close> and its loop over the parents, with the shared \<open>visited\<close> map threaded
  through: the list of its keys, newest first. The two readers are the methods of the
  \<open>Store\<close> interface the enforcer calls.
\<close>

function (sequential) roleHasPermission ::
    "(string \<Rightarrow> 'e + Role) \<Rightarrow> string \<Rightarrow> string \<Rightarrow> string \<Rightarrow> string list \<Rightarrow> bool \<times> string list"
  and parentsHavePermission ::
    "(string \<Rightarrow> 'e + Role) \<Rightarrow> string list \<Rightarrow> string \<Rightarrow> string \<Rightarrow> string list \<Rightarrow> bool \<times> string list"
where
  "roleHasPermission getRole name action resource visited =
     (if name \<in> set visited \<or> 64 < length visited then (False, visited)
      else case getRole name of
             Inl _ \<Rightarrow> (False, name # visited)
           | Inr role \<Rightarrow>
               if list_ex (\<lambda>perm. matches perm resource action) (Role_Permissions role)
               then (True, name # visited)
               else parentsHavePermission getRole (Role_Parents role) action resource (name # visited))"
| "parentsHavePermission getRole [] action resource visited = (False, visited)"
| "parentsHavePermission getRole (parent # parents) action resource visited =
     (case roleHasPermission getRole parent action resource visited of
        (True, visited') \<Rightarrow> (True, visited')
      | (False, visited') \<Rightarrow> parentsHavePermission getRole parents action resource visited')"
  by pat_completeness auto

text \<open>
  Termination. The recursion is nested (the visited map a call returns feeds the next
  call), so the length of the returned list is bounded below first, on the domain; each
  descent lengthens \<open>visited\<close>, which the guard caps at 65 entries.
\<close>

lemma visited_grows_dom:
  fixes getRole getRole' :: "string \<Rightarrow> 'e + Role"
  shows "roleHasPermission_parentsHavePermission_dom (Inl (getRole, name, action, resource, visited)) \<Longrightarrow>
     length visited \<le> length (snd (roleHasPermission getRole name action resource visited))"
  "roleHasPermission_parentsHavePermission_dom (Inr (getRole', names, action', resource', visited')) \<Longrightarrow>
     length visited' \<le> length (snd (parentsHavePermission getRole' names action' resource' visited'))"
proof (induction getRole name action resource visited and getRole' names action' resource' visited'
    rule: roleHasPermission_parentsHavePermission.pinduct)
  case (1 getRole name action resource visited)
  then show ?case
    by (fastforce simp: roleHasPermission.psimps split: sum.splits)
next
  case (2 getRole action resource visited)
  then show ?case by (simp add: parentsHavePermission.psimps)
next
  case (3 getRole parent parents action resource visited)
  then show ?case
    by (fastforce simp: parentsHavePermission.psimps split: prod.splits bool.splits)
qed

termination roleHasPermission
proof (relation "measures [\<lambda>x. case x of Inl (g, n, a, r, v) \<Rightarrow> 65 - length v
                                      | Inr (g, ns, a, r, v) \<Rightarrow> 65 - length v,
                           \<lambda>x. case x of Inl _ \<Rightarrow> 0 | Inr (g, ns, a, r, v) \<Rightarrow> Suc (length ns)]", goal_cases)
  case (4 getRole parent parents action resource visited x y)
  then have "length visited \<le> length y"
    using visited_grows_dom(1)[of getRole parent action resource visited] by (metis snd_conv)
  then show ?case by auto
qed auto

declare roleHasPermission.simps [simp del]

text \<open>
  \<open>Can\<close> runs the same loop over the subject's own role names, with one fresh \<open>visited\<close>
  map for all of them: \<open>parentsHavePermission\<close> on the assigned names. A store error denies.
\<close>

definition Can ::
  "(string \<Rightarrow> 'e + Role) \<Rightarrow> (string \<Rightarrow> 'e + string list) \<Rightarrow> string \<Rightarrow> string \<Rightarrow> string \<Rightarrow> bool" where
  "Can getRole getSubjectRoles subject action resource =
     (case getSubjectRoles subject of
        Inl _ \<Rightarrow> False
      | Inr roleNames \<Rightarrow> fst (parentsHavePermission getRole roleNames action resource []))"

definition Enforce ::
  "(string \<Rightarrow> 'e + Role) \<Rightarrow> (string \<Rightarrow> 'e + string list) \<Rightarrow> string \<Rightarrow> string \<Rightarrow> string
    \<Rightarrow> rbac_error option" where
  "Enforce getRole getSubjectRoles subject action resource =
     (if Can getRole getSubjectRoles subject action resource then None else Some ErrPermissionDenied)"

definition RolesFor :: "(string \<Rightarrow> 'e + string list) \<Rightarrow> string \<Rightarrow> 'e + string list" where
  "RolesFor getSubjectRoles subject = getSubjectRoles subject"

definition HasRole :: "(string \<Rightarrow> 'e + string list) \<Rightarrow> string \<Rightarrow> string \<Rightarrow> bool" where
  "HasRole getSubjectRoles subject role =
     (case getSubjectRoles subject of
        Inl _ \<Rightarrow> False
      | Inr roles \<Rightarrow> list_ex (\<lambda>r. r = role) roles)"

section \<open>What inheritance means\<close>

text \<open>
  \<open>inherits g n m\<close>: role \<open>m\<close> is \<open>n\<close> itself or is reached from it through the parents of
  existing roles. \<open>grants\<close>: the role exists and one of its own permissions covers the request.
\<close>

inductive inherits :: "(string \<Rightarrow> 'e + Role) \<Rightarrow> string \<Rightarrow> string \<Rightarrow> bool" for getRole where
  self: "inherits getRole n n"
| parent: "getRole n = Inr role \<Longrightarrow> p \<in> set (Role_Parents role) \<Longrightarrow> inherits getRole p m \<Longrightarrow>
     inherits getRole n m"

inductive_cases inheritsE: "inherits getRole n m"

definition grants :: "(string \<Rightarrow> 'e + Role) \<Rightarrow> string \<Rightarrow> string \<Rightarrow> string \<Rightarrow> bool" where
  "grants getRole action resource name =
     (case getRole name of
        Inl _ \<Rightarrow> False
      | Inr role \<Rightarrow> list_ex (\<lambda>perm. matches perm resource action) (Role_Permissions role))"

definition inherited_roles :: "(string \<Rightarrow> 'e + Role) \<Rightarrow> string list \<Rightarrow> string set" where
  "inherited_roles getRole names = {m. \<exists>n \<in> set names. inherits getRole n m}"

lemma inherits_trans:
  "inherits g n m \<Longrightarrow> inherits g m k \<Longrightarrow> inherits g n k"
  by (induction rule: inherits.induct) (auto intro: inherits.parent)

lemma inherited_roles_self: "n \<in> set names \<Longrightarrow> n \<in> inherited_roles g names"
  by (auto simp: inherited_roles_def intro: inherits.self)

lemma inherited_roles_parent:
  assumes "n \<in> inherited_roles g names" and "g n = Inr role" and "p \<in> set (Role_Parents role)"
  shows "p \<in> inherited_roles g names"
proof -
  from assms(1) obtain n' where "n' \<in> set names" "inherits g n' n"
    by (auto simp: inherited_roles_def)
  moreover have "inherits g n p"
    using assms(2,3) by (rule inherits.parent) (rule inherits.self)
  ultimately show ?thesis
    by (auto simp: inherited_roles_def intro: inherits_trans)
qed

section \<open>Correctness of the traversal\<close>

lemma traversal_sound:
  fixes getRole getRole' :: "string \<Rightarrow> 'e + Role"
  shows "fst (roleHasPermission getRole name action resource visited) \<Longrightarrow>
      \<exists>m. inherits getRole name m \<and> grants getRole action resource m"
    and "fst (parentsHavePermission getRole' names action' resource' visited') \<Longrightarrow>
      \<exists>n \<in> set names. \<exists>m. inherits getRole' n m \<and> grants getRole' action' resource' m"
proof (induction getRole name action resource visited and getRole' names action' resource' visited'
    rule: roleHasPermission_parentsHavePermission.induct)
  case (1 getRole name action resource visited)
  show ?case
  proof (cases "getRole name")
    case (Inl e)
    with 1 show ?thesis by (simp add: roleHasPermission.simps split: if_splits)
  next
    case (Inr role)
    show ?thesis
    proof (cases "list_ex (\<lambda>perm. matches perm resource action) (Role_Permissions role)")
      case True
      with Inr show ?thesis by (auto simp: grants_def intro: inherits.self)
    next
      case False
      with 1 Inr obtain n m where "n \<in> set (Role_Parents role)" "inherits getRole n m"
          "grants getRole action resource m"
        by (auto simp: roleHasPermission.simps split: if_splits)
      with Inr show ?thesis by (blast intro: inherits.parent)
    qed
  qed
next
  case (2 getRole action resource visited)
  then show ?case by simp
next
  case (3 getRole parent parents action resource visited)
  then show ?case by (fastforce split: prod.splits bool.splits)
qed

text \<open>The visited map: it only grows, its keys stay distinct and there are never more than 65.\<close>

lemma visited_distinct:
  fixes getRole getRole' :: "string \<Rightarrow> 'e + Role"
  shows "distinct visited \<Longrightarrow> distinct (snd (roleHasPermission getRole name action resource visited))"
    and "distinct visited' \<Longrightarrow> distinct (snd (parentsHavePermission getRole' names action' resource' visited'))"
proof (induction getRole name action resource visited and getRole' names action' resource' visited'
    rule: roleHasPermission_parentsHavePermission.induct)
  case (1 getRole name action resource visited)
  then show ?case by (auto simp: roleHasPermission.simps split: sum.splits)
next
  case (2 getRole action resource visited)
  then show ?case by simp
next
  case (3 getRole parent parents action resource visited)
  then show ?case by (fastforce split: prod.splits bool.splits)
qed

lemma visited_bounded:
  fixes getRole getRole' :: "string \<Rightarrow> 'e + Role"
  shows "length visited \<le> 65 \<Longrightarrow> length (snd (roleHasPermission getRole name action resource visited)) \<le> 65"
    and "length visited' \<le> 65 \<Longrightarrow>
      length (snd (parentsHavePermission getRole' names action' resource' visited')) \<le> 65"
proof (induction getRole name action resource visited and getRole' names action' resource' visited'
    rule: roleHasPermission_parentsHavePermission.induct)
  case (1 getRole name action resource visited)
  then show ?case by (auto simp: roleHasPermission.simps split: sum.splits)
next
  case (2 getRole action resource visited)
  then show ?case by simp
next
  case (3 getRole parent parents action resource visited)
  then show ?case by (fastforce split: prod.splits bool.splits)
qed

text \<open>
  A failed search leaves \<open>visited\<close> closed: every role entered on the way grants nothing and
  has all its parents visited. This holds as long as the roles the search can meet fit under
  the cap of 65, i.e. inside a set \<open>U\<close> of at most 65 names that is closed under parents.
\<close>

definition explored ::
  "(string \<Rightarrow> 'e + Role) \<Rightarrow> string \<Rightarrow> string \<Rightarrow> string list \<Rightarrow> string list \<Rightarrow> bool" where
  "explored getRole action resource visited visited' \<longleftrightarrow>
     set visited \<subseteq> set visited' \<and>
     (\<forall>m \<in> set visited' - set visited. \<not> grants getRole action resource m \<and>
        (\<forall>role. getRole m = Inr role \<longrightarrow> set (Role_Parents role) \<subseteq> set visited'))"

definition parents_closed :: "(string \<Rightarrow> 'e + Role) \<Rightarrow> string set \<Rightarrow> bool" where
  "parents_closed getRole U \<longleftrightarrow>
     (\<forall>m \<in> U. \<forall>role. getRole m = Inr role \<longrightarrow> set (Role_Parents role) \<subseteq> U)"

lemma explored_trans: "explored g a r v w \<Longrightarrow> explored g a r w x \<Longrightarrow> explored g a r v x"
  unfolding explored_def by blast

lemma explored_refl: "explored g a r v v"
  by (simp add: explored_def)

lemma explored_step:
  assumes "explored g a r (n # v) w" and "\<not> grants g a r n"
    and "\<And>role. g n = Inr role \<Longrightarrow> set (Role_Parents role) \<subseteq> set w"
  shows "explored g a r v w"
proof -
  have "\<not> grants g a r m \<and> (\<forall>role. g m = Inr role \<longrightarrow> set (Role_Parents role) \<subseteq> set w)"
    if "m \<in> set w - set v" for m
    using assms that unfolding explored_def by (cases "m = n") fastforce+
  with assms(1) show ?thesis by (simp add: explored_def)
qed

lemma parents_closed_inherited_roles: "parents_closed g (inherited_roles g names)"
  by (auto simp: parents_closed_def intro: inherited_roles_parent)

lemma below_cap:
  assumes "distinct visited" "set visited \<subseteq> U" "finite U" "card U \<le> 65" "n \<in> U" "n \<notin> set visited"
  shows "length visited \<le> 64"
proof -
  have "length (n # visited) \<le> card U"
    by (rule distinct_length_le_card) (use assms in auto)
  with assms(4) show ?thesis by simp
qed

lemma traversal_complete:
  fixes getRole getRole' :: "string \<Rightarrow> 'e + Role"
  shows "roleHasPermission getRole name action resource visited = (False, w) \<Longrightarrow>
      finite U \<Longrightarrow> card U \<le> 65 \<Longrightarrow> parents_closed getRole U \<Longrightarrow> name \<in> U \<Longrightarrow> set visited \<subseteq> U \<Longrightarrow>
      distinct visited \<Longrightarrow>
      name \<in> set w \<and> set w \<subseteq> U \<and> explored getRole action resource visited w"
    and "parentsHavePermission getRole' names action' resource' visited' = (False, w') \<Longrightarrow>
      finite U \<Longrightarrow> card U \<le> 65 \<Longrightarrow> parents_closed getRole' U \<Longrightarrow> set names \<subseteq> U \<Longrightarrow> set visited' \<subseteq> U \<Longrightarrow>
      distinct visited' \<Longrightarrow>
      set names \<subseteq> set w' \<and> set w' \<subseteq> U \<and> explored getRole' action' resource' visited' w'"
proof (induction getRole name action resource visited and getRole' names action' resource' visited'
    arbitrary: w and w' rule: roleHasPermission_parentsHavePermission.induct)
  case (1 getRole name action resource visited)
  show ?case
  proof (cases "name \<in> set visited")
    case True
    with 1 show ?thesis by (simp add: roleHasPermission.simps explored_refl)
  next
    case new: False
    with 1 have len: "length visited \<le> 64" by (meson below_cap)
    show ?thesis
    proof (cases "getRole name")
      case (Inl e)
      with 1 new len show ?thesis by (auto simp: roleHasPermission.simps explored_def grants_def)
    next
      case (Inr role)
      with 1 new len have nomatch: "\<not> list_ex (\<lambda>perm. matches perm resource action) (Role_Permissions role)"
        and rec: "parentsHavePermission getRole (Role_Parents role) action resource (name # visited) = (False, w)"
        by (auto simp: roleHasPermission.simps split: if_splits)
      have "set (Role_Parents role) \<subseteq> U"
        using 1 Inr by (auto simp: parents_closed_def)
      with 1 new len Inr nomatch rec
      have IH: "set (Role_Parents role) \<subseteq> set w" "set w \<subseteq> U" "explored getRole action resource (name # visited) w"
        by (auto simp: not_less)
      have "\<not> grants getRole action resource name"
        using Inr nomatch by (simp add: grants_def)
      with IH(3) have "explored getRole action resource visited w"
        by (rule explored_step) (use IH(1) Inr in simp)
      with IH show ?thesis by (simp add: explored_def)
    qed
  qed
next
  case (2 getRole action resource visited)
  then show ?case by (simp add: explored_refl)
next
  case (3 getRole parent parents action resource visited)
  then obtain v where v: "roleHasPermission getRole parent action resource visited = (False, v)"
    and rec: "parentsHavePermission getRole parents action resource v = (False, w')"
    by (auto split: prod.splits bool.splits)
  have step: "parent \<in> set v" "set v \<subseteq> U" "explored getRole action resource visited v"
    using "3.IH"(1)[OF v] "3.prems" by auto
  have "distinct v"
    using visited_distinct(1)[of visited getRole parent action resource] v "3.prems" by simp
  then have "set parents \<subseteq> set w' \<and> set w' \<subseteq> U \<and> explored getRole action resource v w'"
    using "3.IH"(2)[OF v[symmetric] _ rec] "3.prems" step by simp
  moreover from this step(3) have "explored getRole action resource visited w'"
    by (blast intro: explored_trans)
  ultimately show ?case
    using step(1) by (auto simp: explored_def)
qed

lemma explored_no_grant:
  assumes "explored g action resource [] w" and "inherits g n m" and "n \<in> set w"
  shows "\<not> grants g action resource m"
  using assms(2,3,1) by (induction rule: inherits.induct) (auto simp: explored_def)

text \<open>The two halves together, over any store the enforcer can read.\<close>

lemma Can_sound:
  assumes "Can getRole getSubjectRoles subject action resource"
  obtains roles m where "getSubjectRoles subject = Inr roles" "m \<in> inherited_roles getRole roles"
    "grants getRole action resource m"
  using assms traversal_sound(2)
  by (fastforce simp: Can_def inherited_roles_def split: sum.splits)

lemma Can_complete:
  assumes "getSubjectRoles subject = Inr roles"
    and "finite (inherited_roles getRole roles)" and "card (inherited_roles getRole roles) \<le> 65"
    and "m \<in> inherited_roles getRole roles" and "grants getRole action resource m"
  shows "Can getRole getSubjectRoles subject action resource"
proof (rule ccontr)
  let ?U = "inherited_roles getRole roles"
  assume "\<not> ?thesis"
  with assms(1) obtain w where w: "parentsHavePermission getRole roles action resource [] = (False, w)"
    by (cases "parentsHavePermission getRole roles action resource []") (simp add: Can_def)
  have "set roles \<subseteq> ?U"
    by (auto intro: inherited_roles_self)
  with traversal_complete(2)[OF w assms(2,3) parents_closed_inherited_roles]
  have "set roles \<subseteq> set w" "explored getRole action resource [] w"
    by auto
  with assms(4,5) show False
    by (auto simp: inherited_roles_def dest: explored_no_grant)
qed

section \<open>The contract of a role store\<close>

text \<open>
  \<open>assigned\<close> reads the answer of \<open>GetSubjectRoles\<close> as a set. The locale is the \<open>Store\<close>
  interface of \<open>rbac/store.go\<close> with what its comments promise: assignment is idempotent,
  unassigning removes the role, adding overwrites by name, removing makes the role unknown,
  and the operations on roles and on subjects do not disturb each other.
\<close>

definition assigned :: "(string \<Rightarrow> 'e + string list) \<Rightarrow> string \<Rightarrow> string set" where
  "assigned getSubjectRoles subject =
     (case getSubjectRoles subject of Inl _ \<Rightarrow> {} | Inr roles \<Rightarrow> set roles)"

lemma HasRole_assigned: "HasRole gsr subject role \<longleftrightarrow> role \<in> assigned gsr subject"
  by (auto simp: HasRole_def assigned_def list_ex_iff split: sum.splits)

locale role_store =
  fixes getRole :: "'s \<Rightarrow> string \<Rightarrow> 'e + Role"
    and getSubjectRoles :: "'s \<Rightarrow> string \<Rightarrow> 'e + string list"
    and assignRole :: "'s \<Rightarrow> string \<Rightarrow> string \<Rightarrow> 's \<times> 'e option"
    and unassignRole :: "'s \<Rightarrow> string \<Rightarrow> string \<Rightarrow> 's \<times> 'e option"
    and addRole :: "'s \<Rightarrow> Role \<Rightarrow> 's \<times> 'e option"
    and removeRole :: "'s \<Rightarrow> string \<Rightarrow> 's \<times> 'e option"
    and invar :: "'s \<Rightarrow> bool"
  assumes invar_assign: "invar s \<Longrightarrow> invar (fst (assignRole s u r))"
    and invar_unassign: "invar s \<Longrightarrow> invar (fst (unassignRole s u r))"
    and invar_add: "invar s \<Longrightarrow> invar (fst (addRole s role))"
    and invar_remove: "invar s \<Longrightarrow> invar (fst (removeRole s n))"
    and subject_roles_ok: "invar s \<Longrightarrow> \<exists>roles. getSubjectRoles s u = Inr roles"
    and assigned_assign: "invar s \<Longrightarrow> assigned (getSubjectRoles (fst (assignRole s u r))) =
          (assigned (getSubjectRoles s))(u := insert r (assigned (getSubjectRoles s) u))"
    and assigned_unassign: "invar s \<Longrightarrow> assigned (getSubjectRoles (fst (unassignRole s u r))) =
          (assigned (getSubjectRoles s))(u := assigned (getSubjectRoles s) u - {r})"
    and assigned_add: "invar s \<Longrightarrow> getSubjectRoles (fst (addRole s role)) = getSubjectRoles s"
    and assigned_remove: "invar s \<Longrightarrow> getSubjectRoles (fst (removeRole s n)) = getSubjectRoles s"
    and getRole_assign: "invar s \<Longrightarrow> getRole (fst (assignRole s u r)) = getRole s"
    and getRole_unassign: "invar s \<Longrightarrow> getRole (fst (unassignRole s u r)) = getRole s"
    and getRole_add: "invar s \<Longrightarrow> getRole (fst (addRole s role)) = (getRole s)(Role_Name role := Inr role)"
    and getRole_remove: "invar s \<Longrightarrow> \<exists>e. getRole (fst (removeRole s n)) = (getRole s)(n := Inl e)"
begin

lemmas invars = invar_assign invar_unassign invar_add invar_remove

lemma HasRole_after_assign:
  "invar s \<Longrightarrow> HasRole (getSubjectRoles (fst (assignRole s u r))) v q \<longleftrightarrow>
     (v = u \<and> q = r) \<or> HasRole (getSubjectRoles s) v q"
  by (simp add: HasRole_assigned assigned_assign)

lemma HasRole_after_unassign:
  "invar s \<Longrightarrow> HasRole (getSubjectRoles (fst (unassignRole s u r))) v q \<longleftrightarrow>
     \<not> (v = u \<and> q = r) \<and> HasRole (getSubjectRoles s) v q"
  by (auto simp: HasRole_assigned assigned_unassign)

lemma removed_role_grants_nothing:
  assumes "invar s" shows "\<not> grants (getRole (fst (removeRole s n))) action resource n"
  using getRole_remove[OF assms, of n] by (auto simp: grants_def)

text \<open>
  A subject whose only role is removed from the store (or was never defined) can do nothing:
  no assigned name leads to an existing role.
\<close>

lemma Can_needs_existing_role:
  assumes "invar s" "Can (getRole s) (getSubjectRoles s) u action resource"
  shows "\<exists>n \<in> assigned (getSubjectRoles s) u. \<exists>role. getRole s n = Inr role"
proof -
  obtain roles m where roles: "getSubjectRoles s u = Inr roles"
      and m: "m \<in> inherited_roles (getRole s) roles" "grants (getRole s) action resource m"
    using assms(2) by (rule Can_sound)
  then obtain n where n: "n \<in> set roles" "inherits (getRole s) n m"
    by (auto simp: inherited_roles_def)
  from n(2) m(2) have "\<exists>role. getRole s n = Inr role"
    by cases (auto simp: grants_def split: sum.splits)
  with n(1) roles show ?thesis
    by (auto simp: assigned_def)
qed

lemma Can_after_removing_only_role:
  assumes "invar s" and "assigned (getSubjectRoles s) u \<subseteq> {n}"
  shows "\<not> Can (getRole (fst (removeRole s n))) (getSubjectRoles (fst (removeRole s n))) u action resource"
proof
  let ?s = "fst (removeRole s n)"
  assume "Can (getRole ?s) (getSubjectRoles ?s) u action resource"
  then obtain n' role where "n' \<in> assigned (getSubjectRoles s) u" "getRole ?s n' = Inr role"
    using Can_needs_existing_role[OF invar_remove[OF assms(1)]] assms(1) by (fastforce simp: assigned_remove)
  with assms(2) getRole_remove[OF assms(1), of n] show False by auto
qed

end

section \<open>The in-memory store keeps the contract\<close>

text \<open>No subject lists a role twice, and every role is stored under its own name.\<close>

definition rbac_invar :: "rbac_MemoryStore \<Rightarrow> bool" where
  "rbac_invar s \<longleftrightarrow>
     (\<forall>u. distinct (subject_slice s u)) \<and> (\<forall>n r. rbac_roles s n = Some r \<longrightarrow> Role_Name r = n)"

lemma cut_first_None: "cut_first role rs = None \<longleftrightarrow> role \<notin> set rs"
  by (induction rs) auto

lemma cut_first_Some: "cut_first role rs = Some rs' \<Longrightarrow> rs' = remove1 role rs"
  by (induction rs arbitrary: rs') (auto split: if_splits)

lemma subject_slice_upd [simp]:
  "subject_slice (s\<lparr>rbac_subjects := (rbac_subjects s)(u \<mapsto> rs)\<rparr>) v = (if v = u then rs else subject_slice s v)"
  by (simp add: subject_slice_def)

lemma subject_slice_roles [simp]: "subject_slice (s\<lparr>rbac_roles := m\<rparr>) v = subject_slice s v"
  by (simp add: subject_slice_def)

lemma slice_AssignRole [store_laws]:
  "subject_slice (fst (AssignRole s u r)) v =
     (if v = u \<and> r \<notin> set (subject_slice s u) then subject_slice s u @ [r] else subject_slice s v)"
  by (auto simp: AssignRole_def list_ex_iff)

lemma slice_UnassignRole [store_laws]:
  "subject_slice (fst (UnassignRole s u r)) v =
     (if v = u then remove1 r (subject_slice s u) else subject_slice s v)"
  by (auto simp: UnassignRole_def cut_first_None remove1_idem dest: cut_first_Some split: option.splits)

lemma roles_unchanged [store_laws]:
  "rbac_roles (fst (AssignRole s u r)) = rbac_roles s"
  "rbac_roles (fst (UnassignRole s u r)) = rbac_roles s"
  by (simp_all add: AssignRole_def UnassignRole_def split: option.splits)

lemma slices_unchanged [store_laws]:
  "subject_slice (fst (AddRole s role)) = subject_slice s"
  "subject_slice (fst (RemoveRole s n)) = subject_slice s"
  by (simp_all add: AddRole_def RemoveRole_def fun_eq_iff)

lemma roles_changed [store_laws]:
  "rbac_roles (fst (AddRole s role)) = (rbac_roles s)(Role_Name role \<mapsto> role)"
  "rbac_roles (fst (RemoveRole s n)) = (rbac_roles s)(n := None)"
  by (simp_all add: AddRole_def RemoveRole_def)

lemma rbac_no_errors:
  "snd (AssignRole s u r) = None" "snd (UnassignRole s u r) = None"
  "snd (AddRole s role) = None" "snd (RemoveRole s n) = None"
  by (simp_all add: AssignRole_def UnassignRole_def AddRole_def RemoveRole_def split: option.splits)

lemma assigned_GetSubjectRoles: "assigned (GetSubjectRoles s) u = set (subject_slice s u)"
  by (simp add: assigned_def GetSubjectRoles_def)

interpretation mem: role_store GetRole GetSubjectRoles AssignRole UnassignRole AddRole RemoveRole rbac_invar
proof (unfold_locales, goal_cases)
  case (1 s u r)
  then show ?case by (auto simp: rbac_invar_def store_laws)
next
  case (2 s u r)
  then show ?case by (auto simp: rbac_invar_def store_laws)
next
  case (3 s role)
  then show ?case by (auto simp: rbac_invar_def store_laws)
next
  case (4 s n)
  then show ?case by (auto simp: rbac_invar_def store_laws)
next
  case (5 s u)
  show ?case by (simp add: GetSubjectRoles_def)
next
  case (6 s u r)
  show ?case by (auto simp: fun_eq_iff assigned_GetSubjectRoles store_laws)
next
  case (7 s u r)
  then show ?case by (auto simp: fun_eq_iff assigned_GetSubjectRoles store_laws rbac_invar_def)
qed (auto simp: fun_eq_iff GetRole_def GetSubjectRoles_def store_laws split: option.splits)

lemma rbac_invar_init: "rbac_invar rbac_NewMemoryStore"
  by (simp add: rbac_invar_def rbac_NewMemoryStore_def subject_slice_def)

section \<open>Refinement: the store as two finite maps\<close>

text \<open>
  What the store promises its clients, without slices: roles by name, and for each subject a
  set of role names. A history of calls on the in-memory store is a history of that abstract
  machine, and keeps the invariant.
\<close>

datatype rbac_op =
    OpAssignRole string string
  | OpUnassignRole string string
  | OpAddRole Role
  | OpRemoveRole string

fun rbac_step :: "rbac_MemoryStore \<Rightarrow> rbac_op \<Rightarrow> rbac_MemoryStore" where
  "rbac_step s (OpAssignRole u r) = fst (AssignRole s u r)"
| "rbac_step s (OpUnassignRole u r) = fst (UnassignRole s u r)"
| "rbac_step s (OpAddRole role) = fst (AddRole s role)"
| "rbac_step s (OpRemoveRole n) = fst (RemoveRole s n)"

fun rbac_run :: "rbac_MemoryStore \<Rightarrow> rbac_op list \<Rightarrow> rbac_MemoryStore" where
  "rbac_run s [] = s"
| "rbac_run s (x # xs) = rbac_run (rbac_step s x) xs"

type_synonym rbac_spec_state = "(string \<rightharpoonup> Role) \<times> (string \<Rightarrow> string set)"

fun rbac_spec_step :: "rbac_spec_state \<Rightarrow> rbac_op \<Rightarrow> rbac_spec_state" where
  "rbac_spec_step (rs, us) (OpAssignRole u r) = (rs, us(u := insert r (us u)))"
| "rbac_spec_step (rs, us) (OpUnassignRole u r) = (rs, us(u := us u - {r}))"
| "rbac_spec_step (rs, us) (OpAddRole role) = (rs(Role_Name role \<mapsto> role), us)"
| "rbac_spec_step (rs, us) (OpRemoveRole n) = (rs(n := None), us)"

fun rbac_spec_run :: "rbac_spec_state \<Rightarrow> rbac_op list \<Rightarrow> rbac_spec_state" where
  "rbac_spec_run a [] = a"
| "rbac_spec_run a (x # xs) = rbac_spec_run (rbac_spec_step a x) xs"

definition rbac_abs :: "rbac_MemoryStore \<Rightarrow> rbac_spec_state" where
  "rbac_abs s = (rbac_roles s, \<lambda>u. set (subject_slice s u))"

lemma rbac_step_invar: "rbac_invar s \<Longrightarrow> rbac_invar (rbac_step s x)"
  by (cases x) (simp_all add: mem.invars)

lemma rbac_step_abs: "rbac_invar s \<Longrightarrow> rbac_abs (rbac_step s x) = rbac_spec_step (rbac_abs s) x"
  by (cases x) (auto simp: rbac_abs_def store_laws fun_eq_iff rbac_invar_def)

lemma rbac_run_refines:
  "rbac_invar s \<Longrightarrow> rbac_invar (rbac_run s ops) \<and> rbac_abs (rbac_run s ops) = rbac_spec_run (rbac_abs s) ops"
  by (induction ops arbitrary: s) (simp_all add: rbac_step_invar rbac_step_abs)

section \<open>Properties\<close>

lemma Can_inherited:
  fixes getRole :: "string \<Rightarrow> 'e + Role"
  assumes "getSubjectRoles subject = Inr roles"
    and "finite (inherited_roles getRole roles)" and "card (inherited_roles getRole roles) \<le> 65"
  shows "Can getRole getSubjectRoles subject action resource \<longleftrightarrow>
    (\<exists>m \<in> inherited_roles getRole roles. grants getRole action resource m)"
proof
  assume "Can getRole getSubjectRoles subject action resource"
  then obtain roles' m where "getSubjectRoles subject = Inr roles'" "m \<in> inherited_roles getRole roles'"
      "grants getRole action resource m"
    by (rule Can_sound)
  with assms(1) show "\<exists>m \<in> inherited_roles getRole roles. grants getRole action resource m"
    by auto
next
  assume "\<exists>m \<in> inherited_roles getRole roles. grants getRole action resource m"
  with assms show "Can getRole getSubjectRoles subject action resource"
    by (blast intro: Can_complete)
qed

text \<open>
  C1: Role inheritance is resolved transitively and exactly. For any store, when the roles
  reachable from the subject's assigned names through parents are at most 65, \<open>Can\<close> answers
  true iff one of them exists and has a permission covering the action and resource; cycles
  in the hierarchy are harmless.
\<close>

theorem Can_iff_inherited_grant:
  fixes getRole :: "string \<Rightarrow> 'e + Role"
  assumes "getSubjectRoles subject = Inr roles"
    and "finite (inherited_roles getRole roles)" and "card (inherited_roles getRole roles) \<le> 65"
  shows "Can getRole getSubjectRoles subject action resource \<longleftrightarrow>
    (\<exists>m \<in> inherited_roles getRole roles. grants getRole action resource m)"
  using assms by (rule Can_inherited)

text \<open>An editor that inherits from a viewer that, by mistake, inherits from the editor.\<close>

definition cyclic_example :: rbac_MemoryStore where
  "cyclic_example = rbac_run rbac_NewMemoryStore
     [OpAddRole \<lparr>Role_Name = ''editor'', Role_Parents = [''viewer''],
                 Role_Permissions = [\<lparr>Permission_Resource = ''posts'', Permission_Action = ''create''\<rparr>]\<rparr>,
      OpAddRole \<lparr>Role_Name = ''viewer'', Role_Parents = [''editor''],
                 Role_Permissions = [\<lparr>Permission_Resource = ''*'', Permission_Action = ''read''\<rparr>]\<rparr>,
      OpAssignRole ''bob'' ''editor'']"

lemma GetRole_cyclic_example:
  "GetRole cyclic_example n =
     (if n = ''viewer'' then Inr \<lparr>Role_Name = ''viewer'', Role_Parents = [''editor''],
                 Role_Permissions = [\<lparr>Permission_Resource = ''*'', Permission_Action = ''read''\<rparr>]\<rparr>
      else if n = ''editor'' then Inr \<lparr>Role_Name = ''editor'', Role_Parents = [''viewer''],
                 Role_Permissions = [\<lparr>Permission_Resource = ''posts'', Permission_Action = ''create''\<rparr>]\<rparr>
      else Inl ErrRoleNotFound)"
  by (simp add: cyclic_example_def GetRole_def store_laws rbac_NewMemoryStore_def)

lemma inherited_cyclic_example:
  "inherits (GetRole cyclic_example) n m \<Longrightarrow> n \<in> {''editor'', ''viewer''} \<Longrightarrow> m \<in> {''editor'', ''viewer''}"
  by (induction rule: inherits.induct) (auto simp: GetRole_cyclic_example split: if_splits)

theorem Can_iff_inherited_grant_witness:
  "Can (GetRole cyclic_example) (GetSubjectRoles cyclic_example) ''bob'' ''read'' ''posts'' \<and>
   \<not> Can (GetRole cyclic_example) (GetSubjectRoles cyclic_example) ''bob'' ''delete'' ''posts''"
proof -
  let ?g = "GetRole cyclic_example" and ?roles = "[''editor'']"
  have roles: "GetSubjectRoles cyclic_example ''bob'' = Inr ?roles"
    by (simp add: cyclic_example_def GetSubjectRoles_def store_laws subject_slice_def
        rbac_NewMemoryStore_def AssignRole_def AddRole_def)
  have sub: "inherited_roles ?g ?roles \<subseteq> {''editor'', ''viewer''}"
    using inherited_cyclic_example by (auto simp: inherited_roles_def)
  then have fin: "finite (inherited_roles ?g ?roles)"
    by (rule finite_subset) simp
  from sub have "card (inherited_roles ?g ?roles) \<le> card {''editor'', ''viewer''}"
    by (rule card_mono[rotated]) simp
  then have le: "card (inherited_roles ?g ?roles) \<le> 65"
    by simp
  have "inherits ?g ''editor'' ''viewer''"
    by (rule inherits.parent[OF _ _ inherits.self], simp add: GetRole_cyclic_example, simp)
  then have "''viewer'' \<in> inherited_roles ?g ?roles"
    by (simp add: inherited_roles_def)
  moreover have "grants ?g ''read'' ''posts'' ''viewer''"
    by (simp add: grants_def GetRole_cyclic_example matches_def)
  moreover have "\<not> grants ?g ''delete'' ''posts'' m" if "m \<in> {''editor'', ''viewer''}" for m
    using that by (auto simp: grants_def GetRole_cyclic_example matches_def)
  ultimately show ?thesis
    using sub by (auto simp: Can_iff_inherited_grant[where getSubjectRoles = "GetSubjectRoles cyclic_example" and subject = "''bob''", OF roles fin le])
qed

text \<open>
  A search never looks up more than 65 roles and never the same role twice, whatever the
  hierarchy: the \<open>visited\<close> map at the end of \<open>Can\<close> has at most 65 distinct keys. In
  particular \<open>Can\<close> returns on cyclic and on unbounded hierarchies.
\<close>

theorem Can_bounded_search:
  "distinct (snd (parentsHavePermission getRole roles action resource [])) \<and>
   length (snd (parentsHavePermission getRole roles action resource [])) \<le> 65"
  by (simp add: visited_distinct(2) visited_bounded(2))

text \<open>The cap in action: once 65 names are visited, every further name is refused.\<close>

lemma search_full: "length visited = 65 \<Longrightarrow> parentsHavePermission g names a r visited = (False, visited)"
  by (induction names) (simp_all add: roleHasPermission.simps)

lemma leaf_roles_exhaust_search:
  assumes "\<And>n. n \<in> set xs \<Longrightarrow> \<exists>role. g n = Inr role \<and> Role_Parents role = [] \<and> Role_Permissions role = []"
    and "distinct (xs @ visited)" and "length xs + length visited = 65"
  shows "parentsHavePermission g (xs @ ys) a r visited = (False, rev xs @ visited)"
  using assms
proof (induction xs arbitrary: visited)
  case Nil
  then show ?case by (simp add: search_full)
next
  case (Cons x xs)
  obtain role where "g x = Inr role" "Role_Parents role = []" "Role_Permissions role = []"
    using Cons.prems(1)[of x] by auto
  with Cons show ?case by (simp add: roleHasPermission.simps)
qed

text \<open>
  The guard written as a depth limit (``up to 64 levels deep'') counts visited roles, not
  levels. A subject whose first 65 assigned roles are distinct, flat and empty is refused
  everything, also what one of its remaining roles grants directly.
\<close>

theorem Can_ignores_roles_after_65:
  assumes "getSubjectRoles subject = Inr (xs @ ys)" and "length xs = 65" and "distinct xs"
    and "\<And>n. n \<in> set xs \<Longrightarrow> \<exists>role. getRole n = Inr role \<and> Role_Parents role = [] \<and> Role_Permissions role = []"
  shows "\<not> Can getRole getSubjectRoles subject action resource"
  using assms leaf_roles_exhaust_search[of xs getRole "[]" ys action resource] by (simp add: Can_def)

definition wide_getRole :: "string \<Rightarrow> rbac_error + Role" where
  "wide_getRole n = Inr \<lparr>Role_Name = n, Role_Parents = [], Role_Permissions =
     (if length n < 65 then [] else [\<lparr>Permission_Resource = ''*'', Permission_Action = ''*''\<rparr>])\<rparr>"

definition wide_names :: "nat \<Rightarrow> string list" where
  "wide_names k = map (\<lambda>i. replicate i CHR ''r'') [0..<k]"

lemma distinct_wide_names: "distinct (wide_names k)"
  by (auto simp: wide_names_def distinct_map inj_on_def dest: arg_cong[where f = length])

lemma wide_names_Suc: "wide_names (Suc k) = wide_names k @ [replicate k CHR ''r'']"
  by (simp add: wide_names_def)

theorem Can_ignores_roles_after_65_witness:
  "HasRole (\<lambda>_. Inr (wide_names 66)) ''u'' (replicate 65 CHR ''r'') \<and>
   grants wide_getRole ''read'' ''posts'' (replicate 65 CHR ''r'') \<and>
   \<not> Can wide_getRole (\<lambda>_. Inr (wide_names 66)) ''u'' ''read'' ''posts''"
proof -
  have "(66::nat) = Suc 65" by simp
  then have split: "wide_names 66 = wide_names 65 @ [replicate 65 CHR ''r'']"
    by (simp only: wide_names_Suc)
  have "HasRole (\<lambda>_. Inr (wide_names 66)) ''u'' (replicate 65 CHR ''r'')"
    unfolding split by (simp add: HasRole_def)
  moreover have "grants wide_getRole ''read'' ''posts'' (replicate 65 CHR ''r'')"
    by (simp add: grants_def wide_getRole_def matches_def)
  moreover have "\<not> Can wide_getRole (\<lambda>_. Inr (wide_names 66)) ''u'' ''read'' ''posts''"
    by (rule Can_ignores_roles_after_65[where xs = "wide_names 65" and ys = "[replicate 65 CHR ''r'']"])
      (simp_all add: split distinct_wide_names, auto simp: wide_names_def wide_getRole_def)
  ultimately show ?thesis by simp
qed

text \<open>
  C14: Every history of calls on a new in-memory store refines the abstract one over a map of
  roles and a set of role names per subject, and keeps the invariant that no subject lists a
  role twice and every role is filed under its own name. Assigning is idempotent and
  unassigning removes the role entirely.
\<close>

theorem rbac_store_refines:
  "rbac_invar (rbac_run rbac_NewMemoryStore ops) \<and>
   rbac_abs (rbac_run rbac_NewMemoryStore ops) = rbac_spec_run (Map.empty, \<lambda>_. {}) ops"
proof -
  have "rbac_abs rbac_NewMemoryStore = (Map.empty, \<lambda>_. {})"
    by (simp add: rbac_abs_def rbac_NewMemoryStore_def subject_slice_def)
  with rbac_run_refines[OF rbac_invar_init, of ops] show ?thesis by simp
qed

text \<open>
  Revocation takes effect. In any state the store can reach, when a role definition is
  removed, a subject whose only assigned role it was can do nothing any more, even though the
  assignment itself stays.
\<close>

theorem removing_only_role_revokes:
  assumes "rbac_invar s" and "set (subject_slice s u) \<subseteq> {n}"
  shows "\<not> Can (GetRole (fst (RemoveRole s n))) (GetSubjectRoles (fst (RemoveRole s n))) u action resource"
  using assms by (simp add: mem.Can_after_removing_only_role assigned_GetSubjectRoles)

theorem removing_only_role_revokes_witness:
  "Can (GetRole cyclic_example) (GetSubjectRoles cyclic_example) ''bob'' ''create'' ''posts'' \<and>
   \<not> Can (GetRole (fst (RemoveRole cyclic_example ''editor'')))
         (GetSubjectRoles (fst (RemoveRole cyclic_example ''editor''))) ''bob'' ''create'' ''posts''"
proof -
  have slice: "subject_slice cyclic_example ''bob'' = [''editor'']"
    by (simp add: cyclic_example_def store_laws subject_slice_def rbac_NewMemoryStore_def AssignRole_def AddRole_def)
  have "rbac_invar cyclic_example"
    unfolding cyclic_example_def using rbac_run_refines[OF rbac_invar_init] by blast
  then have "\<not> Can (GetRole (fst (RemoveRole cyclic_example ''editor'')))
         (GetSubjectRoles (fst (RemoveRole cyclic_example ''editor''))) ''bob'' ''create'' ''posts''"
    by (rule removing_only_role_revokes) (simp add: slice)
  moreover have "Can (GetRole cyclic_example) (GetSubjectRoles cyclic_example) ''bob'' ''create'' ''posts''"
    by (simp add: Can_def GetSubjectRoles_def slice GetRole_cyclic_example roleHasPermission.simps matches_def)
  ultimately show ?thesis by simp
qed

end
