(* ===== verification/Abac.thy ===== *)
theory Abac
  imports Prelude
begin

text \<open>
  The attribute-based access control package \<open>abac\<close>: the types and condition combinators of
  \<open>abac/types.go\<close>, the in-memory policy store of \<open>abac/store.go\<close> and the evaluator of
  \<open>abac/abac.go\<close>. Conditions are functions that may panic (comparing two slices held in
  interface values does), so they return an \<open>outcome\<close>; a nil condition is \<open>None\<close>.
\<close>

section \<open>Types\<close>

datatype Effect = Allow | Deny

record abac_Request =
  Request_Subject :: attributes
  Request_Resource :: attributes
  Request_Action :: string
  Request_Environment :: attributes

record Decision =
  Decision_Allowed :: bool
  Decision_MatchedPolicy :: string

type_synonym Condition = "(abac_Request \<Rightarrow> bool outcome) option"

record Policy =
  Policy_ID :: string
  Policy_Effect :: Effect
  Policy_Condition :: Condition
  Policy_Priority :: int

text \<open>Calling a condition: calling a nil function value panics.\<close>

definition call_condition :: "Condition \<Rightarrow> abac_Request \<Rightarrow> bool outcome" where
  "call_condition c req = (case c of None \<Rightarrow> Panic | Some f \<Rightarrow> f req)"

section \<open>Combinators and built-in conditions\<close>

fun all_conditions :: "Condition list \<Rightarrow> abac_Request \<Rightarrow> bool outcome" where
  "all_conditions [] req = Ret True"
| "all_conditions (c # cs) req =
     bind_outcome (call_condition c req) (\<lambda>b. if \<not> b then Ret False else all_conditions cs req)"

definition And :: "Condition list \<Rightarrow> Condition" where
  "And conditions = Some (all_conditions conditions)"

fun any_condition :: "Condition list \<Rightarrow> abac_Request \<Rightarrow> bool outcome" where
  "any_condition [] req = Ret False"
| "any_condition (c # cs) req =
     bind_outcome (call_condition c req) (\<lambda>b. if b then Ret True else any_condition cs req)"

definition Or :: "Condition list \<Rightarrow> Condition" where
  "Or conditions = Some (any_condition conditions)"

definition Not :: "Condition \<Rightarrow> Condition" where
  "Not condition = Some (\<lambda>req. bind_outcome (call_condition condition req) (\<lambda>b. Ret (\<not> b)))"

definition ActionIs :: "string list \<Rightarrow> Condition" where
  "ActionIs actions = Some (\<lambda>req. Ret (list_ex (\<lambda>a. a = Request_Action req) actions))"

definition SubjectAttrEquals :: "string \<Rightarrow> any \<Rightarrow> Condition" where
  "SubjectAttrEquals key v = Some (\<lambda>req. any_eq (attr (Request_Subject req) key) v)"

definition ResourceAttrEquals :: "string \<Rightarrow> any \<Rightarrow> Condition" where
  "ResourceAttrEquals key v = Some (\<lambda>req. any_eq (attr (Request_Resource req) key) v)"

definition EnvAttrEquals :: "string \<Rightarrow> any \<Rightarrow> Condition" where
  "EnvAttrEquals key v = Some (\<lambda>req. any_eq (attr (Request_Environment req) key) v)"

definition OwnerIsSubject :: Condition where
  "OwnerIsSubject = Some (\<lambda>req.
     let owner = string_or_empty (attr (Request_Resource req) ''owner'');
         subjectID = string_or_empty (attr (Request_Subject req) ''id'')
     in Ret (owner \<noteq> '''' \<and> owner = subjectID))"

definition SubjectHasRole :: "string \<Rightarrow> Condition" where
  "SubjectHasRole role = Some (\<lambda>req.
     case attr (Request_Subject req) ''roles'' of
       AStrs v \<Rightarrow> Ret (list_ex (\<lambda>r. r = role) v)
     | AStr v \<Rightarrow> Ret (v = role)
     | _ \<Rightarrow> Ret False)"

section \<open>The in-memory policy store\<close>

datatype abac_error = ErrPolicyNotFound

record abac_MemoryStore =
  abac_policies :: "string \<rightharpoonup> Policy"

definition abac_NewMemoryStore :: abac_MemoryStore where
  "abac_NewMemoryStore = \<lparr>abac_policies = Map.empty\<rparr>"

definition AddPolicy :: "abac_MemoryStore \<Rightarrow> Policy \<Rightarrow> abac_MemoryStore \<times> abac_error option" where
  "AddPolicy s policy = (s\<lparr>abac_policies := (abac_policies s)(Policy_ID policy \<mapsto> policy)\<rparr>, None)"

definition RemovePolicy :: "abac_MemoryStore \<Rightarrow> string \<Rightarrow> abac_MemoryStore \<times> abac_error option" where
  "RemovePolicy s i =
     (case abac_policies s i of
        None \<Rightarrow> (s, Some ErrPolicyNotFound)
      | Some _ \<Rightarrow> (s\<lparr>abac_policies := (abac_policies s)(i := None)\<rparr>, None))"

text \<open>
  \<open>for _, p := range s.policies\<close> visits the keys of the map in an order Go leaves
  unspecified (and randomises). The order is an argument: any list of the keys without
  repetition. \<open>sort.SliceStable\<close> with \<open>out[i].Priority > out[j].Priority\<close> is a stable sort by
  descending priority.
\<close>

definition iteration_order :: "('k \<rightharpoonup> 'v) \<Rightarrow> 'k list \<Rightarrow> bool" where
  "iteration_order m ord \<longleftrightarrow> distinct ord \<and> set ord = dom m"

definition Policies :: "string list \<Rightarrow> abac_MemoryStore \<Rightarrow> abac_error + Policy list" where
  "Policies ord s =
     (let out = List.map_filter (abac_policies s) ord
      in Inr (sort_key (\<lambda>p. - Policy_Priority p) out))"

section \<open>The evaluator\<close>

record Evaluator =
  Evaluator_defaultEffect :: Effect

type_synonym EvaluatorOption = "Evaluator \<Rightarrow> Evaluator"

definition WithDefaultAllow :: EvaluatorOption where
  "WithDefaultAllow e = e\<lparr>Evaluator_defaultEffect := Allow\<rparr>"

definition abac_New :: "EvaluatorOption list \<Rightarrow> Evaluator" where
  "abac_New opts = fold (\<lambda>f ev. f ev) opts \<lparr>Evaluator_defaultEffect = Deny\<rparr>"

definition default_decision :: "Evaluator \<Rightarrow> Decision" where
  "default_decision ev =
     \<lparr>Decision_Allowed = (Evaluator_defaultEffect ev = Allow), Decision_MatchedPolicy = ''''\<rparr>"

text \<open>\<open>p.Condition == nil || p.Condition(req)\<close>\<close>

definition applies :: "Policy \<Rightarrow> abac_Request \<Rightarrow> bool outcome" where
  "applies p req = (case Policy_Condition p of None \<Rightarrow> Ret True | Some f \<Rightarrow> f req)"

fun first_match :: "Evaluator \<Rightarrow> Policy list \<Rightarrow> abac_Request \<Rightarrow> Decision outcome" where
  "first_match ev [] req = Ret (default_decision ev)"
| "first_match ev (p # ps) req =
     bind_outcome (applies p req) (\<lambda>b.
       if b then Ret \<lparr>Decision_Allowed = (Policy_Effect p = Allow), Decision_MatchedPolicy = Policy_ID p\<rparr>
       else first_match ev ps req)"

text \<open>The first argument is what \<open>ev.store.Policies()\<close> returned for this call.\<close>

definition Evaluate :: "'e + Policy list \<Rightarrow> Evaluator \<Rightarrow> abac_Request \<Rightarrow> Decision outcome" where
  "Evaluate policies_result ev req =
     (case policies_result of
        Inl _ \<Rightarrow> Ret (default_decision ev)
      | Inr policies \<Rightarrow> first_match ev policies req)"

definition Evaluator_Allow :: "'e + Policy list \<Rightarrow> Evaluator \<Rightarrow> abac_Request \<Rightarrow> bool outcome" where
  "Evaluator_Allow policies_result ev req =
     bind_outcome (Evaluate policies_result ev req) (\<lambda>d. Ret (Decision_Allowed d))"

section \<open>Boolean meaning of the combinators\<close>

text \<open>\<open>decides c req b\<close>: evaluating the condition returns \<open>b\<close> without a panic.\<close>

definition decides :: "Condition \<Rightarrow> abac_Request \<Rightarrow> bool \<Rightarrow> bool" where
  "decides c req b \<longleftrightarrow> call_condition c req = Ret b"

lemma decides_And:
  "(\<And>c. c \<in> set cs \<Longrightarrow> decides c req (v c)) \<Longrightarrow> decides (And cs) req (\<forall>c \<in> set cs. v c)"
  by (induction cs) (auto simp: decides_def And_def call_condition_def[of "Some _"])

lemma decides_Or:
  "(\<And>c. c \<in> set cs \<Longrightarrow> decides c req (v c)) \<Longrightarrow> decides (Or cs) req (\<exists>c \<in> set cs. v c)"
  by (induction cs) (auto simp: decides_def Or_def call_condition_def[of "Some _"])

lemma decides_Not: "decides c req b \<Longrightarrow> decides (Not c) req (\<not> b)"
  by (simp add: decides_def Not_def call_condition_def[of "Some _"])

section \<open>Meaning of an evaluation\<close>

definition matching :: "Policy list \<Rightarrow> abac_Request \<Rightarrow> Policy list" where
  "matching ps req = filter (\<lambda>p. applies p req = Ret True) ps"

definition no_panic :: "Policy set \<Rightarrow> abac_Request \<Rightarrow> bool" where
  "no_panic ps req \<longleftrightarrow> (\<forall>p \<in> ps. applies p req \<noteq> Panic)"

definition decision_of :: "Policy \<Rightarrow> Decision" where
  "decision_of p = \<lparr>Decision_Allowed = (Policy_Effect p = Allow), Decision_MatchedPolicy = Policy_ID p\<rparr>"

lemma first_match_eq:
  assumes "no_panic (set ps) req"
  shows "first_match ev ps req =
    Ret (case matching ps req of [] \<Rightarrow> default_decision ev | p # _ \<Rightarrow> decision_of p)"
  using assms
proof (induction ps)
  case Nil
  then show ?case by (simp add: matching_def)
next
  case (Cons p ps)
  then obtain b where "applies p req = Ret b"
    by (cases "applies p req") (auto simp: no_panic_def)
  with Cons show ?case
    by (simp add: no_panic_def matching_def decision_of_def)
qed

text \<open>In a list sorted by descending priority the first match has the greatest priority.\<close>

definition descending :: "Policy list \<Rightarrow> bool" where
  "descending ps \<longleftrightarrow> sorted (map (\<lambda>p. - Policy_Priority p) ps)"

lemma first_matching_is_top:
  assumes "descending ps" and "matching ps req = p # rest" and "q \<in> set ps" and "applies q req = Ret True"
  shows "Policy_Priority q \<le> Policy_Priority p"
proof -
  from assms(1) have "sorted (map (\<lambda>p. - Policy_Priority p) (matching ps req))"
    unfolding descending_def matching_def by (rule sorted_filter)
  moreover from assms(3,4) have "q \<in> set (matching ps req)"
    by (simp add: matching_def)
  ultimately show ?thesis
    using assms(2) by auto
qed

section \<open>The contract of a policy store\<close>

text \<open>
  \<open>lookup\<close> is the abstract content, one policy per ID. \<open>listing s ps\<close> says that \<open>Policies()\<close>
  may return \<open>ps\<close> in state \<open>s\<close>: the interface fixes the contents and the descending order,
  not the order among equal priorities.
\<close>

locale policy_store =
  fixes addPolicy :: "'s \<Rightarrow> Policy \<Rightarrow> 's \<times> 'e option"
    and removePolicy :: "'s \<Rightarrow> string \<Rightarrow> 's \<times> 'e option"
    and listing :: "'s \<Rightarrow> Policy list \<Rightarrow> bool"
    and lookup :: "'s \<Rightarrow> string \<rightharpoonup> Policy"
    and invar :: "'s \<Rightarrow> bool"
  assumes invar_add: "invar s \<Longrightarrow> invar (fst (addPolicy s p))"
    and invar_remove: "invar s \<Longrightarrow> invar (fst (removePolicy s i))"
    and lookup_ID: "invar s \<Longrightarrow> lookup s i = Some p \<Longrightarrow> Policy_ID p = i"
    and lookup_add: "invar s \<Longrightarrow> lookup (fst (addPolicy s p)) = (lookup s)(Policy_ID p \<mapsto> p)"
    and lookup_remove: "invar s \<Longrightarrow> lookup (fst (removePolicy s i)) = (lookup s)(i := None)"
    and listing_set: "invar s \<Longrightarrow> listing s ps \<Longrightarrow> set ps = ran (lookup s)"
    and listing_descending: "invar s \<Longrightarrow> listing s ps \<Longrightarrow> descending ps"
    and listing_exists: "invar s \<Longrightarrow> \<exists>ps. listing s ps"
begin

text \<open>What a decision means, whatever the order among ties.\<close>

lemma Evaluate_cases:
  assumes "invar s" "listing s ps" "no_panic (ran (lookup s)) req"
  shows "(\<exists>p \<in> ran (lookup s). applies p req = Ret True \<and>
            (\<forall>q \<in> ran (lookup s). applies q req = Ret True \<longrightarrow> Policy_Priority q \<le> Policy_Priority p) \<and>
            Evaluate (Inr ps :: 'e + Policy list) ev req = Ret (decision_of p)) \<or>
         ((\<forall>q \<in> ran (lookup s). applies q req \<noteq> Ret True) \<and> Evaluate (Inr ps :: 'e + Policy list) ev req = Ret (default_decision ev))"
proof -
  have set: "set ps = ran (lookup s)"
    using assms by (simp add: listing_set)
  have eval: "Evaluate (Inr ps :: 'e + Policy list) ev req =
      Ret (case matching ps req of [] \<Rightarrow> default_decision ev | p # _ \<Rightarrow> decision_of p)"
    using assms(3) set by (simp add: Evaluate_def first_match_eq)
  show ?thesis
  proof (cases "matching ps req")
    case Nil
    with eval set show ?thesis by (auto simp: matching_def filter_empty_conv)
  next
    case (Cons p rest)
    then have "p \<in> set (matching ps req)" by simp
    then have "p \<in> ran (lookup s)" "applies p req = Ret True"
      using set by (simp_all add: matching_def)
    moreover have "\<forall>q \<in> ran (lookup s). applies q req = Ret True \<longrightarrow> Policy_Priority q \<le> Policy_Priority p"
      using first_matching_is_top[OF listing_descending[OF assms(1,2)] Cons] set by blast
    ultimately show ?thesis
      using Cons eval by auto
  qed
qed

text \<open>
  When the matching policies of greatest priority agree on their effect, so does every
  listing: the decision does not depend on the iteration order.
\<close>

lemma Evaluate_top_effect:
  assumes "invar s" "listing s ps" "no_panic (ran (lookup s)) req"
    and "p \<in> ran (lookup s)" "applies p req = Ret True"
    and "\<And>q. q \<in> ran (lookup s) \<Longrightarrow> applies q req = Ret True \<Longrightarrow> Policy_Effect q \<noteq> Policy_Effect p \<Longrightarrow>
           Policy_Priority q < Policy_Priority p"
  shows "Evaluator_Allow (Inr ps :: 'e + Policy list) ev req = Ret (Policy_Effect p = Allow)"
proof -
  obtain t where t: "t \<in> ran (lookup s)" "applies t req = Ret True"
      "Policy_Priority p \<le> Policy_Priority t" "Evaluate (Inr ps :: 'e + Policy list) ev req = Ret (decision_of t)"
    using Evaluate_cases[OF assms(1-3), of ev] assms(4,5) by blast
  have "Policy_Effect t = Policy_Effect p"
    using assms(6)[OF t(1,2)] t(3) by fastforce
  with t(4) show ?thesis
    by (simp add: Evaluator_Allow_def decision_of_def)
qed

lemma no_decision_names_removed:
  assumes "invar s" "listing (fst (removePolicy s i)) ps" "no_panic (ran (lookup (fst (removePolicy s i)))) req"
    and "Evaluate (Inr ps :: 'e + Policy list) ev req = Ret d" "i \<noteq> ''''"
  shows "Decision_MatchedPolicy d \<noteq> i"
proof -
  let ?s = "fst (removePolicy s i)"
  have inv: "invar ?s"
    using assms(1) by (rule invar_remove)
  have ids: "\<forall>p \<in> ran (lookup ?s). Policy_ID p \<noteq> i"
  proof
    fix p
    assume "p \<in> ran (lookup ?s)"
    then obtain k where k: "lookup ?s k = Some p" by (auto simp: ran_def)
    then have "Policy_ID p = k" using inv lookup_ID by blast
    moreover from k assms(1) have "k \<noteq> i" by (auto simp: lookup_remove)
    ultimately show "Policy_ID p \<noteq> i" by simp
  qed
  from Evaluate_cases[OF inv assms(2,3), of ev] assms(4,5) ids show ?thesis
    by (auto simp: decision_of_def default_decision_def)
qed

end

section \<open>The in-memory store keeps the contract\<close>

definition abac_invar :: "abac_MemoryStore \<Rightarrow> bool" where
  "abac_invar s \<longleftrightarrow> finite (dom (abac_policies s)) \<and> (\<forall>i p. abac_policies s i = Some p \<longrightarrow> Policy_ID p = i)"

definition abac_listing :: "abac_MemoryStore \<Rightarrow> Policy list \<Rightarrow> bool" where
  "abac_listing s ps \<longleftrightarrow> (\<exists>ord. iteration_order (abac_policies s) ord \<and> Policies ord s = Inr ps)"

lemma set_map_filter_dom: "set ord = dom m \<Longrightarrow> set (List.map_filter m ord) = ran m"
  by (force simp: List.map_filter_def ran_def dom_def)

lemma policies_AddPolicy [store_laws]:
  "abac_policies (fst (AddPolicy s p)) = (abac_policies s)(Policy_ID p \<mapsto> p)"
  by (simp add: AddPolicy_def)

lemma policies_RemovePolicy [store_laws]:
  "abac_policies (fst (RemovePolicy s i)) = (abac_policies s)(i := None)"
  by (auto simp: RemovePolicy_def fun_eq_iff split: option.splits)

lemma RemovePolicy_error: "snd (RemovePolicy s i) = Some ErrPolicyNotFound \<longleftrightarrow> abac_policies s i = None"
  by (simp add: RemovePolicy_def split: option.splits)

lemma abac_invar_init: "abac_invar abac_NewMemoryStore"
  by (simp add: abac_invar_def abac_NewMemoryStore_def)

interpretation pol: policy_store AddPolicy RemovePolicy abac_listing abac_policies abac_invar
proof (unfold_locales, goal_cases)
  case (1 s p)
  then show ?case by (auto simp: abac_invar_def store_laws)
next
  case (2 s i)
  then show ?case by (auto simp: abac_invar_def store_laws)
next
  case (6 s ps)
  then show ?case by (auto simp: abac_listing_def iteration_order_def Policies_def set_map_filter_dom)
next
  case (7 s ps)
  then show ?case by (auto simp: abac_listing_def Policies_def descending_def)
next
  case (8 s)
  then obtain ord where "set ord = dom (abac_policies s)" "distinct ord"
    using finite_distinct_list[of "dom (abac_policies s)"] by (auto simp: abac_invar_def)
  then show ?case by (auto simp: abac_listing_def iteration_order_def Policies_def)
qed (auto simp: abac_invar_def store_laws)

section \<open>Properties\<close>

text \<open>
  C5: The evaluator decides by priority. For any content of the in-memory store and any order
  in which Go walks its map, an evaluation that meets no panicking condition returns the
  decision of a matching policy whose priority no other matching policy exceeds, and the
  default decision exactly when no policy matches.
\<close>

theorem Evaluate_by_priority:
  assumes "abac_invar s" and "iteration_order (abac_policies s) ord" and "Policies ord s = Inr ps"
    and "no_panic (ran (abac_policies s)) req"
  shows "(\<exists>p \<in> ran (abac_policies s). applies p req = Ret True \<and>
            (\<forall>q \<in> ran (abac_policies s). applies q req = Ret True \<longrightarrow> Policy_Priority q \<le> Policy_Priority p) \<and>
            Evaluate (Policies ord s) ev req = Ret (decision_of p)) \<or>
         ((\<forall>q \<in> ran (abac_policies s). applies q req \<noteq> Ret True) \<and>
            Evaluate (Policies ord s) ev req = Ret (default_decision ev))"
proof -
  have "abac_listing s ps"
    using assms(2,3) by (auto simp: abac_listing_def)
  from pol.Evaluate_cases[OF assms(1) this assms(4), of ev] show ?thesis
    by (simp add: assms(3))
qed

text \<open>Owners may edit their documents, but nobody deletes: the second policy has priority.\<close>

definition owner_policy :: Policy where
  "owner_policy = \<lparr>Policy_ID = ''owner-can-edit'', Policy_Effect = Allow,
     Policy_Condition = And [OwnerIsSubject, ActionIs [''read'', ''update'', ''delete'']], Policy_Priority = 10\<rparr>"

definition no_delete_policy :: Policy where
  "no_delete_policy = \<lparr>Policy_ID = ''no-delete'', Policy_Effect = Deny,
     Policy_Condition = ActionIs [''delete''], Policy_Priority = 20\<rparr>"

definition docs_store :: abac_MemoryStore where
  "docs_store = fst (AddPolicy (fst (AddPolicy abac_NewMemoryStore owner_policy)) no_delete_policy)"

definition alice_request :: "string \<Rightarrow> abac_Request" where
  "alice_request action = \<lparr>Request_Subject = [''id'' \<mapsto> AStr ''alice''],
     Request_Resource = [''owner'' \<mapsto> AStr ''alice''], Request_Action = action, Request_Environment = Map.empty\<rparr>"

lemma abac_invar_AddPolicy: "abac_invar s \<Longrightarrow> abac_invar (fst (AddPolicy s p))"
  by (rule pol.invar_add)

lemma docs_store_invar: "abac_invar docs_store"
  by (simp add: docs_store_def abac_invar_AddPolicy abac_invar_init)

lemma docs_store_policies:
  "abac_policies docs_store = [''owner-can-edit'' \<mapsto> owner_policy, ''no-delete'' \<mapsto> no_delete_policy]"
  by (simp add: docs_store_def store_laws abac_NewMemoryStore_def owner_policy_def no_delete_policy_def)

lemma docs_store_ran: "ran (abac_policies docs_store) = {owner_policy, no_delete_policy}"
  by (simp add: docs_store_policies insert_commute)

lemma call_ActionIs: "call_condition (ActionIs xs) req = Ret (list_ex (\<lambda>x. x = Request_Action req) xs)"
  by (simp add: call_condition_def ActionIs_def)

lemma call_OwnerIsSubject_alice: "call_condition OwnerIsSubject (alice_request a) = Ret True"
  by (simp add: call_condition_def OwnerIsSubject_def alice_request_def)

lemma action_alice [simp]: "Request_Action (alice_request a) = a"
  by (simp add: alice_request_def)

lemma applies_docs [simp]:
  "applies owner_policy (alice_request a) = Ret (list_ex (\<lambda>x. x = a) [''read'', ''update'', ''delete''])"
  "applies no_delete_policy (alice_request a) = Ret (''delete'' = a)"
   apply (simp add: applies_def owner_policy_def And_def call_ActionIs call_OwnerIsSubject_alice)
  by (simp add: applies_def no_delete_policy_def ActionIs_def)

lemma docs_policies_simps [simp]:
  "Policy_Priority owner_policy = 10" "Policy_Priority no_delete_policy = 20"
  "Policy_Effect owner_policy = Allow" "Policy_Effect no_delete_policy = Deny"
  "Policy_ID owner_policy = ''owner-can-edit''" "Policy_ID no_delete_policy = ''no-delete''"
  by (simp_all add: owner_policy_def no_delete_policy_def)

theorem Evaluate_by_priority_witness:
  "Evaluate (Policies [''owner-can-edit'', ''no-delete''] docs_store) (abac_New []) (alice_request ''delete'') =
     Ret \<lparr>Decision_Allowed = False, Decision_MatchedPolicy = ''no-delete''\<rparr>"
proof -
  let ?ord = "[''owner-can-edit'', ''no-delete'']"
  have ord: "iteration_order (abac_policies docs_store) ?ord"
    by (auto simp: iteration_order_def docs_store_policies)
  have ps: "Policies ?ord docs_store = Inr [no_delete_policy, owner_policy]"
    by (simp add: Policies_def docs_store_policies List.map_filter_simps)
  have "no_panic (ran (abac_policies docs_store)) (alice_request ''delete'')"
    by (simp add: no_panic_def docs_store_ran)
  from Evaluate_by_priority[OF docs_store_invar ord ps this, of "abac_New []"]
  have "Evaluate (Policies ?ord docs_store) (abac_New []) (alice_request ''delete'') = Ret (decision_of no_delete_policy)"
    unfolding docs_store_ran by fastforce
  then show ?thesis by (simp add: decision_of_def)
qed

text \<open>
  The order of equal priorities is not fixed. With an Allow and a Deny policy of the same
  priority matching the same request, one iteration order of the map allows and another
  denies: ties neither keep insertion order nor prefer Deny.
\<close>

theorem equal_priority_is_order_dependent:
  "\<exists>s req ord ord'. abac_invar s \<and> iteration_order (abac_policies s) ord \<and> iteration_order (abac_policies s) ord' \<and>
     Evaluator_Allow (Policies ord s) (abac_New []) req = Ret True \<and>
     Evaluator_Allow (Policies ord' s) (abac_New []) req = Ret False"
proof -
  let ?a = "\<lparr>Policy_ID = ''a'', Policy_Effect = Allow, Policy_Condition = None, Policy_Priority = 0\<rparr>"
  let ?d = "\<lparr>Policy_ID = ''d'', Policy_Effect = Deny, Policy_Condition = None, Policy_Priority = 0\<rparr>"
  let ?s = "fst (AddPolicy (fst (AddPolicy abac_NewMemoryStore ?d)) ?a)"
  let ?req = "alice_request ''read''"
  have pol: "abac_policies ?s = [''d'' \<mapsto> ?d, ''a'' \<mapsto> ?a]"
    by (simp add: store_laws abac_NewMemoryStore_def)
  have "abac_invar ?s"
    by (simp add: abac_invar_AddPolicy abac_invar_init)
  moreover have "iteration_order (abac_policies ?s) [''a'', ''d'']" "iteration_order (abac_policies ?s) [''d'', ''a'']"
    by (auto simp: iteration_order_def pol)
  moreover have "Policies [''a'', ''d''] ?s = Inr [?a, ?d]" "Policies [''d'', ''a''] ?s = Inr [?d, ?a]"
    by (simp_all add: Policies_def pol List.map_filter_simps)
  then have "Evaluator_Allow (Policies [''a'', ''d''] ?s) (abac_New []) ?req = Ret True"
      "Evaluator_Allow (Policies [''d'', ''a''] ?s) (abac_New []) ?req = Ret False"
    by (simp_all add: Evaluator_Allow_def Evaluate_def applies_def)
  ultimately show ?thesis by blast
qed

text \<open>
  Where the matching policies of the greatest priority agree, the answer is fixed. If a
  policy matches and every matching policy of the opposite effect has a strictly smaller
  priority, then every iteration order gives that policy's effect.
\<close>

theorem Evaluate_order_independent:
  assumes "abac_invar s" and "iteration_order (abac_policies s) ord"
    and "no_panic (ran (abac_policies s)) req"
    and "p \<in> ran (abac_policies s)" and "applies p req = Ret True"
    and "\<And>q. q \<in> ran (abac_policies s) \<Longrightarrow> applies q req = Ret True \<Longrightarrow> Policy_Effect q \<noteq> Policy_Effect p \<Longrightarrow>
           Policy_Priority q < Policy_Priority p"
  shows "Evaluator_Allow (Policies ord s) ev req = Ret (Policy_Effect p = Allow)"
proof -
  obtain ps where ps: "Policies ord s = Inr ps" by (simp add: Policies_def)
  then have "abac_listing s ps"
    using assms(2) by (auto simp: abac_listing_def)
  from pol.Evaluate_top_effect[OF assms(1) this assms(3-6), of ev] show ?thesis
    by (simp add: ps)
qed

theorem Evaluate_order_independent_witness:
  "Evaluator_Allow (Policies [''no-delete'', ''owner-can-edit''] docs_store) (abac_New []) (alice_request ''delete'') = Ret False"
proof -
  have "iteration_order (abac_policies docs_store) [''no-delete'', ''owner-can-edit'']"
    by (auto simp: iteration_order_def docs_store_policies)
  then have "Evaluator_Allow (Policies [''no-delete'', ''owner-can-edit''] docs_store) (abac_New []) (alice_request ''delete'')
      = Ret (Policy_Effect no_delete_policy = Allow)"
  proof (rule Evaluate_order_independent[OF docs_store_invar])
    fix q
    assume "q \<in> ran (abac_policies docs_store)" and "Policy_Effect q \<noteq> Policy_Effect no_delete_policy"
    then have "q = owner_policy" by (auto simp: docs_store_ran)
    then show "Policy_Priority q < Policy_Priority no_delete_policy"
      by simp
  qed (simp_all add: no_panic_def docs_store_ran)
  then show ?thesis by simp
qed

text \<open>
  Deny by default. An evaluator built without options allows a request only through a
  stored policy of effect Allow that matches it; a failing store denies.
\<close>

theorem allowed_only_by_allow_policy:
  assumes "Evaluator_Allow (policies_result :: 'e + Policy list) (abac_New []) req = Ret True"
  shows "\<exists>ps p. policies_result = Inr ps \<and> p \<in> set ps \<and> Policy_Effect p = Allow \<and> applies p req = Ret True"
proof -
  have "\<exists>p \<in> set ps. Policy_Effect p = Allow \<and> applies p req = Ret True"
    if "first_match (abac_New []) ps req = Ret d" "Decision_Allowed d" for ps d
    using that by (induction ps) (auto simp: abac_New_def default_decision_def split: if_splits)
  with assms show ?thesis
    by (cases policies_result) (auto simp: Evaluator_Allow_def Evaluate_def abac_New_def default_decision_def)
qed

theorem allowed_only_by_allow_policy_witness:
  "Evaluator_Allow (Policies [''owner-can-edit'', ''no-delete''] docs_store) (abac_New []) (alice_request ''read'') = Ret True \<and>
   (\<exists>ps p. Policies [''owner-can-edit'', ''no-delete''] docs_store = Inr ps \<and> p \<in> set ps \<and>
      Policy_Effect p = Allow \<and> applies p (alice_request ''read'') = Ret True)"
proof -
  have ps: "Policies [''owner-can-edit'', ''no-delete''] docs_store = Inr [no_delete_policy, owner_policy]"
    by (simp add: Policies_def docs_store_policies List.map_filter_simps)
  have allow: "Evaluator_Allow (Policies [''owner-can-edit'', ''no-delete''] docs_store) (abac_New []) (alice_request ''read'') = Ret True"
    by (simp add: Evaluator_Allow_def Evaluate_def ps)
  with allowed_only_by_allow_policy[OF allow] show ?thesis by blast
qed

text \<open>
  \<open>And\<close>, \<open>Or\<close> and \<open>Not\<close> are the boolean connectives on conditions that return: with
  truth values \<open>v\<close>, any nesting evaluates to the corresponding formula; the empty \<open>And\<close> is
  true and the empty \<open>Or\<close> false.
\<close>

theorem combinators_boolean:
  assumes "\<And>c. c \<in> set cs \<Longrightarrow> decides c req (v c)"
  shows "decides (And cs) req (\<forall>c \<in> set cs. v c) \<and> decides (Or cs) req (\<exists>c \<in> set cs. v c) \<and>
    decides (Not (And cs)) req (\<exists>c \<in> set cs. \<not> v c) \<and> decides (Not (Or cs)) req (\<forall>c \<in> set cs. \<not> v c)"
proof -
  have "decides (Not (And cs)) req (\<not> (\<forall>c \<in> set cs. v c))"
    by (intro decides_Not decides_And assms)
  moreover have "decides (Not (Or cs)) req (\<not> (\<exists>c \<in> set cs. v c))"
    by (intro decides_Not decides_Or assms)
  moreover have "decides (And cs) req (\<forall>c \<in> set cs. v c)" "decides (Or cs) req (\<exists>c \<in> set cs. v c)"
    by (intro decides_And decides_Or assms; assumption)+
  ultimately show ?thesis by simp
qed

theorem combinators_boolean_witness:
  "decides (And [ActionIs [''read'']]) (alice_request ''read'') True"
proof -
  have "decides (ActionIs [''read'']) (alice_request ''read'') True"
    by (simp add: decides_def call_condition_def ActionIs_def alice_request_def)
  with combinators_boolean[of "[ActionIs [''read'']]" "alice_request ''read''" "\<lambda>_. True"] show ?thesis
    by simp
qed

end
