(* ===== verification/Guards.thy ===== *)
theory Guards
  imports AuthMiddleware Rbac Abac
begin

text \<open>
  The authorisation middlewares of \<open>rbac/middleware.go\<close>, \<open>abac/middleware.go\<close> and
  \<open>apikey/apikey.go\<close>. The stores are read from the state \<open>'w\<close> by the functions \<open>getRole\<close>,
  \<open>getSubjectRoles\<close>, \<open>policies\<close> and through a \<open>KeyStore\<close>.
\<close>

section \<open>RBAC\<close>

definition forbidden_calls :: "rw_call list" where
  "forbidden_calls =
     [RwSet ''Content-Type'' ''application/json'', RwWriteHeader 403, RwWrite (json_error ''forbidden'')]"

definition writeForbidden :: "'w \<Rightarrow> ('w \<times> rw_call list) outcome" where
  "writeForbidden = reply forbidden_calls"

definition rbac_Require ::
  "('w \<Rightarrow> string \<Rightarrow> 'e + Role) \<Rightarrow> ('w \<Rightarrow> string \<Rightarrow> 'e + string list) \<Rightarrow> string \<Rightarrow> string \<Rightarrow>
     'w Handler \<Rightarrow> 'w Handler" where
  "rbac_Require getRole getSubjectRoles action resource nextH r w =
     (let subject = SubjectFrom r in
      if subject = '''' \<or> \<not> Can (getRole w) (getSubjectRoles w) subject action resource
      then writeForbidden w
      else nextH r w)"

text \<open>The two nested loops of \<open>RequireRole\<close>, which stop at the first match.\<close>

fun assigned_any :: "string list \<Rightarrow> string list \<Rightarrow> bool" where
  "assigned_any [] held = False"
| "assigned_any (want # roles) held =
     (if list_ex (\<lambda>has. want = has) held then True else assigned_any roles held)"

definition rbac_RequireRole ::
  "('w \<Rightarrow> string \<Rightarrow> 'e + string list) \<Rightarrow> string list \<Rightarrow> 'w Handler \<Rightarrow> 'w Handler" where
  "rbac_RequireRole getSubjectRoles roles nextH r w =
     (let subject = SubjectFrom r in
      if subject = '''' then writeForbidden w
      else case RolesFor (getSubjectRoles w) subject of
             Inl _ \<Rightarrow> writeForbidden w
           | Inr held \<Rightarrow> if assigned_any roles held then nextH r w else writeForbidden w)"

section \<open>ABAC\<close>

text \<open>
  \<open>resourceFn\<close> may be absent or return nil (\<open>None\<close>); both give the empty map. \<open>policies\<close> is what
  the policy store returns to this evaluation.
\<close>

definition abac_Require ::
  "('w \<Rightarrow> 'e + Policy list) \<Rightarrow> Evaluator \<Rightarrow> string \<Rightarrow> ('w http_Request \<Rightarrow> attributes option) option \<Rightarrow>
     ('w http_Request \<Rightarrow> attributes) \<Rightarrow> 'w Handler \<Rightarrow> 'w Handler" where
  "abac_Require policies ev action resourceFn subjectFn nextH r w =
     (let res = (case resourceFn of None \<Rightarrow> None | Some f \<Rightarrow> f r);
          resource = (case res of None \<Rightarrow> Map.empty | Some m \<Rightarrow> m);
          req = \<lparr>Request_Subject = subjectFn r, Request_Resource = resource, Request_Action = action,
                 Request_Environment =
                   [''ip'' \<mapsto> AStr (req_RemoteAddr r), ''method'' \<mapsto> AStr (req_Method r),
                    ''path'' \<mapsto> AStr (req_Path r)]\<rparr>
      in bind_outcome (Evaluator_Allow (policies w) ev req) (\<lambda>allowed.
           if \<not> allowed then reply forbidden_calls w else nextH r w))"

definition SubjectFromClaims :: "'w http_Request \<Rightarrow> attributes" where
  "SubjectFromClaims r =
     (case ClaimsFrom r of
        None \<Rightarrow> Map.empty
      | Some claims \<Rightarrow> [''id'' \<mapsto> AStr (Claims_Subject claims)] ++ Claims_Custom claims)"

section \<open>API keys\<close>

definition KeyFrom :: "'w http_Request \<Rightarrow> Key option" where
  "KeyFrom r = ctx_Key r"

definition apikey_SubjectFrom :: "'w http_Request \<Rightarrow> string" where
  "apikey_SubjectFrom r = (case KeyFrom r of Some k \<Rightarrow> Key_Subject k | None \<Rightarrow> '''')"

definition extractKey :: "'w http_Request \<Rightarrow> string" where
  "extractKey r =
     (let v = Header_Get (req_Header r) ''X-API-Key'' in
      if v \<noteq> '''' then v
      else (let auth = Header_Get (req_Header r) ''Authorization'' in
            if HasPrefix auth ''Bearer '' then TrimPrefix auth ''Bearer '' else ''''))"

type_synonym 'w KeyErrorHandler = "'w http_Request \<Rightarrow> apikey_error \<Rightarrow> 'w \<Rightarrow> ('w \<times> rw_call list) outcome"

definition defaultErrHandler :: "'w KeyErrorHandler" where
  "defaultErrHandler r err = reply unauthorized_calls"

definition apikey_WithErrorHandler :: "'w KeyErrorHandler \<Rightarrow> 'w KeyErrorHandler \<Rightarrow> 'w KeyErrorHandler" where
  "apikey_WithErrorHandler fn cfg = fn"

definition apikey_Middleware ::
  "'w KeyStore \<Rightarrow> ('w KeyErrorHandler \<Rightarrow> 'w KeyErrorHandler) list \<Rightarrow> time \<Rightarrow> 'w Handler \<Rightarrow> 'w Handler" where
  "apikey_Middleware svc opts now nextH r w =
     (let onError = fold (\<lambda>opt cfg. opt cfg) opts defaultErrHandler;
          raw = extractKey r in
      if raw = '''' then onError r ErrInvalidKey w
      else case apikey_Verify svc now raw w of
             Inl err \<Rightarrow> onError r err w
           | Inr k \<Rightarrow> nextH (r\<lparr>ctx_Key := Some k\<rparr>) w)"

section \<open>Lemmas\<close>

lemma forbidden_response:
  "response forbidden_calls = (403, [''Content-Type'' \<mapsto> [''application/json'']])"
proof -
  have eq: "forbidden_calls = take 1 forbidden_calls @ RwWriteHeader 403 # drop 2 forbidden_calls"
    by (simp add: forbidden_calls_def)
  have s: "rw_Sent (rw_run (take 1 forbidden_calls) new_ResponseWriter) = None"
    by (simp add: forbidden_calls_def new_ResponseWriter_def)
  have "response forbidden_calls = (403, rw_Header (rw_run (take 1 forbidden_calls) new_ResponseWriter))"
    by (subst eq) (rule response_fixed[OF s], simp add: informational_def)
  then show ?thesis
    by (simp add: forbidden_calls_def new_ResponseWriter_def Header_Set_def)
qed

lemma assigned_any_iff: "assigned_any roles held \<longleftrightarrow> set roles \<inter> set held \<noteq> {}"
  by (induction roles) (auto simp: list_ex_iff)

lemma SubjectFrom_WithClaims [simp]: "SubjectFrom (r\<lparr>ctx_Claims := Some c\<rparr>) = Claims_Subject c"
  by (simp add: SubjectFrom_def ClaimsFrom_def)

lemma SubjectFromClaims_attr:
  "ctx_Claims r = Some c \<Longrightarrow>
     attr (SubjectFromClaims r) k =
       (case Claims_Custom c k of Some v \<Rightarrow> v | None \<Rightarrow> if k = ''id'' then AStr (Claims_Subject c) else ANil)"
  by (auto simp: SubjectFromClaims_def ClaimsFrom_def attr_def map_add_def split: option.splits)

lemma call_OwnerIsSubject:
  "call_condition OwnerIsSubject req =
     Ret (string_or_empty (attr (Request_Resource req) ''owner'') \<noteq> '''' \<and>
          string_or_empty (attr (Request_Resource req) ''owner'') =
          string_or_empty (attr (Request_Subject req) ''id''))"
  by (simp add: call_condition_def OwnerIsSubject_def Let_def)

text \<open>
  A route behind \<open>JWT\<close> and \<open>rbac.Require\<close>, with the roles in an in-memory store that is part of
  the state, \<open>store w\<close>.
\<close>

definition rbac_route ::
  "'w gojwt \<Rightarrow> 'w jwt_options \<Rightarrow> ('w \<Rightarrow> rbac_MemoryStore) \<Rightarrow> time \<Rightarrow> string \<Rightarrow> string \<Rightarrow> 'w Handler \<Rightarrow> 'w Handler" where
  "rbac_route lib svc store now action resource nextH =
     JWT lib svc [] now
       (rbac_Require (\<lambda>w. GetRole (store w)) (\<lambda>w. GetSubjectRoles (store w)) action resource nextH)"

section \<open>Properties\<close>

text \<open>
  A route behind \<open>JWT\<close> and \<open>rbac.Require\<close>. For a request whose token verifies to claims
  \<open>claims\<close>, and a subject with at most 65 inherited roles, the handler runs exactly when the
  token names a subject that holds, directly or by inheritance, a role that grants the action
  on the resource; it runs with these claims, and otherwise the answer is 403.
\<close>

theorem rbac_route_decision:
  assumes "authenticates lib svc now r w w' claims"
    and "finite (inherited_roles (GetRole (store w')) (subject_slice (store w') (Claims_Subject claims)))"
    and "card (inherited_roles (GetRole (store w')) (subject_slice (store w') (Claims_Subject claims))) \<le> 65"
  shows "rbac_route lib svc store now action resource nextH r w =
    (if Claims_Subject claims \<noteq> '''' \<and>
        (\<exists>m \<in> inherited_roles (GetRole (store w')) (subject_slice (store w') (Claims_Subject claims)).
           grants (GetRole (store w')) action resource m)
     then nextH (r\<lparr>ctx_Claims := Some claims\<rparr>) w'
     else Ret (w', forbidden_calls))"
proof -
  have "GetSubjectRoles (store w') (Claims_Subject claims) =
      Inr (subject_slice (store w') (Claims_Subject claims))"
    by (simp add: GetSubjectRoles_def)
  from Can_inherited[of "GetSubjectRoles (store w')", OF this assms(2,3), of action resource]
  show ?thesis
    unfolding rbac_route_def JWT_accepts[OF assms(1)]
    by (auto simp: rbac_Require_def writeForbidden_def reply_def WithClaims_def)
qed

text \<open>
  \<open>RequireRole\<close> looks at the roles assigned to the subject only, not at inherited ones: the
  handler runs exactly when the request has a subject and one of the wanted roles is among the
  subject's own.
\<close>

theorem RequireRole_direct_roles:
  "rbac_RequireRole (\<lambda>w. GetSubjectRoles (store w)) roles nextH r w =
     (if SubjectFrom r \<noteq> '''' \<and> set roles \<inter> set (subject_slice (store w) (SubjectFrom r)) \<noteq> {}
      then nextH r w else Ret (w, forbidden_calls))"
  by (simp add: rbac_RequireRole_def RolesFor_def GetSubjectRoles_def assigned_any_iff
      writeForbidden_def reply_def Let_def)


lemma rbac_route_decision_witness:
  "\<exists>claims :: Claims. Claims_Subject claims = ''bob'' \<and>
     rbac_route bob_lib hmac_opts (\<lambda>_. cyclic_example) 0 ''read'' ''posts'' (\<lambda>r. reply [RwWrite (SubjectFrom r)])
       (bearer_request ''tok'') NewMemoryBlacklist = Ret (NewMemoryBlacklist, [RwWrite ''bob'']) \<and>
     rbac_route bob_lib hmac_opts (\<lambda>_. cyclic_example) 0 ''delete'' ''posts'' (\<lambda>r. reply [RwWrite (SubjectFrom r)])
       (bearer_request ''tok'') NewMemoryBlacklist = Ret (NewMemoryBlacklist, forbidden_calls)"
proof -
  let ?g = "GetRole cyclic_example" and ?c = "claims_of (claims_to_sign bob_lib hmac_opts 0 bob_claims)"
  have a: "authenticates bob_lib hmac_opts 0 (bearer_request ''tok'') NewMemoryBlacklist NewMemoryBlacklist ?c"
    unfolding authenticates_def
    by (rule exI[of _ "''tok''"]) (simp add: Verify_bob bearer_request_def plain_request_def Header_Get_def)
  have bob: "Claims_Subject ?c = ''bob''"
    by (simp add: claims_of_def claims_to_sign_def bob_claims_def)
  have slice: "subject_slice cyclic_example ''bob'' = [''editor'']"
    by (simp add: cyclic_example_def store_laws subject_slice_def rbac_NewMemoryStore_def AssignRole_def AddRole_def)
  have sub: "inherited_roles ?g [''editor''] \<subseteq> {''editor'', ''viewer''}"
    using inherited_cyclic_example by (auto simp: inherited_roles_def)
  then have fin: "finite (inherited_roles ?g [''editor''])"
    by (rule finite_subset) simp
  have "card (inherited_roles ?g [''editor'']) \<le> card {''editor'', ''viewer''}"
    by (rule card_mono[OF _ sub]) simp
  also have "\<dots> \<le> 65" by simp
  finally have card: "card (inherited_roles ?g [''editor'']) \<le> 65" .
  have "inherits ?g ''editor'' ''viewer''"
    by (rule inherits.parent[OF _ _ inherits.self], simp add: GetRole_cyclic_example, simp)
  then have "''viewer'' \<in> inherited_roles ?g [''editor'']"
    by (auto simp: inherited_roles_def)
  moreover have "grants ?g ''read'' ''posts'' ''viewer''"
    by (simp add: grants_def GetRole_cyclic_example matches_def)
  ultimately have read: "\<exists>m \<in> inherited_roles ?g [''editor'']. grants ?g ''read'' ''posts'' m" by blast
  have delete: "\<not> (\<exists>m \<in> inherited_roles ?g [''editor'']. grants ?g ''delete'' ''posts'' m)"
    using sub by (auto simp: grants_def GetRole_cyclic_example matches_def)
  note d = rbac_route_decision[OF a, of "\<lambda>_. cyclic_example", unfolded bob slice, OF fin card]
  show ?thesis
    by (rule exI[of _ ?c]) (simp only: d read delete bob, simp add: reply_def bob)
qed

text \<open>
  \<open>SubjectFromClaims\<close> lets custom claims replace the identity: \<open>OwnerIsSubject\<close> then compares
  the owner with the custom claim \<open>id\<close> where the token has one, and with the verified subject
  only where it has none.
\<close>

theorem owner_condition_trusts_custom_id:
  assumes "ctx_Claims r = Some c"
  shows "call_condition OwnerIsSubject
      \<lparr>Request_Subject = SubjectFromClaims r, Request_Resource = [''owner'' \<mapsto> AStr owner],
       Request_Action = action, Request_Environment = environment\<rparr> =
    Ret (owner \<noteq> '''' \<and>
         owner = (case Claims_Custom c ''id'' of Some v \<Rightarrow> string_or_empty v | None \<Rightarrow> Claims_Subject c))"
  by (simp add: call_OwnerIsSubject SubjectFromClaims_attr[OF assms] split: option.splits)

lemma owner_condition_trusts_custom_id_witness:
  "call_condition OwnerIsSubject
      \<lparr>Request_Subject = SubjectFromClaims (plain_request\<lparr>ctx_Claims :=
           Some (bob_claims\<lparr>Claims_Custom := [''id'' \<mapsto> AStr ''alice'']\<rparr>)\<rparr>),
       Request_Resource = [''owner'' \<mapsto> AStr ''alice''], Request_Action = ''delete'',
       Request_Environment = Map.empty\<rparr> = Ret True"
  by (subst owner_condition_trusts_custom_id[where c = "bob_claims\<lparr>Claims_Custom := [''id'' \<mapsto> AStr ''alice'']\<rparr>"])
    simp_all

text \<open>
  Roles from a token never satisfy \<open>SubjectHasRole\<close> when they are a JSON array. Such a claim
  is decoded to a slice of interface values, which the condition does not look into: a route
  whose only policy allows by that condition answers 403 to every such token, also when the
  array contains the role.
\<close>

theorem json_roles_are_refused:
  assumes "ctx_Claims r = Some c" and "Claims_Custom c ''roles'' = Some (AList roles)"
    and "policies w = Inr [p]" and "Policy_Condition p = SubjectHasRole role"
  shows "abac_Require policies (abac_New []) action resourceFn SubjectFromClaims nextH r w =
    Ret (w, forbidden_calls)"
proof -
  have "attr (SubjectFromClaims r) ''roles'' = AList roles"
    by (simp add: SubjectFromClaims_attr[OF assms(1)] assms(2))
  then show ?thesis
    by (simp add: abac_Require_def assms(3,4) Evaluator_Allow_def Evaluate_def applies_def SubjectHasRole_def
        abac_New_def default_decision_def reply_def Let_def)
qed

lemma json_roles_are_refused_witness:
  "abac_Require (\<lambda>_. Inr [\<lparr>Policy_ID = ''p'', Policy_Effect = Allow,
        Policy_Condition = SubjectHasRole ''admin'', Policy_Priority = 0\<rparr>] :: abac_error + Policy list)
     (abac_New []) ''read'' None SubjectFromClaims (\<lambda>r. reply [])
     (plain_request\<lparr>ctx_Claims := Some (bob_claims\<lparr>Claims_Custom := [''roles'' \<mapsto> AList [AStr ''admin'']]\<rparr>)\<rparr>) () =
   Ret ((), forbidden_calls)"
  by (rule json_roles_are_refused[where role = "''admin''" and c = "bob_claims\<lparr>Claims_Custom := [''roles'' \<mapsto> AList [AStr ''admin'']]\<rparr>"],
      simp, simp, rule refl, simp)

lemma generated_not_empty: "generateBase62 (Suc n) rs = Some (cs, rs') \<Longrightarrow> cs \<noteq> []"
  by (auto split: option.splits prod.splits)

lemma issued_plaintext_not_empty:
  assumes "apikey_Issue st opts now now' rand w = (w', Inr ik)"
  shows "Issued_Plaintext ik \<noteq> ''''"
proof -
  obtain n where n: "(if Issue_Length opts \<le> 0 then 40 else nat (Issue_Length opts)) = Suc n"
    by (cases "(if Issue_Length opts \<le> 0 then 40 else nat (Issue_Length opts))") (auto split: if_splits)
  from assms obtain cs rs' where "generateBase62 (Suc n) rand = Some (cs, rs')"
    and "Issued_Plaintext ik = key_plaintext opts cs"
    unfolding apikey_Issue_def Let_def n by (auto split: option.splits prod.splits)
  with generated_not_empty show ?thesis
    by (auto simp: key_plaintext_def)
qed

lemma extractKey_header:
  "Header_Get (req_Header r) ''X-API-Key'' = p \<Longrightarrow> p \<noteq> '''' \<Longrightarrow> extractKey r = p"
  by (simp add: extractKey_def Let_def)

text \<open>
  From issue to request. A request that presents an issued key in \<open>X-API-Key\<close> runs the
  handler with the record of that key in its context until the key expires; from then on the
  answer is 401.
\<close>

theorem issued_key_opens_route:
  assumes "apikey_invar s" and "apikey_Issue memory_key_store opts t t' rand s = (s', Inr ik)"
    and "Header_Get (req_Header r) ''X-API-Key'' = Issued_Plaintext ik"
  shows "apikey_Middleware memory_key_store [] now nextH r s' =
    (if 0 < Issue_ExpiresIn opts \<and> t' + Issue_ExpiresIn opts < now then Ret (s', unauthorized_calls)
     else nextH (r\<lparr>ctx_Key := Some (Issued_Key ik)\<rparr>) s')"
proof -
  have raw: "extractKey r = Issued_Plaintext ik" "Issued_Plaintext ik \<noteq> ''''"
    using extractKey_header[OF assms(3)] issued_plaintext_not_empty[OF assms(2)] by simp_all
  have "apikey_Verify memory_key_store now (Issued_Plaintext ik) s' =
      (if IsExpired now (Issued_Key ik) then Inl ErrExpiredKey else Inr (Issued_Key ik))"
    using keys.Issue_Verify[OF assms(1)] assms(2) by simp
  with raw Issue_Inr(1)[OF assms(2)] show ?thesis
    by (simp add: apikey_Middleware_def defaultErrHandler_def reply_def IsExpired_def time_Add_def
        time_After_def)
qed

lemma issued_key_opens_route_witness:
  "apikey_Middleware memory_key_store [] 110 (\<lambda>r. reply [RwWrite (apikey_SubjectFrom r)])
     (plain_request\<lparr>req_Header := [''X-Api-Key'' \<mapsto> [''sk_5'']]\<rparr>) (fst (Save apikey_NewMemoryStore sample_key)) =
   Ret (fst (Save apikey_NewMemoryStore sample_key), [RwWrite ''alice'']) \<and>
   apikey_Middleware memory_key_store [] 111 (\<lambda>r. reply [RwWrite (apikey_SubjectFrom r)])
     (plain_request\<lparr>req_Header := [''X-Api-Key'' \<mapsto> [''sk_5'']]\<rparr>) (fst (Save apikey_NewMemoryStore sample_key)) =
   Ret (fst (Save apikey_NewMemoryStore sample_key), unauthorized_calls)"
proof -
  let ?r = "plain_request\<lparr>req_Header := [''X-Api-Key'' \<mapsto> [''sk_5'']]\<rparr> :: apikey_MemoryStore http_Request"
  have h: "Header_Get (req_Header ?r) ''X-API-Key'' =
      Issued_Plaintext \<lparr>Issued_Plaintext = ''sk_5'', Issued_Key = sample_key\<rparr>"
    by (simp add: Header_Get_def)
  have "Key_Subject sample_key = ''alice''"
    by (simp add: sample_key_def new_key_def sample_options_def)
  moreover have "Issue_ExpiresIn sample_options = 10"
    by (simp add: sample_options_def)
  ultimately show ?thesis
    using issued_key_opens_route[OF apikey_invar_init sample_Issue h, of 110]
      issued_key_opens_route[OF apikey_invar_init sample_Issue h, of 111]
    by (simp add: apikey_SubjectFrom_def KeyFrom_def reply_def)
qed

end
