(* ===== verification/Float64.thy ===== *)
theory Float64
  imports Complex_Main Prelude
begin

text \<open>
  Go's \<open>float64\<close> as far as the library computes with it: finite values are rationals, rounded to
  53 significant bits, ties to even, after each operation. All numbers that occur are zero or
  between \<open>2 ^ -63\<close> and \<open>2 ^ 63\<close> in size, so neither overflow nor gradual underflow occurs
  and the exponent is left unbounded; the sign of zero is not kept, nothing depends on it.
\<close>

section \<open>Rounding\<close>

text \<open>The exponent of \<open>x > 0\<close>: \<open>2 powi expo x \<le> x < 2 powi (expo x + 1)\<close>.\<close>

definition expo :: "rat \<Rightarrow> int" where
  "expo x =
     (if 1 \<le> x then int (bit_length (nat \<lfloor>x\<rfloor>)) - 1
      else - int (bit_length (nat (\<lceil>1 / x\<rceil> - 1))))"

definition round_even :: "rat \<Rightarrow> int" where
  "round_even x =
     (let n = \<lfloor>x\<rfloor>; d = x - of_int n in
      if d < 1/2 \<or> (d = 1/2 \<and> even n) then n else n + 1)"

definition fl_pos :: "rat \<Rightarrow> rat" where
  "fl_pos x = (let u = 2 powi (expo x - 52) in of_int (round_even (x / u)) * u)"

definition fl :: "rat \<Rightarrow> rat" where
  "fl x = (if x = 0 then 0 else if 0 < x then fl_pos x else - fl_pos (- x))"

section \<open>Values\<close>

datatype float64 = Fin rat | PosInf | NegInf | NaN

definition float64_of_int :: "int \<Rightarrow> float64" where
  "float64_of_int i = Fin (fl (of_int i))"

fun float64_div :: "float64 \<Rightarrow> float64 \<Rightarrow> float64" where
  "float64_div (Fin x) (Fin y) =
     (if y \<noteq> 0 then Fin (fl (x / y))
      else if x = 0 then NaN else if 0 < x then PosInf else NegInf)"
| "float64_div (Fin x) PosInf = Fin 0"
| "float64_div (Fin x) NegInf = Fin 0"
| "float64_div PosInf (Fin y) = (if 0 \<le> y then PosInf else NegInf)"
| "float64_div NegInf (Fin y) = (if 0 \<le> y then NegInf else PosInf)"
| "float64_div _ _ = NaN"

fun float64_mult :: "float64 \<Rightarrow> float64 \<Rightarrow> float64" where
  "float64_mult (Fin x) (Fin y) = Fin (fl (x * y))"
| "float64_mult (Fin x) PosInf = (if x = 0 then NaN else if 0 < x then PosInf else NegInf)"
| "float64_mult (Fin x) NegInf = (if x = 0 then NaN else if 0 < x then NegInf else PosInf)"
| "float64_mult PosInf (Fin x) = (if x = 0 then NaN else if 0 < x then PosInf else NegInf)"
| "float64_mult NegInf (Fin x) = (if x = 0 then NaN else if 0 < x then NegInf else PosInf)"
| "float64_mult PosInf PosInf = PosInf"
| "float64_mult PosInf NegInf = NegInf"
| "float64_mult NegInf PosInf = NegInf"
| "float64_mult NegInf NegInf = PosInf"
| "float64_mult _ _ = NaN"

fun float64_negative :: "float64 \<Rightarrow> bool" where
  "float64_negative (Fin x) = (x < 0)"
| "float64_negative NegInf = True"
| "float64_negative _ = False"

text \<open>Truncation towards zero.\<close>

definition trunc :: "rat \<Rightarrow> int" where
  "trunc x = (if 0 \<le> x then \<lfloor>x\<rfloor> else \<lceil>x\<rceil>)"

text \<open>
  \<open>int64(x)\<close>: the result is left to the implementation when the value does not fit, or is none;
  the parameter \<open>impl\<close> is that choice.
\<close>

fun float64_to_int64 :: "(float64 \<Rightarrow> int64) \<Rightarrow> float64 \<Rightarrow> int64" where
  "float64_to_int64 impl (Fin x) = (if in_int64 (trunc x) then trunc x else impl (Fin x))"
| "float64_to_int64 impl v = impl v"

text \<open>
  \<open>d.Seconds()\<close>: the whole seconds and the rest are converted and added as floats.
  \<open>int64(d.Seconds())\<close> truncates the sum, which always fits.
\<close>

definition quot :: "int \<Rightarrow> int \<Rightarrow> int" where
  "quot a b = sgn a * (\<bar>a\<bar> div b)"

definition rest :: "int \<Rightarrow> int \<Rightarrow> int" where
  "rest a b = a - quot a b * b"

definition duration_Seconds :: "duration \<Rightarrow> rat" where
  "duration_Seconds d =
     fl (fl (of_int (quot d Second)) + fl (fl (of_int (rest d Second)) / 1000000000))"

definition duration_whole_seconds :: "duration \<Rightarrow> int" where
  "duration_whole_seconds d = trunc (duration_Seconds d)"

section \<open>The exponent\<close>

lemma bit_length_bounds: "0 < n \<Longrightarrow> 2 ^ (bit_length n - 1) \<le> n \<and> n < 2 ^ bit_length n \<and> 0 < bit_length n"
proof (induction n rule: bit_length.induct)
  case (1 n)
  show ?case
  proof (cases "n div 2 = 0")
    case True
    with 1 have "n = 1" by simp
    then show ?thesis by (simp add: bit_length.simps)
  next
    case False
    with 1 have ih: "2 ^ (bit_length (n div 2) - 1) \<le> n div 2" "n div 2 < 2 ^ bit_length (n div 2)"
      "0 < bit_length (n div 2)" by simp_all
    obtain k where k: "bit_length (n div 2) = Suc k"
      using ih(3) by (cases "bit_length (n div 2)") auto
    from 1 have "bit_length n = Suc (bit_length (n div 2))" by (subst bit_length.simps) simp
    with ih k show ?thesis by simp linarith
  qed
qed

lemma bit_length_0 [simp]: "bit_length 0 = 0"
  by (simp add: bit_length.simps)

lemma expo_bounds:
  assumes "0 < x"
  shows "2 powi expo x \<le> x" and "x < 2 powi (expo x + 1)"
proof -
  have "2 powi expo x \<le> x \<and> x < 2 powi (expo x + 1)"
  proof (cases "1 \<le> x")
    case True
    define n where "n = nat \<lfloor>x\<rfloor>"
    from True have n: "0 < n" "of_nat n \<le> x" "x < of_nat n + 1"
      by (simp_all add: n_def) linarith
    note b = bit_length_bounds[OF n(1)]
    obtain k where k: "bit_length n = Suc k" using b by (cases "bit_length n") auto
    have e: "expo x = int k" using True k by (simp add: expo_def n_def)
    have "(2::rat) ^ k \<le> of_nat n"
      using b k by (metis diff_Suc_1 of_nat_le_iff of_nat_numeral of_nat_power)
    moreover have "of_nat n + 1 \<le> (2::rat) ^ Suc k"
      using b k by (metis Suc_leI of_nat_Suc of_nat_le_iff of_nat_numeral of_nat_power add.commute)
    ultimately have "(2::rat) ^ k \<le> x" "x < 2 ^ Suc k" using n by linarith+
    moreover have "(2::rat) powi (int k + 1) = 2 ^ Suc k"
      by (metis of_nat_Suc power_int_of_nat add.commute)
    ultimately show ?thesis
      by (simp only: e power_int_of_nat)
  next
    case False
    define n where "n = nat (\<lceil>1 / x\<rceil> - 1)"
    have "1 < 1 / x" using assms False by simp
    then have c: "1 < \<lceil>1 / x\<rceil>" by linarith
    then have n: "0 < n" "of_nat n < 1 / x" "1 / x \<le> of_nat n + 1"
      unfolding n_def by (simp_all, linarith+)
    note b = bit_length_bounds[OF n(1)]
    obtain k where k: "bit_length n = Suc k" using b by (cases "bit_length n") auto
    have e: "expo x = - int (Suc k)" using False k by (simp add: expo_def n_def)
    have "(2::rat) ^ k \<le> of_nat n"
      using b k by (metis diff_Suc_1 of_nat_le_iff of_nat_numeral of_nat_power)
    with n have lo: "2 ^ k < 1 / x" by linarith
    have "of_nat n + 1 \<le> (2::rat) ^ Suc k"
      using b k by (metis Suc_leI of_nat_Suc of_nat_le_iff of_nat_numeral of_nat_power add.commute)
    with n have hi: "1 / x \<le> 2 ^ Suc k" by linarith
    from lo assms have "x < 1 / 2 ^ k" by (simp add: field_simps)
    moreover from hi assms have "1 / 2 ^ Suc k \<le> x" by (simp add: field_simps)
    moreover have "(2::rat) powi (- int (Suc k)) = 1 / 2 ^ Suc k"
      by (simp only: power_int_minus power_int_of_nat) (simp add: field_simps)
    moreover have "(2::rat) powi (- int (Suc k) + 1) = 1 / 2 ^ k"
    proof -
      have "- int (Suc k) + 1 = - int k" by simp
      then show ?thesis by (simp only: power_int_minus power_int_of_nat) (simp add: field_simps)
    qed
    ultimately show ?thesis using e by simp
  qed
  then show "2 powi expo x \<le> x" and "x < 2 powi (expo x + 1)" by simp_all
qed


lemma powi_less_cancel: "(2::rat) powi a < 2 powi b \<Longrightarrow> a < b"
  by (metis linorder_not_less one_le_numeral power_int_increasing)

lemma expo_mono:
  assumes "0 < x" "x \<le> y"
  shows "expo x \<le> expo y"
proof -
  have "2 powi expo x \<le> x" using expo_bounds assms by simp
  also have "x \<le> y" by fact
  also have "y < 2 powi (expo y + 1)" using expo_bounds assms by simp
  finally have "expo x < expo y + 1" by (rule powi_less_cancel)
  then show ?thesis by simp
qed

section \<open>Properties of rounding\<close>

lemma round_even_int [simp]: "round_even (of_int n) = n"
  by (simp add: round_even_def)

lemma round_even_mono: "x \<le> y \<Longrightarrow> round_even x \<le> round_even y"
proof -
  assume le: "x \<le> y"
  have up: "round_even z \<le> \<lfloor>z\<rfloor> + 1" "\<lfloor>z\<rfloor> \<le> round_even z" for z
    by (simp_all add: round_even_def Let_def)
  from le have "\<lfloor>x\<rfloor> \<le> \<lfloor>y\<rfloor>" by (rule floor_mono)
  show ?thesis
  proof (cases "\<lfloor>x\<rfloor> = \<lfloor>y\<rfloor>")
    case True
    with le show ?thesis by (auto simp: round_even_def Let_def)
  next
    case False
    with \<open>\<lfloor>x\<rfloor> \<le> \<lfloor>y\<rfloor>\<close> up[of x] up[of y] show ?thesis by linarith
  qed
qed

lemma round_even_ge: "of_int n \<le> x \<Longrightarrow> n \<le> round_even x"
  using round_even_mono[of "of_int n" x] by simp

lemma round_even_le: "x \<le> of_int n \<Longrightarrow> round_even x \<le> n"
  using round_even_mono[of x "of_int n"] by simp

lemma powi_pos [simp]: "0 < (2::rat) powi e"
  by (simp add: zero_less_power_int)

text \<open>A rounded number stays between the two powers of two around it.\<close>

lemma fl_pos_bounds:
  assumes "0 < x"
  shows "2 powi expo x \<le> fl_pos x" and "fl_pos x \<le> 2 powi (expo x + 1)"
proof -
  define u :: rat where "u = 2 powi (expo x - 52)"
  have u: "0 < u" by (simp add: u_def)
  have lo: "2 powi expo x = of_int (2 ^ 52) * u"
    using power_int_add[of "2::rat" "expo x - 52" 52] by (simp add: u_def)
  have hi: "2 powi (expo x + 1) = of_int (2 ^ 53) * u"
    using power_int_add[of "2::rat" "expo x - 52" 53] by (simp add: u_def ac_simps)
  have "of_int (2 ^ 52) \<le> x / u"
    using expo_bounds(1)[OF assms] u by (simp only: lo pos_le_divide_eq)
  then have "of_int (2 ^ 52) \<le> (of_int (round_even (x / u)) :: rat)"
    by (simp only: of_int_le_iff round_even_ge)
  moreover have "x / u \<le> of_int (2 ^ 53)"
    using expo_bounds(2)[OF assms] u by (simp only: hi pos_divide_le_eq less_imp_le)
  then have "(of_int (round_even (x / u)) :: rat) \<le> of_int (2 ^ 53)"
    by (simp only: of_int_le_iff round_even_le)
  ultimately show "2 powi expo x \<le> fl_pos x" and "fl_pos x \<le> 2 powi (expo x + 1)"
    using u unfolding lo hi fl_pos_def Let_def u_def[symmetric] by (simp_all only: mult_le_cancel_right_pos)
qed

lemma fl_pos_mono:
  assumes "0 < x" "x \<le> y"
  shows "fl_pos x \<le> fl_pos y"
proof (cases "expo x = expo y")
  case True
  have "x / 2 powi (expo y - 52) \<le> y / 2 powi (expo y - 52)"
    using assms(2) by (simp add: divide_right_mono less_imp_le)
  then have "round_even (x / 2 powi (expo y - 52)) \<le> round_even (y / 2 powi (expo y - 52))"
    by (rule round_even_mono)
  with True show ?thesis by (simp add: fl_pos_def Let_def)
next
  case False
  with expo_mono[OF assms] have "expo x + 1 \<le> expo y" by simp
  then have "(2::rat) powi (expo x + 1) \<le> 2 powi expo y"
    by (rule power_int_increasing) simp
  with fl_pos_bounds(2)[of x] fl_pos_bounds(1)[of y] assms show ?thesis by linarith
qed

lemma fl_pos_pos: "0 < x \<Longrightarrow> 0 < fl_pos x"
  using fl_pos_bounds(1)[of x] powi_pos[of "expo x"] by linarith

lemma fl_0 [simp]: "fl 0 = 0"
  by (simp add: fl_def)

lemma fl_minus: "fl (- x) = - fl x"
  by (simp add: fl_def)

lemma fl_mono: "x \<le> y \<Longrightarrow> fl x \<le> fl y"
proof -
  assume le: "x \<le> y"
  have pos: "0 < z \<Longrightarrow> 0 < fl z" for z using fl_pos_pos by (simp add: fl_def)
  have neg: "z < 0 \<Longrightarrow> fl z < 0" for z using fl_pos_pos[of "- z"] by (simp add: fl_def)
  consider "0 < x" | "y < 0" | "x \<le> 0" "0 \<le> y" by linarith
  then show ?thesis
  proof cases
    case 1 with le show ?thesis by (simp add: fl_def fl_pos_mono)
  next
    case 2 with le show ?thesis by (simp add: fl_def fl_pos_mono)
  next
    case 3 with pos[of y] neg[of x] show ?thesis by (cases "x = 0"; cases "y = 0") auto
  qed
qed

text \<open>Numbers of at most 53 significant bits are not changed.\<close>

lemma fl_exact:
  fixes m :: int
  assumes "\<bar>m\<bar> \<le> 2 ^ 53"
  shows "fl (of_int m * 2 powi e) = of_int m * 2 powi e"
proof -
  have pos: "fl_pos x = x" if "0 < n" "n \<le> 2 ^ 53" "x = of_int n * 2 powi e" for n :: int and x
  proof (cases "n = 2 ^ 53")
    case True
    have x: "x = 2 powi (53 + e)"
      using that(3) power_int_add[of "2::rat" 53 e] by (simp add: True)
    have "0 < x" by (simp add: x)
    have "expo x = 53 + e"
    proof -
      have "53 + e < expo x + 1" "expo x < 53 + e + 1"
        using expo_bounds[OF \<open>0 < x\<close>] powi_less_cancel[of "53 + e" "expo x + 1"]
          powi_less_cancel[of "expo x" "53 + e + 1"] power_int_strict_increasing[of "53 + e" "53 + e + 1" "2::rat"]
        by (simp_all add: x)
      then show ?thesis by simp
    qed
    moreover have "(2::rat) powi (53 + e) / 2 powi (53 + e - 52) = of_int (2 ^ 52)"
      using power_int_add[of "2::rat" 52 "53 + e - 52"] by simp
    ultimately show ?thesis
      using power_int_add[of "2::rat" 52 "53 + e - 52"]
      by (simp only: fl_pos_def Let_def x round_even_int) simp
  next
    case False
    with that have n: "0 < n" "n < 2 ^ 53" by auto
    have x0: "0 < x" using n that(3) by simp
    have "x < of_int (2 ^ 53) * 2 powi e" using n unfolding that(3) by (simp only: mult_less_cancel_right_pos powi_pos of_int_less_iff)
    also have "\<dots> = 2 powi (53 + e)" using power_int_add[of "2::rat" 53 e] by simp
    finally have "expo x < 53 + e"
      using expo_bounds(1)[OF x0] powi_less_cancel[of "expo x" "53 + e"] by linarith
    then obtain k where k: "e = expo x - 52 + int k"
      using zle_iff_zadd[of "expo x - 52" e] by auto
    have "(2::rat) powi e = 2 powi (expo x - 52) * 2 powi int k"
      by (subst k) (rule power_int_add, simp)
    then have "(2::rat) powi e = 2 powi (expo x - 52) * 2 ^ k"
      by (simp only: power_int_of_nat)
    then have "x = of_int (n * 2 ^ k) * 2 powi (expo x - 52)"
      using that(3) by (simp only: of_int_mult of_int_power of_int_numeral ac_simps)
    then have "x / 2 powi (expo x - 52) = of_int (n * 2 ^ k)"
      by (metis nonzero_eq_divide_eq powi_pos less_numeral_extra(3))
    with \<open>x = of_int (n * 2 ^ k) * 2 powi (expo x - 52)\<close> show ?thesis
      unfolding fl_pos_def Let_def by (metis round_even_int)
  qed
  consider "m = 0" | "0 < m" | "m < 0" by linarith
  then show ?thesis
  proof cases
    case 2
    with assms pos[of m] show ?thesis by (simp add: fl_def)
  next
    case 3
    have "of_int m * 2 powi e < (0::rat)"
      using 3 by (simp add: mult_neg_pos)
    with 3 assms pos[of "- m"] show ?thesis by (simp add: fl_def)
  qed simp
qed

lemma fl_int: "\<bar>m\<bar> \<le> 2 ^ 53 \<Longrightarrow> fl (of_int m) = of_int m"
  using fl_exact[of m 0] by simp

lemma fl_1 [simp]: "fl 1 = 1"
  using fl_int[of 1] by simp


lemma trunc_int [simp]: "trunc (of_int n) = n"
  by (simp add: trunc_def)

lemma trunc_scaled:
  assumes "0 \<le> p" "p \<le> 2 ^ 53" "0 \<le> f" "f \<le> 1"
  shows "0 \<le> trunc (fl (of_int p * f))" and "trunc (fl (of_int p * f)) \<le> p"
proof -
  have "0 \<le> fl (of_int p * f)"
    using fl_mono[of 0 "of_int p * f"] assms by simp
  moreover have "of_int p * f \<le> (of_int p :: rat)"
    using assms by (simp add: mult_left_le)
  then have "fl (of_int p * f) \<le> of_int p"
    using fl_mono[of "of_int p * f" "of_int p"] fl_int[of p] assms by simp
  ultimately show "0 \<le> trunc (fl (of_int p * f))" and "trunc (fl (of_int p * f)) \<le> p"
    by (simp_all add: trunc_def floor_le_iff)
qed

text \<open>
  Whole seconds are exact; so is the truncation of any duration below \<open>2 ^ 23\<close> seconds, about 97
  days. (Above, the fraction of a duration just short of a second may be rounded up.)
\<close>

lemma seconds_whole:
  assumes "\<bar>n\<bar> \<le> 2 ^ 53"
  shows "duration_whole_seconds (n * Second) = n"
proof -
  have "quot (n * Second) Second = n"
    by (simp add: quot_def abs_mult sgn_mult Second_def mult_sgn_abs)
  with assms show ?thesis
    by (simp add: duration_whole_seconds_def duration_Seconds_def rest_def fl_int)
qed

lemma seconds_trunc:
  assumes "0 \<le> d" and "d div Second < 2 ^ 23"
  shows "duration_whole_seconds d = d div Second"
proof -
  define s r where "s = d div Second" and "r = d mod Second"
  have q: "quot d Second = s" "rest d Second = r" and s: "0 \<le> s" "s < 2 ^ 23" and r: "0 \<le> r" "r \<le> 999999999"
    using assms pos_mod_bound[of Second d]
    by (auto simp: quot_def rest_def s_def r_def sgn_if minus_mult_div_eq_mod Second_def
        minus_div_mult_eq_mod)
  let ?f = "fl (of_int r / 1000000000)"
  have f0: "0 \<le> ?f" using fl_mono[of 0 "of_int r / 1000000000"] r by simp
  have "of_int r / 1000000000 \<le> (of_int (2 ^ 30 - 1) * 2 powi (- 30) :: rat)"
  proof -
    have "(of_int r :: rat) \<le> 999999999" using r by linarith
    then show ?thesis by (simp add: power_int_minus)
  qed
  from fl_mono[OF this] have f1: "?f \<le> of_int (2 ^ 30 - 1) * 2 powi (- 30)"
    by (subst (asm) fl_exact) simp_all
  have "of_int s + ?f \<le> of_int ((s + 1) * 2 ^ 30 - 1) * 2 powi (- 30)"
    using f1 by (simp add: power_int_minus field_simps)
  from fl_mono[OF this] have "fl (of_int s + ?f) \<le> of_int ((s + 1) * 2 ^ 30 - 1) * 2 powi (- 30)"
    using s by (subst (asm) fl_exact) simp_all
  also have "\<dots> < of_int (s + 1)" by (simp add: power_int_minus field_simps)
  finally have hi: "fl (of_int s + ?f) < of_int s + 1" by simp
  have lo: "of_int s \<le> fl (of_int s + ?f)"
    using fl_mono[of "of_int s" "of_int s + ?f"] fl_int[of s] s f0 by simp
  have "duration_whole_seconds d = trunc (fl (of_int s + ?f))"
    using s r by (simp add: duration_whole_seconds_def duration_Seconds_def q fl_int)
  also have "\<dots> = s"
  proof -
    have "0 \<le> fl (of_int s + ?f)" using lo s by linarith
    with lo hi show ?thesis by (simp add: trunc_def floor_eq_iff)
  qed
  finally show ?thesis by (simp add: s_def)
qed

end
