(* ===== verification/RateLimit.thy ===== *)
theory RateLimit
  imports Float64 AuthMiddleware
begin

text \<open>
  The package \<open>ratelimit\<close>: the sliding-window bucket and the in-memory store of
  \<open>ratelimit/store.go\<close>, the middleware and the key functions of \<open>ratelimit/ratelimit.go\<close>. All
  64-bit arithmetic wraps; the estimate is computed in \<open>float64\<close> as in the source.
\<close>

section \<open>Buckets\<close>

record bucket =
  prev :: int64
  curr :: int64
  windowStart :: time
  window :: duration

definition new_bucket :: "time \<Rightarrow> duration \<Rightarrow> bucket" where
  "new_bucket now w = \<lparr>prev = 0, curr = 0, windowStart = now, window = w\<rparr>"

text \<open>The switch of \<open>inc\<close> on the time since the window began.\<close>

definition advance :: "duration \<Rightarrow> time \<Rightarrow> bucket \<Rightarrow> bucket" where
  "advance elapsed now b =
     (if wrap64 (2 * window b) \<le> elapsed then b\<lparr>prev := 0, curr := 1, windowStart := now\<rparr>
      else if window b \<le> elapsed
      then b\<lparr>prev := curr b, curr := 1, windowStart := time_Add (windowStart b) (window b)\<rparr>
      else b\<lparr>curr := wrap64 (curr b + 1)\<rparr>)"

text \<open>\<open>elapsed\<close> is computed before the switch and not again after the window has moved.\<close>

definition weight :: "duration \<Rightarrow> bucket \<Rightarrow> float64" where
  "weight elapsed b =
     (let fraction = float64_div (float64_of_int (wrap64 (window b - elapsed))) (float64_of_int (window b))
      in if float64_negative fraction then Fin 0 else fraction)"

definition inc :: "(float64 \<Rightarrow> int64) \<Rightarrow> time \<Rightarrow> bucket \<Rightarrow> bucket \<times> int64" where
  "inc impl now b =
     (let elapsed = time_Sub now (windowStart b);
          b' = advance elapsed now b
      in (b', wrap64 (float64_to_int64 impl (float64_mult (float64_of_int (prev b')) (weight elapsed b')) + curr b')))"

section \<open>The in-memory store\<close>

type_synonym ratelimit_MemoryStore = "string \<rightharpoonup> bucket"

definition ratelimit_NewMemoryStore :: ratelimit_MemoryStore where
  "ratelimit_NewMemoryStore = Map.empty"

text \<open>\<open>t1\<close> is the clock when a missing bucket is made, \<open>t2\<close> when it is incremented.\<close>

definition Inc ::
  "(float64 \<Rightarrow> int64) \<Rightarrow> time \<Rightarrow> time \<Rightarrow> string \<Rightarrow> duration \<Rightarrow> ratelimit_MemoryStore \<Rightarrow>
     ratelimit_MemoryStore \<times> (string + int64)" where
  "Inc impl t1 t2 key w s =
     (let b = (case s key of Some b \<Rightarrow> b | None \<Rightarrow> new_bucket t1 w);
          (b', count) = inc impl t2 b
      in (s(key \<mapsto> b'), Inr count))"

definition Reset :: "string \<Rightarrow> ratelimit_MemoryStore \<Rightarrow> ratelimit_MemoryStore \<times> string option" where
  "Reset key s = (s(key := None), None)"

section \<open>The middleware\<close>

text \<open>\<open>xff[:i]\<close> at the first comma, by the loop of \<open>remoteIP\<close>.\<close>

fun before_comma :: "string \<Rightarrow> string option" where
  "before_comma [] = None"
| "before_comma (c # cs) = (if c = CHR '','' then Some [] else map_option ((#) c) (before_comma cs))"

definition remoteIP :: "'w http_Request \<Rightarrow> string" where
  "remoteIP r =
     (let xff = Header_Get (req_Header r) ''X-Forwarded-For'' in
      if xff \<noteq> '''' then (case before_comma xff of Some ip \<Rightarrow> ip | None \<Rightarrow> xff)
      else case SplitHostPort (req_RemoteAddr r) of None \<Rightarrow> req_RemoteAddr r | Some host \<Rightarrow> host)"

type_synonym 'w LimitHandler = "'w http_Request \<Rightarrow> time \<Rightarrow> 'w \<Rightarrow> ('w \<times> rw_call list) outcome"

record 'w ratelimit_Config =
  Limit :: int64
  Window :: duration
  KeyFn :: "('w http_Request \<Rightarrow> string) option"
  OnLimited :: "'w LimitHandler option"

definition Per :: "int64 \<Rightarrow> duration \<Rightarrow> 'w ratelimit_Config" where
  "Per requests w = \<lparr>Limit = requests, Window = w, KeyFn = None, OnLimited = None\<rparr>"

definition ByIP :: "'w http_Request \<Rightarrow> string" where
  "ByIP r = remoteIP r"

definition BySubject :: "('w http_Request \<Rightarrow> string) \<Rightarrow> 'w http_Request \<Rightarrow> string" where
  "BySubject subjectFn r = (let s = subjectFn r in if s \<noteq> '''' then ''subject:'' @ s else remoteIP r)"

definition ByRoute :: "'w http_Request \<Rightarrow> string" where
  "ByRoute r = remoteIP r @ '':'' @ req_Path r"

definition defaultOnLimited :: "'w LimitHandler" where
  "defaultOnLimited r reset =
     reply [RwSet ''Content-Type'' ''application/json'', RwWriteHeader 429,
            RwWrite ([CHR 0x7B] @ quoted ''error'' @ '':'' @ quoted ''rate limit exceeded'' @ '','' @
                     quoted ''reset'' @ '':'' @ FormatInt (time_Unix reset) @ [CHR 0x7D])]"

text \<open>
  \<open>incr\<close> is the \<open>Inc\<close> method of the store on its part of the state; \<open>t\<close> the clock after it. An
  error of the store comes with some count.
\<close>

definition limit_headers :: "'w ratelimit_Config \<Rightarrow> int64 \<Rightarrow> time \<Rightarrow> rw_call list" where
  "limit_headers cfg count reset =
     (let remaining = wrap64 (Limit cfg - count);
          remaining' = (if remaining < 0 then 0 else remaining)
      in [RwSet ''X-RateLimit-Limit'' (FormatInt (Limit cfg)),
          RwSet ''X-RateLimit-Remaining'' (FormatInt remaining'),
          RwSet ''X-RateLimit-Reset'' (FormatInt (time_Unix reset))])"

definition ratelimit_New ::
  "(string \<Rightarrow> duration \<Rightarrow> 'w \<Rightarrow> 'w \<times> int64 \<times> string option) \<Rightarrow> 'w ratelimit_Config \<Rightarrow> time \<Rightarrow>
     'w Handler \<Rightarrow> 'w Handler" where
  "ratelimit_New incr cfg t nextH r w =
     (let keyFn = (case KeyFn cfg of None \<Rightarrow> remoteIP | Some f \<Rightarrow> f);
          onLimited = (case OnLimited cfg of None \<Rightarrow> defaultOnLimited | Some f \<Rightarrow> f)
      in case incr (keyFn r) (Window cfg) w of
           (w', count, err) \<Rightarrow>
             (let reset = time_Add t (Window cfg) in
              if err \<noteq> None \<or> Limit cfg < count
              then and_then
                     (limit_headers cfg count reset @
                      [RwSet ''Retry-After'' (FormatInt (duration_whole_seconds (Window cfg)))])
                     (onLimited r reset w')
              else and_then (limit_headers cfg count reset) (nextH r w')))"

text \<open>The in-memory store as the store of the middleware.\<close>

definition memory_incr ::
  "(float64 \<Rightarrow> int64) \<Rightarrow> time \<Rightarrow> time \<Rightarrow> string \<Rightarrow> duration \<Rightarrow> ratelimit_MemoryStore \<Rightarrow>
     ratelimit_MemoryStore \<times> int64 \<times> string option" where
  "memory_incr impl t1 t2 key w s =
     (case Inc impl t1 t2 key w s of
        (s', Inr count) \<Rightarrow> (s', count, None)
      | (s', Inl err) \<Rightarrow> (s', 0, Some err))"


section \<open>One increment\<close>

text \<open>
  Counters in the range where floats are exact, and a window that doubles without overflow (below
  146 years).
\<close>

definition good_bucket :: "bucket \<Rightarrow> bool" where
  "good_bucket b \<longleftrightarrow> 0 \<le> prev b \<and> prev b < 2 ^ 52 \<and> 0 \<le> curr b \<and> curr b < 2 ^ 52 \<and>
     0 < window b \<and> window b < 2 ^ 62"

lemma good_new_bucket: "0 < w \<Longrightarrow> w < 2 ^ 62 \<Longrightarrow> good_bucket (new_bucket t w)"
  by (simp add: good_bucket_def new_bucket_def)

lemma sat64_bounds:
  "0 \<le> e \<Longrightarrow> b < 2 ^ 63 \<Longrightarrow> (b \<le> sat64 e \<longleftrightarrow> b \<le> e)" "0 \<le> e \<Longrightarrow> 0 \<le> sat64 e"
  by (auto simp: int64_defs)

lemma small_int64: "wrap64 1 = 1" "in_int64 0"
  by (simp_all add: int64_defs)

lemma inc_stale:
  assumes "good_bucket b" "windowStart b + 2 * window b \<le> now"
  shows "inc impl now b = (b\<lparr>prev := 0, curr := 1, windowStart := now\<rparr>, 1)"
proof -
  have "wrap64 (2 * window b) = 2 * window b"
    using assms(1) by (simp add: good_bucket_def int64_defs)
  moreover have "2 * window b \<le> sat64 (now - windowStart b)"
    using assms sat64_bounds(1)[of "now - windowStart b" "2 * window b"] by (simp add: good_bucket_def)
  ultimately have adv: "advance (sat64 (now - windowStart b)) now b = b\<lparr>prev := 0, curr := 1, windowStart := now\<rparr>"
    by (simp add: advance_def)
  have "\<exists>x. weight (sat64 (now - windowStart b)) (b\<lparr>prev := 0, curr := 1, windowStart := now\<rparr>) = Fin x"
  proof -
    have "fl (of_int (window b)) \<noteq> 0"
      using assms(1) fl_mono[of 1 "of_int (window b)"] by (auto simp: good_bucket_def)
    then show ?thesis by (simp add: weight_def float64_of_int_def Let_def)
  qed
  then obtain x where "weight (sat64 (now - windowStart b)) (b\<lparr>prev := 0, curr := 1, windowStart := now\<rparr>) = Fin x" ..
  then show ?thesis
    by (simp add: inc_def time_Sub_def adv Let_def float64_of_int_def trunc_def small_int64)
qed

lemma weight_expired:
  assumes "0 < window b" "window b < 2 ^ 62" "window b \<le> e" "e < 2 ^ 63"
  shows "weight e b = Fin 0"
proof -
  have fw: "0 < fl (of_int (window b))"
    using assms(1) fl_mono[of 1 "of_int (window b)"] by simp
  have "wrap64 (window b - e) = window b - e"
    using assms by (simp add: int64_defs)
  moreover have "fl (of_int (window b - e)) \<le> 0"
    using fl_mono[of "of_int (window b - e)" 0] assms by simp
  with fw have "fl (of_int (window b - e)) / fl (of_int (window b)) \<le> 0"
    by (simp add: divide_nonpos_pos)
  then have "fl (fl (of_int (window b - e)) / fl (of_int (window b))) \<le> 0"
    using fl_mono[of _ 0] by simp
  ultimately show ?thesis
    using fw by (auto simp: weight_def float64_of_int_def Let_def)
qed

lemma inc_rollover:
  assumes "good_bucket b" "windowStart b + window b \<le> now" "now < windowStart b + 2 * window b"
  shows "inc impl now b =
    (b\<lparr>prev := curr b, curr := 1, windowStart := windowStart b + window b\<rparr>, 1)"
proof -
  let ?e = "now - windowStart b" and ?b = "b\<lparr>prev := curr b, curr := 1, windowStart := windowStart b + window b\<rparr>"
  have e: "sat64 ?e = ?e" "window b \<le> ?e" "?e < 2 ^ 63"
    using assms by (auto simp: good_bucket_def int64_defs)
  have "wrap64 (2 * window b) = 2 * window b"
    using assms(1) by (simp add: good_bucket_def int64_defs)
  then have adv: "advance ?e now b = ?b"
    using assms by (simp add: advance_def time_Add_def)
  have "weight ?e ?b = Fin 0"
    using weight_expired[of ?b ?e] assms(1) e by (simp add: good_bucket_def)
  then show ?thesis
    by (simp add: inc_def time_Sub_def adv e(1) Let_def float64_of_int_def trunc_def small_int64)
qed

text \<open>The weight of the previous window while the current one lasts.\<close>

definition fraction :: "duration \<Rightarrow> duration \<Rightarrow> rat" where
  "fraction e w = fl (fl (of_int (w - e)) / fl (of_int w))"

lemma fraction_range:
  assumes "0 < w" "0 \<le> e" "e \<le> w"
  shows "0 \<le> fraction e w" "fraction e w \<le> 1"
proof -
  have fw: "0 < fl (of_int w)" using assms(1) fl_mono[of 1 "of_int w"] by simp
  have d: "0 \<le> fl (of_int (w - e))" "fl (of_int (w - e)) \<le> fl (of_int w)"
    using assms fl_mono[of 0 "of_int (w - e)"] fl_mono[of "of_int (w - e)" "of_int w"] by simp_all
  then have "0 \<le> fl (of_int (w - e)) / fl (of_int w)" "fl (of_int (w - e)) / fl (of_int w) \<le> 1"
    using fw by simp_all
  then show "0 \<le> fraction e w" "fraction e w \<le> 1"
    using fl_mono[of 0] fl_mono[of _ 1] by (simp_all add: fraction_def)
qed

lemma inc_current:
  assumes "good_bucket b" "windowStart b \<le> now" "now < windowStart b + window b"
  shows "inc impl now b =
    (b\<lparr>curr := curr b + 1\<rparr>,
     trunc (fl (of_int (prev b) * fraction (now - windowStart b) (window b))) + curr b + 1)"
    and "0 \<le> trunc (fl (of_int (prev b) * fraction (now - windowStart b) (window b)))"
    and "trunc (fl (of_int (prev b) * fraction (now - windowStart b) (window b))) \<le> prev b"
proof -
  let ?e = "now - windowStart b" and ?w = "window b"
  let ?x = "trunc (fl (of_int (prev b) * fraction ?e ?w))"
  have e: "sat64 ?e = ?e" "0 \<le> ?e" "?e < ?w" "wrap64 (?w - ?e) = ?w - ?e"
    using assms by (auto simp: good_bucket_def int64_defs)
  have w: "0 < ?w" using assms(1) by (simp add: good_bucket_def)
  have f: "0 \<le> fraction ?e ?w" "fraction ?e ?w \<le> 1" using fraction_range[OF w] e by simp_all
  have fw: "fl (of_int ?w) \<noteq> 0" using w fl_mono[of 1 "of_int ?w"] by auto
  show x: "0 \<le> ?x" "?x \<le> prev b"
    using trunc_scaled[of "prev b" "fraction ?e ?w"] assms(1) f by (simp_all add: good_bucket_def)
  have "wrap64 (curr b + 1) = curr b + 1"
    using assms(1) by (simp add: good_bucket_def int64_defs)
  then have adv: "advance ?e now b = b\<lparr>curr := curr b + 1\<rparr>"
    using assms e by (simp add: advance_def good_bucket_def int64_defs)
  have wt: "weight ?e (b\<lparr>curr := curr b + 1\<rparr>) = Fin (fraction ?e ?w)"
    using f(1) fw e(4) by (simp add: weight_def float64_of_int_def fraction_def Let_def)
  have p: "fl (of_int (prev b)) = of_int (prev b)"
    using assms(1) by (intro fl_int) (simp add: good_bucket_def)
  have "in_int64 ?x" "in_int64 (?x + (curr b + 1))"
    using x assms(1) by (auto simp: good_bucket_def int64_defs)
  then show "inc impl now b = (b\<lparr>curr := curr b + 1\<rparr>, ?x + curr b + 1)"
    by (simp add: inc_def time_Sub_def adv e(1) Let_def float64_of_int_def p wt add.assoc)
qed

section \<open>Runs of increments\<close>

text \<open>The increments of one bucket at the given times: time, bucket afterwards and count.\<close>

fun inc_trace :: "(float64 \<Rightarrow> int64) \<Rightarrow> bucket \<Rightarrow> time list \<Rightarrow> (time \<times> bucket \<times> int64) list" where
  "inc_trace impl b [] = []"
| "inc_trace impl b (t # ts) =
     (let (b', n) = inc impl t b in (t, b', n) # inc_trace impl b' ts)"

text \<open>What an increment at a time not before the window's start does to the bucket.\<close>

lemma inc_window:
  assumes "good_bucket b" "windowStart b \<le> now" "inc impl now b = (b', n)"
  shows "windowStart b' \<le> now" "now < windowStart b' + window b'" "window b' = window b"
    and "curr b' \<le> n"
    and "windowStart b' = windowStart b \<and> curr b' = curr b + 1 \<and> prev b' = prev b \<or>
         windowStart b + window b \<le> windowStart b' \<and> curr b' = 1 \<and> prev b' \<in> {0, curr b}"
proof -
  have w: "0 < window b" using assms(1) by (simp add: good_bucket_def)
  consider "now < windowStart b + window b"
    | "windowStart b + window b \<le> now" "now < windowStart b + 2 * window b"
    | "windowStart b + 2 * window b \<le> now" by linarith
  then have "windowStart b' \<le> now \<and> now < windowStart b' + window b' \<and> window b' = window b \<and> curr b' \<le> n \<and>
      (windowStart b' = windowStart b \<and> curr b' = curr b + 1 \<and> prev b' = prev b \<or>
       windowStart b + window b \<le> windowStart b' \<and> curr b' = 1 \<and> prev b' \<in> {0, curr b})"
  proof cases
    case 1
    from inc_current(1)[OF assms(1,2) 1, of impl] inc_current(2)[OF assms(1,2) 1] assms(2,3) 1
    show ?thesis by auto
  next
    case 2
    from inc_rollover[OF assms(1) 2, of impl] assms(3) 2 show ?thesis by auto
  next
    case 3
    from inc_stale[OF assms(1) 3, of impl] assms(3) 3 w show ?thesis by auto
  qed
  then show "windowStart b' \<le> now" "now < windowStart b' + window b'" "window b' = window b"
    and "curr b' \<le> n"
    and "windowStart b' = windowStart b \<and> curr b' = curr b + 1 \<and> prev b' = prev b \<or>
         windowStart b + window b \<le> windowStart b' \<and> curr b' = 1 \<and> prev b' \<in> {0, curr b}"
    by blast+
qed


text \<open>Room for \<open>n\<close> more increments.\<close>

definition roomy :: "bucket \<Rightarrow> nat \<Rightarrow> bool" where
  "roomy b n \<longleftrightarrow> good_bucket b \<and> curr b + int n < 2 ^ 52"

lemma roomy_good: "roomy b n \<Longrightarrow> good_bucket b"
  by (simp add: roomy_def)

lemma roomy_step:
  assumes "roomy b (Suc n)" "windowStart b \<le> now" "inc impl now b = (b', c)"
  shows "roomy b' n"
  using inc_window[OF roomy_good[OF assms(1)] assms(2,3)] assms(1)
  by (auto simp: roomy_def good_bucket_def)

abbreviation entry_start :: "time \<times> bucket \<times> int64 \<Rightarrow> time" where
  "entry_start x \<equiv> windowStart (fst (snd x))"

lemma trace_windows:
  assumes "roomy b (length ts)" "sorted (windowStart b # ts)" "x \<in> set (inc_trace impl b ts)"
  shows "entry_start x \<le> fst x" "fst x < entry_start x + window b"
    and "entry_start x = windowStart b \<or> windowStart b + window b \<le> entry_start x"
proof -
  have "entry_start x \<le> fst x \<and> fst x < entry_start x + window b \<and>
      (entry_start x = windowStart b \<or> windowStart b + window b \<le> entry_start x)"
    using assms
  proof (induction ts arbitrary: b)
    case (Cons t ts)
    obtain b' c where i: "inc impl t b = (b', c)" by fastforce
    have t: "windowStart b \<le> t" using Cons.prems(2) by simp
    have room: "roomy b (Suc (length ts))" using Cons.prems(1) by simp
    note w = inc_window[OF roomy_good[OF room] t i]
    have s: "sorted (windowStart b' # ts)"
      using Cons.prems(2) w(1) by auto
    have w0: "0 < window b" using room by (simp add: roomy_def good_bucket_def)
    show ?case
    proof (cases "x = (t, b', c)")
      case True
      with w show ?thesis by auto
    next
      case False
      with Cons.prems(3) i have "x \<in> set (inc_trace impl b' ts)" by simp
      from Cons.IH[OF roomy_step[OF room t i] s this] w w0 show ?thesis by auto
    qed
  qed simp
  then show "entry_start x \<le> fst x" "fst x < entry_start x + window b"
    and "entry_start x = windowStart b \<or> windowStart b + window b \<le> entry_start x" by blast+
qed

lemma trace_separated:
  assumes "roomy b (length ts)" "sorted (windowStart b # ts)"
    and "x \<in> set (inc_trace impl b ts)" "y \<in> set (inc_trace impl b ts)"
  shows "entry_start x = entry_start y \<or> window b \<le> \<bar>entry_start x - entry_start y\<bar>"
  using assms
proof (induction ts arbitrary: b)
  case (Cons t ts)
  obtain b' c where i: "inc impl t b = (b', c)" by fastforce
  have t: "windowStart b \<le> t" using Cons.prems(2) by simp
  have room: "roomy b (Suc (length ts))" using Cons.prems(1) by simp
  note w = inc_window[OF roomy_good[OF room] t i]
  have s: "sorted (windowStart b' # ts)"
    using Cons.prems(2) w(1) by auto
  note room' = roomy_step[OF room t i]
  have rel: "entry_start z = windowStart b' \<or> windowStart b' + window b \<le> entry_start z"
    if "z \<in> set (inc_trace impl b (t # ts))" for z
    using that i trace_windows(3)[OF room' s, of z impl] w(3) by auto
  show ?case
  proof (cases "x = (t, b', c) \<or> y = (t, b', c)")
    case True
    with rel[OF Cons.prems(3)] rel[OF Cons.prems(4)] show ?thesis by auto
  next
    case False
    with Cons.prems(3,4) i have "x \<in> set (inc_trace impl b' ts)" "y \<in> set (inc_trace impl b' ts)" by auto
    from Cons.IH[OF room' s this] w(3) show ?thesis by simp
  qed
qed simp

text \<open>Per window, at most \<open>limit\<close> increments see a count within the limit.\<close>

definition allowed :: "int64 \<Rightarrow> time \<times> bucket \<times> int64 \<Rightarrow> bool" where
  "allowed limit x \<longleftrightarrow> snd (snd x) \<le> limit"

lemma allowed_per_window:
  assumes "roomy b (length ts)" "sorted (windowStart b # ts)"
  shows "int (length (filter (\<lambda>x. entry_start x = v \<and> allowed limit x) (inc_trace impl b ts)))
     \<le> (if v = windowStart b then max 0 (limit - curr b) else max 0 limit)"
  using assms
proof (induction ts arbitrary: b)
  case Nil
  then show ?case by simp
next
  case (Cons t ts)
  obtain b' c where i: "inc impl t b = (b', c)" by fastforce
  have t: "windowStart b \<le> t" using Cons.prems(2) by simp
  have room: "roomy b (Suc (length ts))" using Cons.prems(1) by simp
  have c0: "0 \<le> curr b" "0 < window b" using room by (auto simp: roomy_def good_bucket_def)
  note w = inc_window[OF roomy_good[OF room] t i]
  have s: "sorted (windowStart b' # ts)"
    using Cons.prems(2) w(1) by auto
  note room' = roomy_step[OF room t i]
  note ih = Cons.IH[OF room' s]
  let ?rest = "filter (\<lambda>x. entry_start x = v \<and> allowed limit x) (inc_trace impl b' ts)"
  have len: "int (length (filter (\<lambda>x. entry_start x = v \<and> allowed limit x) (inc_trace impl b (t # ts)))) =
      (if windowStart b' = v \<and> c \<le> limit then 1 else 0) + int (length ?rest)"
    using i by (simp add: allowed_def)
  show ?case
  proof (cases "windowStart b' = windowStart b")
    case True
    with w(5) c0 have "curr b' = curr b + 1" by auto
    with ih w(4) True len show ?thesis by (auto split: if_splits)
  next
    case False
    with w(5) have new: "windowStart b + window b \<le> windowStart b'" "curr b' = 1" by auto
    show ?thesis
    proof (cases "v = windowStart b")
      case True
      have "?rest = []"
        unfolding filter_empty_conv
      proof (intro ballI notI)
        fix x assume "x \<in> set (inc_trace impl b' ts)" "entry_start x = v \<and> allowed limit x"
        with trace_windows(3)[OF room' s this(1)] True new(1) c0(2) w(3) show False by linarith
      qed
      with len True False show ?thesis by simp
    next
      case False
      with ih w(4) new len show ?thesis by (auto split: if_splits)
    qed
  qed
qed

text \<open>Starts that are pairwise a window apart and within two windows are at most two.\<close>

lemma at_most_two:
  fixes S :: "int set"
  assumes "finite S" "\<And>x y. x \<in> S \<Longrightarrow> y \<in> S \<Longrightarrow> x = y \<or> w \<le> \<bar>x - y\<bar>"
    and "\<And>x. x \<in> S \<Longrightarrow> s - w < x \<and> x < s + w" and "0 < w"
  obtains v1 v2 where "S \<subseteq> {v1, v2}"
proof (cases "S = {}")
  case True
  then show ?thesis using that by blast
next
  case False
  have "S \<subseteq> {Min S, Max S}"
  proof
    fix x assume x: "x \<in> S"
    have "Min S \<in> S" "Max S \<in> S" using assms(1) False by simp_all
    with assms(2)[OF x \<open>Min S \<in> S\<close>] assms(2)[OF x \<open>Max S \<in> S\<close>] assms(3)[of "Min S"] assms(3)[of "Max S"]
      Min_le[OF assms(1) x] Max_ge[OF assms(1) x]
    show "x \<in> {Min S, Max S}" by auto
  qed
  then show ?thesis using that by blast
qed

lemma length_filter_two:
  assumes "\<And>x. x \<in> set xs \<Longrightarrow> P x \<Longrightarrow> f x = v1 \<or> f x = v2"
  shows "length (filter (\<lambda>x. P x \<and> Q x) xs) \<le>
    length (filter (\<lambda>x. f x = v1 \<and> Q x) xs) + length (filter (\<lambda>x. f x = v2 \<and> Q x) xs)"
  using assms
proof (induction xs)
  case (Cons x xs)
  from Cons.IH Cons.prems have "length (filter (\<lambda>x. P x \<and> Q x) xs) \<le>
      length (filter (\<lambda>x. f x = v1 \<and> Q x) xs) + length (filter (\<lambda>x. f x = v2 \<and> Q x) xs)" by simp
  moreover have "P x \<longrightarrow> f x = v1 \<or> f x = v2" using Cons.prems by simp
  ultimately show ?case by auto
qed simp

lemma allowed_in_interval:
  assumes "roomy b (length ts)" "sorted (windowStart b # ts)" "0 \<le> limit"
  shows "int (length (filter (\<lambda>x. (s \<le> fst x \<and> fst x < s + window b) \<and> allowed limit x) (inc_trace impl b ts)))
    \<le> 2 * limit"
proof -
  let ?tr = "inc_trace impl b ts" and ?in = "\<lambda>x :: time \<times> bucket \<times> int64. s \<le> fst x \<and> fst x < s + window b"
  have w: "0 < window b" and c: "0 \<le> curr b" using assms(1) by (auto simp: roomy_def good_bucket_def)
  let ?S = "entry_start ` set (filter ?in ?tr)"
  obtain v1 v2 where v: "?S \<subseteq> {v1, v2}"
  proof (rule at_most_two[of ?S "window b" s])
    show "x = y \<or> window b \<le> \<bar>x - y\<bar>" if "x \<in> ?S" "y \<in> ?S" for x y
      using that trace_separated[OF assms(1,2)] by fastforce
    show "s - window b < x \<and> x < s + window b" if "x \<in> ?S" for x
      using that trace_windows(1,2)[OF assms(1,2)] by fastforce
  qed (use w in auto)
  have le: "int (length (filter (\<lambda>x. entry_start x = v \<and> allowed limit x) ?tr)) \<le> limit" for v
    using allowed_per_window[OF assms(1,2), of v limit impl] assms(3) c by (auto split: if_splits)
  have "length (filter (\<lambda>x. ?in x \<and> allowed limit x) ?tr) \<le>
      length (filter (\<lambda>x. entry_start x = v1 \<and> allowed limit x) ?tr) +
      length (filter (\<lambda>x. entry_start x = v2 \<and> allowed limit x) ?tr)"
    by (rule length_filter_two) (use v in auto)
  with le[of v1] le[of v2] show ?thesis by linarith
qed


section \<open>Runs of the store\<close>

text \<open>Requests by key and the two readings of the clock; results by key, time and count.\<close>

fun Inc_run ::
  "(float64 \<Rightarrow> int64) \<Rightarrow> duration \<Rightarrow> ratelimit_MemoryStore \<Rightarrow> (string \<times> time \<times> time) list \<Rightarrow>
     (string \<times> time \<times> int64) list" where
  "Inc_run impl w s [] = []"
| "Inc_run impl w s ((key, t1, t2) # reqs) =
     (case Inc impl t1 t2 key w s of
        (s', Inr count) \<Rightarrow> (key, t2, count) # Inc_run impl w s' reqs
      | (s', Inl err) \<Rightarrow> Inc_run impl w s' reqs)"

definition of_key :: "string \<Rightarrow> (string \<times> time \<times> time) list \<Rightarrow> (time \<times> time) list" where
  "of_key key reqs = map snd (filter (\<lambda>q. fst q = key) reqs)"

lemma of_key_simps [simp]:
  "of_key key [] = []"
  "of_key key ((k, p) # reqs) = (if k = key then p # of_key key reqs else of_key key reqs)"
  by (simp_all add: of_key_def)

text \<open>The requests of one key are a trace of its bucket: keys do not influence each other.\<close>

definition key_bucket :: "duration \<Rightarrow> (time \<times> time) list \<Rightarrow> bucket option \<Rightarrow> bucket" where
  "key_bucket w ps b = (case b of Some b \<Rightarrow> b | None \<Rightarrow> (case ps of [] \<Rightarrow> new_bucket 0 w | (t1, _) # _ \<Rightarrow> new_bucket t1 w))"

lemma Inc_run_key:
  "filter (\<lambda>x. fst x = key) (Inc_run impl w s reqs) =
     map (\<lambda>x. (key, fst x, snd (snd x)))
       (inc_trace impl (key_bucket w (of_key key reqs) (s key)) (map snd (of_key key reqs)))"
proof (induction reqs arbitrary: s)
  case (Cons q reqs)
  obtain k t1 t2 where q: "q = (k, t1, t2)" by (cases q) auto
  obtain b' n where i: "inc impl t2 (case s k of Some b \<Rightarrow> b | None \<Rightarrow> new_bucket t1 w) = (b', n)" by fastforce
  then have I: "Inc impl t1 t2 k w s = (s(k \<mapsto> b'), Inr n)" by (simp add: Inc_def)
  show ?case
  proof (cases "k = key")
    case True
    have "inc impl t2 (key_bucket w (of_key key (q # reqs)) (s key)) = (b', n)"
      using i True q by (cases "s key") (simp_all add: key_bucket_def)
    moreover have kb: "key_bucket w (of_key key reqs) ((s(k \<mapsto> b')) key) = b'"
      using True by (simp add: key_bucket_def)
    note ih = Cons.IH[of "s(k \<mapsto> b')", unfolded kb]
    ultimately show ?thesis
      using I True q ih by (simp del: fun_upd_apply)
  next
    case False
    then have kb: "(s(k \<mapsto> b')) key = s key" by simp
    show ?thesis using I q False Cons.IH[of "s(k \<mapsto> b')", unfolded kb] by (simp del: fun_upd_apply)
  qed
qed simp

section \<open>Properties\<close>

lemma canonical_ratelimit_keys [simp]:
  "CanonicalKey ''X-RateLimit-Limit'' = ''X-Ratelimit-Limit''"
  "CanonicalKey ''X-RateLimit-Remaining'' = ''X-Ratelimit-Remaining''"
  "CanonicalKey ''X-RateLimit-Reset'' = ''X-Ratelimit-Reset''"
  "CanonicalKey ''Retry-After'' = ''Retry-After''"
  by code_simp+

text \<open>
  C17: the limiter limits. Starting from the empty store, whatever requests of other keys come in
  between, in every interval of the length of the window at most twice the limit of a key's
  requests are let through (see a count within the limit), provided the clock does not run
  backwards.
\<close>

theorem at_most_twice_the_limit:
  assumes "0 < w" "w < 2 ^ 62" "0 \<le> limit" "length reqs < 2 ^ 52"
    and "sorted (concat (map (\<lambda>(t1, t2). [t1, t2]) (of_key key reqs)))"
  shows "int (length (filter (\<lambda>(k, t, n). k = key \<and> s \<le> t \<and> t < s + w \<and> n \<le> limit)
      (Inc_run impl w Map.empty reqs))) \<le> 2 * limit"
proof -
  let ?ps = "of_key key reqs" and ?b = "key_bucket w (of_key key reqs) None"
  have win: "window ?b = w"
    by (auto simp: key_bucket_def new_bucket_def split: list.splits)
  have snds: "sorted (concat (map (\<lambda>(t1, t2). [t1, t2]) ps)) \<Longrightarrow> sorted (map snd ps)"
    for ps :: "(int \<times> int) list"
    by (induction ps) (fastforce simp: sorted_append)+
  have srt: "sorted (concat (map (\<lambda>(t1, t2). [t1, t2]) ps)) \<Longrightarrow> ps \<noteq> [] \<Longrightarrow>
      sorted (fst (hd ps) # map snd ps)" for ps :: "(int \<times> int) list"
    using snds[of ps] by (cases ps) fastforce+
  have "length ?ps \<le> length reqs" by (simp add: of_key_def)
  then have room: "roomy ?b (length (map snd ?ps))"
    using assms(1,2,4)
    by (auto simp: roomy_def key_bucket_def good_bucket_def new_bucket_def split: list.splits)
  have sorted: "?ps \<noteq> [] \<Longrightarrow> sorted (windowStart ?b # map snd ?ps)"
    using srt[OF assms(5)] by (auto simp: key_bucket_def new_bucket_def neq_Nil_conv)
  have "filter (\<lambda>(k, t, n). k = key \<and> s \<le> t \<and> t < s + w \<and> n \<le> limit) (Inc_run impl w Map.empty reqs) =
      filter (\<lambda>(k, t, n). s \<le> t \<and> t < s + w \<and> n \<le> limit)
        (filter (\<lambda>x. fst x = key) (Inc_run impl w Map.empty reqs))"
    by (simp add: filter_filter) (rule filter_cong, auto)
  also have "length \<dots> = length (filter (\<lambda>x. (s \<le> fst x \<and> fst x < s + window ?b) \<and> allowed limit x)
      (inc_trace impl ?b (map snd ?ps)))"
    by (simp add: Inc_run_key win allowed_def filter_map o_def case_prod_beta conj_assoc)
  finally show ?thesis
    using allowed_in_interval[OF room sorted assms(3), of s impl] assms(3) by (cases "?ps = []") simp_all
qed

lemma at_most_twice_the_limit_witness:
  "int (length (filter (\<lambda>(k, t, n). k = ''a'' \<and> 0 \<le> t \<and> t < 0 + 10 \<and> n \<le> 1)
      (Inc_run (\<lambda>_. 0) 10 Map.empty [(''a'', 1, 2), (''b'', 2, 3), (''a'', 4, 4)]))) \<le> 2 * 1"
  by (rule at_most_twice_the_limit) simp_all

text \<open>
  The sliding-window estimate. While the window lasts, an increment returns the count of the
  window plus the part of the previous window's count that the remaining time weighs, rounded
  as \<open>float64\<close> arithmetic does; the result lies between the count of the window and the sum of
  both counts. One window later the counts shift, two windows later they are forgotten.
\<close>

theorem inc_estimate:
  assumes "good_bucket b" "windowStart b \<le> now"
  shows "snd (inc impl now b) =
      (if now < windowStart b + window b
       then trunc (fl (of_int (prev b) * fraction (now - windowStart b) (window b))) + curr b + 1
       else 1)
    \<and> (now < windowStart b + window b \<longrightarrow>
         curr b + 1 \<le> snd (inc impl now b) \<and> snd (inc impl now b) \<le> prev b + curr b + 1)
    \<and> fst (inc impl now b) =
        (if now < windowStart b + window b then b\<lparr>curr := curr b + 1\<rparr>
         else if now < windowStart b + 2 * window b
         then b\<lparr>prev := curr b, curr := 1, windowStart := windowStart b + window b\<rparr>
         else b\<lparr>prev := 0, curr := 1, windowStart := now\<rparr>)"
proof -
  consider "now < windowStart b + window b"
    | "windowStart b + window b \<le> now" "now < windowStart b + 2 * window b"
    | "windowStart b + 2 * window b \<le> now" by linarith
  then show ?thesis
  proof cases
    case 1
    from inc_current(1)[OF assms 1, of impl] inc_current(2,3)[OF assms 1] 1 show ?thesis by simp
  next
    case 2
    from inc_rollover[OF assms(1) 2, of impl] 2 show ?thesis by simp
  next
    case 3
    from inc_stale[OF assms(1) 3, of impl] 3 assms(1) show ?thesis by (simp add: good_bucket_def)
  qed
qed

lemma inc_estimate_witness:
  "inc (\<lambda>_. 0) 25 \<lparr>prev = 8, curr = 3, windowStart = 20, window = 10\<rparr> =
     (\<lparr>prev = 8, curr = 4, windowStart = 20, window = 10\<rparr>, 8)"
proof -
  let ?b = "\<lparr>prev = 8, curr = 3, windowStart = 20, window = 10\<rparr>"
  have five: "fl 5 = 5" "fl 10 = 10" using fl_int[of 5] fl_int[of 10] by simp_all
  have half: "fl (1 / 2) = (1 / 2 :: rat)" using fl_exact[of 1 "-1"] by (simp add: power_int_minus)
  have "fraction 5 10 = 1 / 2"
    using five half by (simp add: fraction_def)
  then have eight: "8 * fraction 5 10 = 4" by simp
  have "trunc (fl (8 * fraction 5 10)) = 4"
    unfolding eight using fl_int[of 4] trunc_int[of 4] by simp
  then show ?thesis
    using inc_estimate[of ?b 25 "\<lambda>_. 0"] by (simp add: good_bucket_def prod_eq_iff)
qed

text \<open>The estimate in the comment of \<open>bucket\<close>, over the rationals.\<close>

definition documented_estimate :: "time \<Rightarrow> bucket \<Rightarrow> rat" where
  "documented_estimate now b =
     of_int (prev b) * (1 - of_int (now - windowStart b) / of_int (window b)) + of_int (curr b)"

text \<open>
  The first request of a new window forgets the previous one. The weight is computed from the
  time since the start of the \<^emph>\<open>old\<close> window, so that after the shift it is always zero: the count
  is 1, although the documented estimate, with the time since the start of the new window, is
  greater as soon as the old window saw a request.
\<close>

theorem rollover_forgets_previous_window:
  assumes "good_bucket b" "windowStart b + window b \<le> now" "now < windowStart b + 2 * window b"
    and "0 < curr b"
  shows "snd (inc impl now b) = 1 \<and> 1 < documented_estimate now (fst (inc impl now b))"
proof -
  have "0 < window b" using assms(1) by (simp add: good_bucket_def)
  then have "(of_int (now - (windowStart b + window b)) / of_int (window b) :: rat) < 1"
    using assms(3) by (simp add: divide_less_eq_1_pos)
  with assms(4) have "0 < of_int (curr b) * (1 - of_int (now - (windowStart b + window b)) / of_int (window b) :: rat)"
    by simp
  then show ?thesis
    by (simp add: inc_rollover[OF assms(1-3)] documented_estimate_def)
qed

lemma rollover_forgets_previous_window_witness:
  "snd (inc (\<lambda>_. 0) 10 \<lparr>prev = 0, curr = 100, windowStart = 0, window = 10\<rparr>) = 1 \<and>
   1 < documented_estimate 10 (fst (inc (\<lambda>_. 0) 10 \<lparr>prev = 0, curr = 100, windowStart = 0, window = 10\<rparr>))"
  by (rule rollover_forgets_previous_window) (simp_all add: good_bucket_def)

text \<open>
  The middleware. A request whose count is within the limit, from a store that reports no
  error, reaches the handler with the three informational headers set; every other request is
  answered 429 with \<open>Retry-After\<close> and the handler does not run.
\<close>

theorem ratelimit_decision:
  assumes "incr (remoteIP r) (Window cfg) w = (w', count, err)"
    and "KeyFn cfg = None" "OnLimited cfg = None"
  shows "if err = None \<and> count \<le> Limit cfg
    then ratelimit_New incr cfg t nextH r w =
      and_then (limit_headers cfg count (time_Add t (Window cfg))) (nextH r w')
    else \<exists>calls. ratelimit_New incr cfg t nextH r w = Ret (w', calls) \<and> response_status calls = 429 \<and>
      response_header calls ''Retry-After'' = Some [FormatInt (duration_whole_seconds (Window cfg))] \<and>
      response_header calls ''X-Ratelimit-Limit'' = Some [FormatInt (Limit cfg)]"
proof (cases "err = None \<and> count \<le> Limit cfg")
  case True
  with assms show ?thesis by (simp add: ratelimit_New_def Let_def)
next
  case False
  let ?reset = "time_Add t (Window cfg)"
  let ?pre = "limit_headers cfg count ?reset @
    [RwSet ''Retry-After'' (FormatInt (duration_whole_seconds (Window cfg))),
     RwSet ''Content-Type'' ''application/json'']"
  obtain body where def: "(defaultOnLimited r ?reset w' :: ('a \<times> rw_call list) outcome) =
      Ret (w', [RwSet ''Content-Type'' ''application/json'', RwWriteHeader 429, RwWrite body])"
    by (simp add: defaultOnLimited_def reply_def)
  have "ratelimit_New incr cfg t nextH r w = Ret (w', ?pre @ RwWriteHeader 429 # [RwWrite body])"
    using assms False by (auto simp: ratelimit_New_def def Let_def)
  moreover have "response (?pre @ RwWriteHeader 429 # [RwWrite body]) =
      (429, rw_Header (rw_run ?pre new_ResponseWriter))"
    by (rule response_fixed) (simp_all add: limit_headers_def new_ResponseWriter_def informational_def Let_def)
  moreover have "rw_Header (rw_run ?pre new_ResponseWriter) ''Retry-After'' =
      Some [FormatInt (duration_whole_seconds (Window cfg))]"
    "rw_Header (rw_run ?pre new_ResponseWriter) ''X-Ratelimit-Limit'' = Some [FormatInt (Limit cfg)]"
    by (simp_all add: limit_headers_def new_ResponseWriter_def Header_Set_def Let_def)
  ultimately show ?thesis
    using False by (auto simp: response_status_def response_header_def)
qed

lemma ratelimit_decision_witness:
  "\<exists>calls. ratelimit_New (memory_incr (\<lambda>_. 0) 0 0) (Per 0 Minute) 0 (\<lambda>r. reply []) plain_request Map.empty =
      Ret ([''10.0.0.1'' \<mapsto> \<lparr>prev = 0, curr = 1, windowStart = 0, window = Minute\<rparr>], calls) \<and>
    response_status calls = 429"
proof -
  have ip: "remoteIP plain_request = ''10.0.0.1''"
    by (simp add: remoteIP_def plain_request_def Header_Get_def SplitHostPort_def)
  have "inc (\<lambda>_. 0) 0 (new_bucket 0 Minute) = (\<lparr>prev = 0, curr = 1, windowStart = 0, window = Minute\<rparr>, 1)"
    using inc_current(1)[of "new_bucket 0 Minute" 0 "\<lambda>_. 0"]
    by (simp add: good_bucket_def new_bucket_def duration_defs trunc_def)
  then have "memory_incr (\<lambda>_. 0) 0 0 (remoteIP plain_request) (Window (Per 0 Minute)) Map.empty =
      ([''10.0.0.1'' \<mapsto> \<lparr>prev = 0, curr = 1, windowStart = 0, window = Minute\<rparr>], 1, None)"
    by (simp add: memory_incr_def Inc_def Per_def ip)
  from ratelimit_decision[of "memory_incr (\<lambda>_. 0) 0 0", OF this, of 0 "\<lambda>r. reply []"] show ?thesis
    by (auto simp: Per_def)
qed

text \<open>
  The keys of \<open>BySubject\<close> can be forged. A request without a subject whose \<open>X-Forwarded-For\<close> says
  \<open>subject:\<close> and somebody's name is counted under the key of that subject, and uses up its limit.
\<close>

lemma before_comma_none: "CHR '','' \<notin> set s \<Longrightarrow> before_comma s = None"
  by (induction s) auto

theorem forged_address_takes_subject_key:
  assumes "subjectFn r = ''''" and "Header_Get (req_Header r) ''X-Forwarded-For'' = ''subject:'' @ s"
    and "CHR '','' \<notin> set s" and "s \<noteq> ''''" and "subjectFn r' = s"
  shows "BySubject subjectFn r = BySubject subjectFn r'"
proof -
  have "before_comma (''subject:'' @ s) = None" by (rule before_comma_none) (use assms(3) in simp)
  then show ?thesis using assms by (simp add: BySubject_def remoteIP_def Let_def)
qed

lemma forged_address_takes_subject_key_witness:
  "BySubject SubjectFrom ((plain_request :: unit http_Request)\<lparr>req_Header := [''X-Forwarded-For'' \<mapsto> [''subject:bob'']]\<rparr>) =
   BySubject SubjectFrom (WithClaims (plain_request :: unit http_Request) (Some bob_claims))"
  using forged_address_takes_subject_key[of SubjectFrom "plain_request\<lparr>req_Header := [''X-Forwarded-For'' \<mapsto> [''subject:bob'']]\<rparr>"
      "''bob''" "WithClaims plain_request (Some bob_claims)"]
  by (simp add: SubjectFrom_def ClaimsFrom_def WithClaims_def plain_request_def Header_Get_def bob_claims_def)

end
