(* ===== verification/Cors.thy ===== *)
theory Cors
  imports Float64 AuthMiddleware
begin

text \<open>
  The package \<open>cors\<close> (\<open>cors/cors.go\<close>): the configuration is compiled once into a handler record,
  which answers preflight requests and decorates the others. \<open>u\<close> is \<open>strings.ToLower\<close> on strings
  that are not ASCII.
\<close>

section \<open>Configuration\<close>

record cors_Config =
  AllowedOrigins :: "string list"
  AllowedMethods :: "string list"
  AllowedHeaders :: "string list"
  ExposedHeaders :: "string list"
  AllowCredentials :: bool
  MaxAge :: duration

record corsHandler =
  ch_allowedOrigins :: "string set"
  ch_wildcardOrigin :: bool
  ch_allowedMethods :: string
  ch_allowedHeaders :: string
  ch_exposedHeaders :: string
  ch_allowCredentials :: bool
  ch_maxAge :: string

fun add_origins :: "(string \<Rightarrow> string) \<Rightarrow> string list \<Rightarrow> string set \<times> bool \<Rightarrow> string set \<times> bool" where
  "add_origins u [] acc = acc"
| "add_origins u (ori # os) (origins, wildcard) =
     add_origins u os
       (if ori = ''*'' then (origins, True) else (insert (ToLower u ori) origins, wildcard))"

text \<open>The loop that drops headers seen before, without regard to case.\<close>

fun dedupe :: "(string \<Rightarrow> string) \<Rightarrow> string set \<Rightarrow> string list \<Rightarrow> string list" where
  "dedupe u seen [] = []"
| "dedupe u seen (hdr # hs) =
     (let lower = ToLower u hdr in
      if lower \<in> seen then dedupe u seen hs else hdr # dedupe u (insert lower seen) hs)"

definition newHandler :: "(string \<Rightarrow> string) \<Rightarrow> cors_Config \<Rightarrow> corsHandler" where
  "newHandler u cfg =
     (let (origins, wildcard) = add_origins u (AllowedOrigins cfg) ({}, False);
          methods = (if AllowedMethods cfg = [] then [''GET'', ''HEAD'', ''POST''] else AllowedMethods cfg);
          headers = [''Origin'', ''Accept'', ''Content-Type''] @ AllowedHeaders cfg;
          maxAge = (if MaxAge cfg = 0 then 5 * Minute else MaxAge cfg)
      in \<lparr>ch_allowedOrigins = origins, ch_wildcardOrigin = wildcard,
          ch_allowedMethods = join '', '' methods,
          ch_allowedHeaders =
            (if AllowedHeaders cfg = [''*''] then ''*'' else join '', '' (dedupe u {} headers)),
          ch_exposedHeaders = (if ExposedHeaders cfg \<noteq> [] then join '', '' (ExposedHeaders cfg) else ''''),
          ch_allowCredentials = AllowCredentials cfg,
          ch_maxAge = FormatInt (duration_whole_seconds maxAge)\<rparr>)"

section \<open>Requests\<close>

definition originAllowed :: "(string \<Rightarrow> string) \<Rightarrow> corsHandler \<Rightarrow> string \<Rightarrow> bool" where
  "originAllowed u h ori =
     (if ori = '''' then False
      else if ch_wildcardOrigin h then True
      else ToLower u ori \<in> ch_allowedOrigins h)"

definition allow_origin_calls :: "corsHandler \<Rightarrow> string \<Rightarrow> rw_call list" where
  "allow_origin_calls h ori =
     [RwSet ''Access-Control-Allow-Origin''
        (if ch_wildcardOrigin h \<and> \<not> ch_allowCredentials h then ''*'' else ori)]"

definition handlePreflight :: "(string \<Rightarrow> string) \<Rightarrow> corsHandler \<Rightarrow> 'w http_Request \<Rightarrow> rw_call list" where
  "handlePreflight u h r =
     (let ori = Header_Get (req_Header r) ''Origin'' in
      [RwAdd ''Vary'' ''Origin'', RwAdd ''Vary'' ''Access-Control-Request-Method'',
       RwAdd ''Vary'' ''Access-Control-Request-Headers''] @
      (if \<not> originAllowed u h ori then []
       else allow_origin_calls h ori @
         [RwSet ''Access-Control-Allow-Methods'' (ch_allowedMethods h),
          RwSet ''Access-Control-Allow-Headers'' (ch_allowedHeaders h),
          RwSet ''Access-Control-Max-Age'' (ch_maxAge h)] @
         (if ch_allowCredentials h then [RwSet ''Access-Control-Allow-Credentials'' ''true''] else [])))"

definition handleActual :: "(string \<Rightarrow> string) \<Rightarrow> corsHandler \<Rightarrow> 'w http_Request \<Rightarrow> rw_call list" where
  "handleActual u h r =
     (let ori = Header_Get (req_Header r) ''Origin'' in
      [RwAdd ''Vary'' ''Origin''] @
      (if \<not> originAllowed u h ori then []
       else allow_origin_calls h ori @
         (if ch_allowCredentials h then [RwSet ''Access-Control-Allow-Credentials'' ''true''] else []) @
         (if ch_exposedHeaders h \<noteq> '''' then [RwSet ''Access-Control-Expose-Headers'' (ch_exposedHeaders h)] else [])))"

definition is_preflight :: "'w http_Request \<Rightarrow> bool" where
  "is_preflight r \<longleftrightarrow>
     req_Method r = ''OPTIONS'' \<and> Header_Get (req_Header r) ''Access-Control-Request-Method'' \<noteq> ''''"

definition cors_New :: "(string \<Rightarrow> string) \<Rightarrow> cors_Config \<Rightarrow> 'w Handler \<Rightarrow> 'w Handler" where
  "cors_New u cfg nextH r w =
     (let h = newHandler u cfg in
      if is_preflight r then reply (handlePreflight u h r @ [RwWriteHeader 204]) w
      else and_then (handleActual u h r) (nextH r w))"

definition AllowAll :: "(string \<Rightarrow> string) \<Rightarrow> 'w Handler \<Rightarrow> 'w Handler" where
  "AllowAll u = cors_New u
     \<lparr>AllowedOrigins = [''*''],
      AllowedMethods = [''GET'', ''HEAD'', ''POST'', ''PUT'', ''PATCH'', ''DELETE'', ''OPTIONS''],
      AllowedHeaders = [''*''], ExposedHeaders = [], AllowCredentials = False, MaxAge = 5 * Minute\<rparr>"

section \<open>The policy that a configuration stands for\<close>

text \<open>An origin is permitted when it is listed, without regard to case, or anything is.\<close>

definition permitted :: "(string \<Rightarrow> string) \<Rightarrow> cors_Config \<Rightarrow> string \<Rightarrow> bool" where
  "permitted u cfg ori \<longleftrightarrow> ori \<noteq> '''' \<and>
     (''*'' \<in> set (AllowedOrigins cfg) \<or>
      (\<exists>a \<in> set (AllowedOrigins cfg). a \<noteq> ''*'' \<and> ToLower u a = ToLower u ori))"

text \<open>The value of \<open>Access-Control-Allow-Origin\<close> for a permitted origin.\<close>

definition granted_origin :: "cors_Config \<Rightarrow> string \<Rightarrow> string" where
  "granted_origin cfg ori = (if ''*'' \<in> set (AllowedOrigins cfg) \<and> \<not> AllowCredentials cfg then ''*'' else ori)"

lemma add_origins_spec:
  "add_origins u os (origins, wildcard) =
     (origins \<union> ToLower u ` (set os - {''*''}), wildcard \<or> ''*'' \<in> set os)"
  by (induction os arbitrary: origins wildcard) auto

lemma newHandler_simps:
  "ch_allowedOrigins (newHandler u cfg) = ToLower u ` (set (AllowedOrigins cfg) - {''*''})"
  "ch_wildcardOrigin (newHandler u cfg) = (''*'' \<in> set (AllowedOrigins cfg))"
  "ch_allowCredentials (newHandler u cfg) = AllowCredentials cfg"
  by (simp_all add: newHandler_def add_origins_spec Let_def)

lemma image_star: "f x \<in> f ` (set xs - {star}) \<longleftrightarrow> (\<exists>a \<in> set xs. a \<noteq> star \<and> f a = f x)"
  (is "?l \<longleftrightarrow> ?r")
proof
  assume ?l
  then obtain a where "a \<in> set xs" "a \<noteq> star" "f x = f a" by blast
  then show ?r by metis
next
  assume ?r
  then obtain a where a: "a \<in> set xs" "a \<noteq> star" "f a = f x" by blast
  then have "f a \<in> f ` (set xs - {star})" by blast
  with a show ?l by simp
qed

lemma originAllowed_newHandler: "originAllowed u (newHandler u cfg) ori = permitted u cfg ori"
  using image_star[of "ToLower u" ori "AllowedOrigins cfg" "''*''"]
  by (cases "ori = []"; cases "''*'' \<in> set (AllowedOrigins cfg)")
    (simp_all only: originAllowed_def permitted_def newHandler_simps if_True if_False simp_thms)

lemma dedupe_spec:
  "set (map (ToLower u) (dedupe u seen hs)) = ToLower u ` set hs - seen"
  "distinct (map (ToLower u) (dedupe u seen hs))"
  "set (dedupe u seen hs) \<subseteq> set hs"
proof -
  have "set (map (ToLower u) (dedupe u seen hs)) = ToLower u ` set hs - seen \<and>
      distinct (map (ToLower u) (dedupe u seen hs)) \<and> set (dedupe u seen hs) \<subseteq> set hs"
  proof (induction hs arbitrary: seen)
    case (Cons h hs)
    show ?case
    proof (cases "ToLower u h \<in> seen")
      case True
      with Cons.IH[of seen] show ?thesis by auto
    next
      case False
      with Cons.IH[of "insert (ToLower u h) seen"] show ?thesis by (simp add: Let_def) blast
    qed
  qed simp
  then show "set (map (ToLower u) (dedupe u seen hs)) = ToLower u ` set hs - seen"
    "distinct (map (ToLower u) (dedupe u seen hs))" "set (dedupe u seen hs) \<subseteq> set hs" by blast+
qed

lemma canonical_cors_keys [simp]:
  "CanonicalKey ''Access-Control-Allow-Origin'' = ''Access-Control-Allow-Origin''"
  "CanonicalKey ''Access-Control-Allow-Methods'' = ''Access-Control-Allow-Methods''"
  "CanonicalKey ''Access-Control-Allow-Headers'' = ''Access-Control-Allow-Headers''"
  "CanonicalKey ''Access-Control-Max-Age'' = ''Access-Control-Max-Age''"
  "CanonicalKey ''Access-Control-Allow-Credentials'' = ''Access-Control-Allow-Credentials''"
  "CanonicalKey ''Access-Control-Expose-Headers'' = ''Access-Control-Expose-Headers''"
  "CanonicalKey ''Access-Control-Request-Method'' = ''Access-Control-Request-Method''"
  by code_simp+

definition acao :: "Header \<Rightarrow> string list option" where
  "acao h = h ''Access-Control-Allow-Origin''"

definition acac :: "Header \<Rightarrow> string list option" where
  "acac h = h ''Access-Control-Allow-Credentials''"

lemma preflight_header:
  assumes "Header_Get (req_Header r) ''Origin'' = ori"
  shows "acao (rw_Header (rw_run (handlePreflight u (newHandler u cfg) r) new_ResponseWriter)) =
      (if permitted u cfg ori then Some [granted_origin cfg ori] else None)"
    and "acac (rw_Header (rw_run (handlePreflight u (newHandler u cfg) r) new_ResponseWriter)) =
      (if permitted u cfg ori \<and> AllowCredentials cfg then Some [''true''] else None)"
  by (simp_all add: handlePreflight_def assms originAllowed_newHandler allow_origin_calls_def newHandler_simps
      granted_origin_def acao_def acac_def Header_Set_def Header_Add_def new_ResponseWriter_def Let_def)

lemma actual_header:
  assumes "Header_Get (req_Header r) ''Origin'' = ori"
  shows "acao (rw_Header (rw_run (handleActual u (newHandler u cfg) r) new_ResponseWriter)) =
      (if permitted u cfg ori then Some [granted_origin cfg ori] else None)"
    and "acac (rw_Header (rw_run (handleActual u (newHandler u cfg) r) new_ResponseWriter)) =
      (if permitted u cfg ori \<and> AllowCredentials cfg then Some [''true''] else None)"
  by (simp_all add: handleActual_def assms originAllowed_newHandler allow_origin_calls_def newHandler_simps
      granted_origin_def acao_def acac_def Header_Set_def Header_Add_def new_ResponseWriter_def Let_def)

lemma cors_header_calls:
  "list_all header_call (handlePreflight u h r)" "list_all header_call (handleActual u h r)"
  by (simp_all add: handlePreflight_def handleActual_def allow_origin_calls_def Let_def)

lemma nothing_sent: "rw_Sent new_ResponseWriter = None"
  by (simp add: new_ResponseWriter_def)

lemma cors_nothing_sent:
  "rw_Sent (rw_run (handlePreflight u h r) new_ResponseWriter) = None"
  "rw_Sent (rw_run (handleActual u h r) new_ResponseWriter) = None"
  by (simp_all add: header_calls_Sent cors_header_calls nothing_sent)

section \<open>Properties\<close>


text \<open>
  Other requests. The handler runs once, whatever the origin (the browser enforces the
  policy), with the same grant in the response header as for a preflight request, as long as the
  handler does not set that header itself.
\<close>

theorem actual_request_grants_permitted_origins:
  assumes "\<not> is_preflight r" and "Header_Get (req_Header r) ''Origin'' = ori"
    and "nextH r w = Ret (w', calls)" and "untouched ''Access-Control-Allow-Origin'' calls"
  shows "\<exists>calls'. cors_New u cfg nextH r w = Ret (w', calls' @ calls) \<and>
    acao (response_header (calls' @ calls)) =
      (if permitted u cfg ori then Some [granted_origin cfg ori] else None)"
proof -
  let ?pre = "handleActual u (newHandler u cfg) r"
  have "rw_Sent (rw_run ?pre new_ResponseWriter) = None"
    by (rule cors_nothing_sent)
  from response_untouched[OF this assms(4)] show ?thesis
    using assms(1,3) actual_header(1)[OF assms(2), of u cfg]
    by (auto simp: cors_New_def acao_def)
qed

text \<open>
  A wildcard together with credentials is not rejected: the middleware then names whatever
  origin asks, and offers credentials to it, which amounts to no origin policy at all.
\<close>

theorem wildcard_with_credentials_reflects_any_origin:
  assumes "is_preflight r" and "Header_Get (req_Header r) ''Origin'' = ori" and "ori \<noteq> ''''"
    and "''*'' \<in> set (AllowedOrigins cfg)" and "AllowCredentials cfg"
  shows "\<exists>calls. cors_New u cfg nextH r w = Ret (w, calls) \<and>
    acao (response_header calls) = Some [ori] \<and> acac (response_header calls) = Some [''true'']"
proof -
  let ?pre = "handlePreflight u (newHandler u cfg) r"
  have "rw_Sent (rw_run ?pre new_ResponseWriter) = None"
    by (rule cors_nothing_sent)
  then have "response (?pre @ [RwWriteHeader 204]) = (204, rw_Header (rw_run ?pre new_ResponseWriter))"
    by (rule response_fixed) (simp add: informational_def)
  moreover have "permitted u cfg ori" "granted_origin cfg ori = ori"
    using assms(3-5) by (simp_all add: permitted_def granted_origin_def)
  ultimately show ?thesis
    using assms(1,5) preflight_header[OF assms(2), of u cfg]
    by (auto simp: cors_New_def reply_def response_header_def)
qed

text \<open>Requests and a configuration to try it with.\<close>

definition preflight_request :: "string \<Rightarrow> 'w http_Request" where
  "preflight_request ori = plain_request\<lparr>req_Method := ''OPTIONS'',
     req_Header := [''Origin'' \<mapsto> [ori], ''Access-Control-Request-Method'' \<mapsto> [''PUT'']]\<rparr>"

definition app_config :: cors_Config where
  "app_config = \<lparr>AllowedOrigins = [''https://App.example''], AllowedMethods = [], AllowedHeaders = [],
     ExposedHeaders = [], AllowCredentials = True, MaxAge = 0\<rparr>"

lemma preflight_request_simps:
  "is_preflight (preflight_request ori)" "Header_Get (req_Header (preflight_request ori)) ''Origin'' = ori"
  by (simp_all add: is_preflight_def preflight_request_def Header_Get_def)


lemma actual_request_grants_permitted_origins_witness:
  "\<exists>calls'. cors_New id app_config (\<lambda>r. reply [RwWrite ''hi'']) plain_request () = Ret ((), calls' @ [RwWrite ''hi'']) \<and>
     acao (response_header (calls' @ [RwWrite ''hi''])) = None"
proof -
  have "\<not> is_preflight (plain_request :: unit http_Request)"
    by (simp add: is_preflight_def plain_request_def)
  moreover have "Header_Get (req_Header (plain_request :: unit http_Request)) ''Origin'' = ''''"
    by (simp add: plain_request_def Header_Get_def)
  ultimately show ?thesis
    using actual_request_grants_permitted_origins[where r = plain_request and ori = "''''" and cfg = app_config
        and u = id and nextH = "\<lambda>r. reply [RwWrite ''hi'']" and w = "()"]
    by (simp add: reply_def permitted_def)
qed

lemma wildcard_with_credentials_reflects_any_origin_witness:
  "\<exists>calls. cors_New id (app_config\<lparr>AllowedOrigins := [''*'']\<rparr>) (\<lambda>r. reply [])
       (preflight_request ''https://evil.example'') () = Ret ((), calls) \<and>
     acao (response_header calls) = Some [''https://evil.example''] \<and> acac (response_header calls) = Some [''true'']"
  by (rule wildcard_with_credentials_reflects_any_origin[OF preflight_request_simps])
    (simp_all add: app_config_def)

end
