(* ===== verification/SecureHeaders.thy ===== *)
theory SecureHeaders
  imports Float64 AuthMiddleware
begin

text \<open>
  The package \<open>secureheaders\<close>: the header map compiled from the configuration and the middleware
  that sets it. \<open>ord\<close> is the order in which Go walks the map on a request: a list of its entries
  in any order.
\<close>

record HSTSConfig =
  HSTS_MaxAge :: duration
  IncludeSubDomains :: bool
  Preload :: bool

record secure_Config =
  HSTS :: HSTSConfig
  ContentTypeOpts :: bool
  FrameOptions :: string
  XSSProtection :: bool
  CSP :: string
  ReferrerPolicy :: string
  PermissionsPolicy :: string
  COEP :: string
  COOP :: string
  CORP :: string
  RemoveServerHeader :: bool
  RemovePoweredBy :: bool

definition hsts_value :: "HSTSConfig \<Rightarrow> string" where
  "hsts_value c =
     ''max-age='' @ FormatInt (duration_whole_seconds (HSTS_MaxAge c)) @
     (if IncludeSubDomains c then ''; includeSubDomains'' else '''') @
     (if Preload c then ''; preload'' else '''')"

text \<open>An entry of the header map, when the field is not empty.\<close>

definition optional :: "string \<Rightarrow> string \<Rightarrow> (string \<times> string) list" where
  "optional k v = (if v \<noteq> '''' then [(k, v)] else [])"

definition buildHeaders :: "secure_Config \<Rightarrow> (string \<times> string) list" where
  "buildHeaders cfg =
     (if 0 < HSTS_MaxAge (HSTS cfg) then [(''Strict-Transport-Security'', hsts_value (HSTS cfg))] else []) @
     (if ContentTypeOpts cfg then [(''X-Content-Type-Options'', ''nosniff'')] else []) @
     optional ''X-Frame-Options'' (FrameOptions cfg) @
     (if XSSProtection cfg then [(''X-XSS-Protection'', ''1; mode=block'')] else []) @
     optional ''Content-Security-Policy'' (CSP cfg) @
     optional ''Referrer-Policy'' (ReferrerPolicy cfg) @
     optional ''Permissions-Policy'' (PermissionsPolicy cfg) @
     optional ''Cross-Origin-Embedder-Policy'' (COEP cfg) @
     optional ''Cross-Origin-Opener-Policy'' (COOP cfg) @
     optional ''Cross-Origin-Resource-Policy'' (CORP cfg)"

definition buildRemoveList :: "secure_Config \<Rightarrow> string list" where
  "buildRemoveList cfg =
     (if RemoveServerHeader cfg then [''Server''] else []) @
     (if RemovePoweredBy cfg then [''X-Powered-By''] else [])"

definition secure_calls :: "(string \<times> string) list \<Rightarrow> secure_Config \<Rightarrow> rw_call list" where
  "secure_calls ord cfg = map (\<lambda>(k, v). RwSet k v) ord @ map RwDel (buildRemoveList cfg)"

definition secure_New :: "(string \<times> string) list \<Rightarrow> secure_Config \<Rightarrow> 'w Handler \<Rightarrow> 'w Handler" where
  "secure_New ord cfg nextH r w = and_then (secure_calls ord cfg) (nextH r w)"

definition strict_config :: secure_Config where
  "strict_config =
     \<lparr>HSTS = \<lparr>HSTS_MaxAge = 365 * 24 * Hour, IncludeSubDomains = True, Preload = False\<rparr>,
      ContentTypeOpts = True, FrameOptions = ''DENY'', XSSProtection = True, CSP = '''',
      ReferrerPolicy = ''strict-origin-when-cross-origin'',
      PermissionsPolicy = ''geolocation=(), microphone=(), camera=()'',
      COEP = ''require-corp'', COOP = ''same-origin'', CORP = ''same-origin'',
      RemoveServerHeader = True, RemovePoweredBy = True\<rparr>"

definition Strict :: "(string \<times> string) list \<Rightarrow> 'w Handler \<Rightarrow> 'w Handler" where
  "Strict ord = secure_New ord strict_config"

section \<open>Lemmas\<close>

definition map_order :: "secure_Config \<Rightarrow> (string \<times> string) list \<Rightarrow> bool" where
  "map_order cfg ord \<longleftrightarrow> distinct ord \<and> set ord = set (buildHeaders cfg)"

lemma canonical_secure_keys [simp]:
  "CanonicalKey ''Strict-Transport-Security'' = ''Strict-Transport-Security''"
  "CanonicalKey ''X-Content-Type-Options'' = ''X-Content-Type-Options''"
  "CanonicalKey ''X-Frame-Options'' = ''X-Frame-Options''"
  "CanonicalKey ''X-XSS-Protection'' = ''X-Xss-Protection''"
  "CanonicalKey ''Content-Security-Policy'' = ''Content-Security-Policy''"
  "CanonicalKey ''Referrer-Policy'' = ''Referrer-Policy''"
  "CanonicalKey ''Permissions-Policy'' = ''Permissions-Policy''"
  "CanonicalKey ''Cross-Origin-Embedder-Policy'' = ''Cross-Origin-Embedder-Policy''"
  "CanonicalKey ''Cross-Origin-Opener-Policy'' = ''Cross-Origin-Opener-Policy''"
  "CanonicalKey ''Cross-Origin-Resource-Policy'' = ''Cross-Origin-Resource-Policy''"
  "CanonicalKey ''Server'' = ''Server''"
  "CanonicalKey ''X-Powered-By'' = ''X-Powered-By''"
  by code_simp+

text \<open>The entries have different names, also in canonical form, so their order does not matter.\<close>

definition secure_value :: "secure_Config \<Rightarrow> string \<Rightarrow> string" where
  "secure_value cfg k =
     (if k = ''Strict-Transport-Security'' then hsts_value (HSTS cfg)
      else if k = ''X-Content-Type-Options'' then ''nosniff''
      else if k = ''X-Frame-Options'' then FrameOptions cfg
      else if k = ''X-Xss-Protection'' then ''1; mode=block''
      else if k = ''Content-Security-Policy'' then CSP cfg
      else if k = ''Referrer-Policy'' then ReferrerPolicy cfg
      else if k = ''Permissions-Policy'' then PermissionsPolicy cfg
      else if k = ''Cross-Origin-Embedder-Policy'' then COEP cfg
      else if k = ''Cross-Origin-Opener-Policy'' then COOP cfg
      else CORP cfg)"

lemma buildHeaders_entry:
  "(k, v) \<in> set (buildHeaders cfg) \<Longrightarrow>
     v = secure_value cfg (CanonicalKey k) \<and> CanonicalKey k \<notin> {''Server'', ''X-Powered-By''}"
  unfolding buildHeaders_def optional_def set_append Un_iff
  by (elim disjE) (simp_all add: secure_value_def split: if_splits)

lemma buildHeaders_keys:
  "(k, v) \<in> set (buildHeaders cfg) \<Longrightarrow> (k', v') \<in> set (buildHeaders cfg) \<Longrightarrow>
     CanonicalKey k = CanonicalKey k' \<Longrightarrow> v = v'"
  using buildHeaders_entry by metis

lemma mem_neq: "y \<in> S \<Longrightarrow> x \<notin> S \<Longrightarrow> x \<noteq> y"
  by blast

lemma buildHeaders_not_removed:
  "(k, v) \<in> set (buildHeaders cfg) \<Longrightarrow> d \<in> set (buildRemoveList cfg) \<Longrightarrow> CanonicalKey k \<noteq> CanonicalKey d"
proof -
  assume "(k, v) \<in> set (buildHeaders cfg)" and d: "d \<in> set (buildRemoveList cfg)"
  have "d = ''Server'' \<or> d = ''X-Powered-By''"
    using d unfolding buildRemoveList_def set_append Un_iff by (elim disjE) (simp_all split: if_splits)
  then have "CanonicalKey d \<in> {''Server'', ''X-Powered-By''}" by (elim disjE) simp_all
  moreover have "CanonicalKey k \<notin> {''Server'', ''X-Powered-By''}"
    using buildHeaders_entry[OF \<open>(k, v) \<in> set (buildHeaders cfg)\<close>] by (rule conjunct2)
  ultimately show "CanonicalKey k \<noteq> CanonicalKey d"
    by (rule mem_neq)
qed

lemma run_sets:
  assumes "(k, v) \<in> set ord" "\<And>k' v'. (k', v') \<in> set ord \<Longrightarrow> CanonicalKey k' = CanonicalKey k \<Longrightarrow> v' = v"
  shows "rw_Header (rw_run (map (\<lambda>(k, v). RwSet k v) ord) rw) (CanonicalKey k) = Some [v]"
  using assms
proof (induction ord rule: rev_induct)
  case (snoc x xs)
  obtain k' v' where x: "x = (k', v')" by fastforce
  show ?case
  proof (cases "CanonicalKey k' = CanonicalKey k")
    case True
    with snoc.prems(2)[of k' v'] x show ?thesis by (simp add: Header_Set_def)
  next
    case False
    with snoc.prems(1) x have "(k, v) \<in> set xs" by auto
    then have "rw_Header (rw_run (map (\<lambda>(k, v). RwSet k v) xs) rw) (CanonicalKey k) = Some [v]"
    proof (rule snoc.IH)
      fix k' v' assume "(k', v') \<in> set xs" "CanonicalKey k' = CanonicalKey k"
      then show "v' = v" by (intro snoc.prems(2)[of k' v']) simp_all
    qed
    with x False show ?thesis by (simp add: Header_Set_def)
  qed
qed simp

lemma run_dels_keep:
  "(\<And>d. d \<in> set ds \<Longrightarrow> CanonicalKey d \<noteq> k) \<Longrightarrow> rw_Header (rw_run (map RwDel ds) rw) k = rw_Header rw k"
  by (induction ds arbitrary: rw) (auto simp: Header_Del_def)

lemma run_dels:
  "k \<in> CanonicalKey ` set ds \<Longrightarrow> rw_Header (rw_run (map RwDel ds) rw) k = None"
proof (induction ds arbitrary: rw)
  case (Cons d ds)
  show ?case
  proof (cases "k \<in> CanonicalKey ` set ds")
    case True
    with Cons.IH show ?thesis by simp
  next
    case False
    then have "rw_Header (rw_run (map RwDel ds) rw') k = rw_Header rw' k" for rw'
      by (intro run_dels_keep) auto
    with Cons.prems False show ?thesis by (auto simp: Header_Del_def)
  qed
qed simp

lemma secure_calls_Sent: "rw_Sent (rw_run (secure_calls ord cfg) new_ResponseWriter) = None"
  by (subst header_calls_Sent)
    (auto simp: secure_calls_def list_all_iff new_ResponseWriter_def)

lemma secure_calls_header:
  assumes "map_order cfg ord" "(k, v) \<in> set (buildHeaders cfg)"
  shows "rw_Header (rw_run (secure_calls ord cfg) rw) (CanonicalKey k) = Some [v]"
proof -
  have "rw_Header (rw_run (map (\<lambda>(k, v). RwSet k v) ord) rw) (CanonicalKey k) = Some [v]"
    by (rule run_sets) (use assms buildHeaders_keys in \<open>auto simp: map_order_def\<close>)
  moreover have "CanonicalKey d \<noteq> CanonicalKey k" if "d \<in> set (buildRemoveList cfg)" for d
    using buildHeaders_not_removed[OF assms(2) that] by simp
  ultimately show ?thesis
    by (simp add: secure_calls_def run_dels_keep)
qed

section \<open>Properties\<close>

text \<open>
  Every configured header is on the response. In whatever order the map is walked, each header
  of the configuration goes out with exactly its configured value, unless the handler behind
  sets, extends or deletes that very header.
\<close>

theorem configured_headers_are_sent:
  assumes "map_order cfg ord" and "(k, v) \<in> set (buildHeaders cfg)"
    and "nextH r w = Ret (w', calls)" and "untouched (CanonicalKey k) calls"
  shows "\<exists>calls'. secure_New ord cfg nextH r w = Ret (w', calls' @ calls) \<and>
    response_header (calls' @ calls) (CanonicalKey k) = Some [v]"
  using response_untouched[OF secure_calls_Sent assms(4)] secure_calls_header[OF assms(1,2)] assms(3)
  by (auto simp: secure_New_def)

lemma strict_hsts: "hsts_value (HSTS strict_config) = ''max-age=31536000; includeSubDomains''"
proof -
  have "365 * 24 * Hour = 31536000 * Second" by (simp add: duration_defs)
  then have "duration_whole_seconds (365 * 24 * Hour) = 31536000"
    by (simp only:) (rule seconds_whole, simp)
  moreover have "FormatInt 31536000 = ''31536000''" by (simp add: FormatInt_def decimal.simps)
  ultimately show ?thesis by (simp add: hsts_value_def strict_config_def)
qed

lemma configured_headers_are_sent_witness:
  "\<exists>calls'. Strict (buildHeaders strict_config) (\<lambda>r. reply [RwWrite ''hi'']) plain_request () =
       Ret ((), calls' @ [RwWrite ''hi'']) \<and>
     response_header (calls' @ [RwWrite ''hi'']) ''Strict-Transport-Security'' =
       Some [''max-age=31536000; includeSubDomains'']"
proof -
  have o: "map_order strict_config (buildHeaders strict_config)"
    by (simp add: map_order_def buildHeaders_def strict_config_def optional_def duration_defs)
  have m: "(''Strict-Transport-Security'', ''max-age=31536000; includeSubDomains'') \<in> set (buildHeaders strict_config)"
    by (simp add: buildHeaders_def strict_hsts) (simp add: strict_config_def duration_defs)
  show ?thesis
    using configured_headers_are_sent[OF o m, where nextH = "\<lambda>r. reply [RwWrite ''hi'']" and w = "()"]
    by (simp add: Strict_def reply_def)
qed

text \<open>
  Removing \<open>Server\<close> and \<open>X-Powered-By\<close> only reaches what was set before the middleware ran. A
  handler that sets one of them, as frameworks do, sends it in spite of the configuration.
\<close>

theorem removal_does_not_reach_the_handler:
  assumes "RemoveServerHeader cfg"
  shows "\<exists>calls. secure_New ord cfg (\<lambda>r. reply [RwSet ''Server'' v, RwWriteHeader 200]) r w = Ret (w, calls) \<and>
    response_header calls ''Server'' = Some [v]"
proof -
  let ?pre = "secure_calls ord cfg @ [RwSet ''Server'' v]"
  have s: "rw_Sent (rw_run ?pre new_ResponseWriter) = None"
    using secure_calls_Sent[of ord cfg] by simp
  have "response (?pre @ RwWriteHeader 200 # []) = (200, rw_Header (rw_run ?pre new_ResponseWriter))"
    by (rule response_fixed[OF s]) (simp add: informational_def)
  then show ?thesis
    by (simp add: secure_New_def reply_def response_header_def Header_Set_def)
qed

lemma removal_does_not_reach_the_handler_witness:
  "\<exists>calls. secure_New [] strict_config (\<lambda>r. reply [RwSet ''Server'' ''nginx'', RwWriteHeader 200]) plain_request () =
       Ret ((), calls) \<and> response_header calls ''Server'' = Some [''nginx'']"
  by (rule removal_does_not_reach_the_handler) (simp add: strict_config_def)

end
