(* ===== verification/Stack.thy ===== *)
theory Stack
  imports Guards RateLimit Cors SecureHeaders
begin

text \<open>
  The middlewares put together. First the stack that the integration guide prescribes for an
  authenticated API (CORS around the security headers, the rate limiter, the authentication and
  the permission check), then what each guard does when the store behind it reports an error.
\<close>

section \<open>The stack\<close>

definition protected_api ::
  "(string \<Rightarrow> string) \<Rightarrow> cors_Config \<Rightarrow> (string \<times> string) list \<Rightarrow> secure_Config \<Rightarrow>
     (string \<Rightarrow> duration \<Rightarrow> 'w \<Rightarrow> 'w \<times> int64 \<times> string option) \<Rightarrow> 'w ratelimit_Config \<Rightarrow> time \<Rightarrow>
     'w gojwt \<Rightarrow> 'w jwt_options \<Rightarrow> time \<Rightarrow> ('w \<Rightarrow> string \<Rightarrow> 'e + Role) \<Rightarrow> ('w \<Rightarrow> string \<Rightarrow> 'e + string list) \<Rightarrow>
     string \<Rightarrow> string \<Rightarrow> 'w Handler \<Rightarrow> 'w Handler" where
  "protected_api u ccfg ord scfg incr lcfg t lib svc now getRole getSubjectRoles action resource nextH =
     cors_New u ccfg (secure_New ord scfg (ratelimit_New incr lcfg t (JWT lib svc [] now
       (rbac_Require getRole getSubjectRoles action resource nextH))))"

section \<open>Headers that survive up to the response\<close>

text \<open>
  The headers that the outer two layers promise, in a header map: the grant to the origin of the
  request and the configured security headers, each as far as \<open>keep\<close> holds of its name.
\<close>

definition shielded ::
  "(string \<Rightarrow> string) \<Rightarrow> cors_Config \<Rightarrow> secure_Config \<Rightarrow> 'w http_Request \<Rightarrow> (string \<Rightarrow> bool) \<Rightarrow> Header \<Rightarrow> bool" where
  "shielded u ccfg scfg r keep hdr \<longleftrightarrow>
     (keep ''Access-Control-Allow-Origin'' \<longrightarrow>
        acao hdr = (let ori = Header_Get (req_Header r) ''Origin'' in
          if permitted u ccfg ori then Some [granted_origin ccfg ori] else None)) \<and>
     (\<forall>(k, v) \<in> set (buildHeaders scfg). keep (CanonicalKey k) \<longrightarrow> hdr (CanonicalKey k) = Some [v])"

lemma run_untouched: "untouched k calls \<Longrightarrow> rw_Header (rw_run calls rw) k = rw_Header rw k"
  by (induction calls arbitrary: rw) (simp_all add: rw_step_untouched)

text \<open>The names of the security headers, in canonical form, are none of the others.\<close>

definition secure_keys :: "string list" where
  "secure_keys = [''Strict-Transport-Security'', ''X-Content-Type-Options'', ''X-Frame-Options'',
     ''X-Xss-Protection'', ''Content-Security-Policy'', ''Referrer-Policy'', ''Permissions-Policy'',
     ''Cross-Origin-Embedder-Policy'', ''Cross-Origin-Opener-Policy'', ''Cross-Origin-Resource-Policy'']"

lemma buildHeaders_names: "(k, v) \<in> set (buildHeaders scfg) \<Longrightarrow> CanonicalKey k \<in> set secure_keys"
  unfolding buildHeaders_def optional_def set_append Un_iff
  by (elim disjE) (simp_all add: secure_keys_def split: if_splits)

lemma shielded_mono:
  assumes "shielded u ccfg scfg r keep hdr"
    and "\<And>k. k = ''Access-Control-Allow-Origin'' \<or> k \<in> set secure_keys \<Longrightarrow> keep' k \<Longrightarrow> keep k"
  shows "shielded u ccfg scfg r keep' hdr"
  using assms(1) assms(2)[OF disjI1[OF refl]] assms(2)[OF disjI2[OF buildHeaders_names]]
  unfolding shielded_def by fast

definition other_keys :: "string list" where
  "other_keys = [''Access-Control-Allow-Origin'', ''X-Ratelimit-Limit'', ''X-Ratelimit-Remaining'',
     ''X-Ratelimit-Reset'', ''Retry-After'', ''Content-Type'', ''Www-Authenticate'', ''Server'', ''X-Powered-By'']"

lemma other_keys_apart: "list_all (\<lambda>k. list_all (\<lambda>k'. k \<noteq> k') other_keys) secure_keys"
  by code_simp

lemma secure_not_other: "k \<in> set secure_keys \<Longrightarrow> k' \<in> set other_keys \<Longrightarrow> k \<noteq> k'"
  using other_keys_apart unfolding list_all_iff by blast

lemma cors_key_apart: "list_all (\<lambda>k'. k' \<noteq> ''Access-Control-Allow-Origin'') (drop 1 other_keys)"
  by code_simp

lemma secure_calls_untouched:
  assumes "map_order scfg ord"
  shows "untouched ''Access-Control-Allow-Origin'' (secure_calls ord scfg)"
proof -
  have "CanonicalKey k \<noteq> ''Access-Control-Allow-Origin''" if "(k, v) \<in> set ord" for k v
    using that assms buildHeaders_names secure_not_other
    by (fastforce simp: map_order_def other_keys_def)
  moreover have "CanonicalKey k \<noteq> ''Access-Control-Allow-Origin''" if "k \<in> set (buildRemoveList scfg)" for k
  proof -
    from that have "k = ''Server'' \<or> k = ''X-Powered-By''"
      unfolding buildRemoveList_def set_append Un_iff by (elim disjE) (simp_all split: if_splits)
    then show ?thesis by (elim disjE) simp_all
  qed
  ultimately show ?thesis
    unfolding untouched_def secure_calls_def list_all_append list_all_iff by fastforce
qed

lemma outer_nothing_sent:
  "rw_Sent (rw_run (handleActual u h r @ secure_calls ord scfg) new_ResponseWriter) = None"
  by (subst header_calls_Sent)
    (simp_all only: list_all_append cors_header_calls, auto simp: secure_calls_def list_all_iff nothing_sent)

text \<open>What the two outer layers write reaches the response unless later calls name it.\<close>

lemma outer_shields:
  assumes "map_order scfg ord"
  shows "shielded u ccfg scfg r (\<lambda>k. untouched k inner)
    (response_header ((handleActual u (newHandler u ccfg) r @ secure_calls ord scfg) @ inner))"
proof -
  let ?pre = "handleActual u (newHandler u ccfg) r @ secure_calls ord scfg"
  let ?resp = "response_header (?pre @ inner)" and ?rw = "rw_run ?pre new_ResponseWriter"
  have keep: "untouched k inner \<Longrightarrow> ?resp k = rw_Header ?rw k" for k
    by (rule response_untouched[OF outer_nothing_sent])
  have "acao (rw_Header ?rw) =
      acao (rw_Header (rw_run (handleActual u (newHandler u ccfg) r) new_ResponseWriter))"
    unfolding acao_def rw_run_append by (rule run_untouched[OF secure_calls_untouched[OF assms]])
  moreover have "rw_Header ?rw (CanonicalKey k) = Some [v]" if "(k, v) \<in> set (buildHeaders scfg)" for k v
    using secure_calls_header[OF assms that] by simp
  ultimately show ?thesis
    using keep actual_header(1)[OF refl, of u ccfg r]
    unfolding shielded_def by (auto simp: acao_def Let_def)
qed

text \<open>A response that one of the layers writes itself.\<close>

definition refused_with ::
  "(string \<Rightarrow> string) \<Rightarrow> cors_Config \<Rightarrow> secure_Config \<Rightarrow> 'w http_Request \<Rightarrow> int \<Rightarrow> 'w \<Rightarrow>
     ('w \<times> rw_call list) outcome \<Rightarrow> bool" where
  "refused_with u ccfg scfg r status w x \<longleftrightarrow>
     (\<exists>calls. x = Ret (w, calls) \<and> response_status calls = status \<and>
        shielded u ccfg scfg r (\<lambda>_. True) (response_header calls))"

text \<open>Calls that name none of the shielded headers.\<close>

definition plain_calls :: "rw_call list \<Rightarrow> bool" where
  "plain_calls calls \<longleftrightarrow> (\<forall>c \<in> set calls. call_key c \<in> insert None (Some ` set (drop 1 other_keys)))"

lemma plain_calls_simps [simp]:
  "plain_calls []" "plain_calls (xs @ ys) \<longleftrightarrow> plain_calls xs \<and> plain_calls ys"
  "plain_calls (c # cs) \<longleftrightarrow> call_key c \<in> insert None (Some ` set (drop 1 other_keys)) \<and> plain_calls cs"
  by (simp_all only: plain_calls_def set_append ball_Un list.set ball_simps)

lemma other_calls_untouched:
  assumes "plain_calls inner"
    and "k = ''Access-Control-Allow-Origin'' \<or> k \<in> set secure_keys"
  shows "untouched k inner"
proof -
  have "k \<notin> set (drop 1 other_keys)"
    using assms(2)
  proof
    assume "k = ''Access-Control-Allow-Origin''"
    with cors_key_apart show ?thesis unfolding list_all_iff by blast
  next
    assume "k \<in> set secure_keys"
    from secure_not_other[OF this] show ?thesis by (metis in_set_dropD)
  qed
  then have "call_key c \<noteq> Some k" if "c \<in> set inner" for c
    using that assms(1) unfolding plain_calls_def by auto
  then show ?thesis by (simp add: untouched_def list_all_iff)
qed

lemma layer_refuses:
  assumes "map_order scfg ord" and "list_all header_call hs" and "\<not> informational status"
    and "plain_calls (hs @ RwWriteHeader status # tail)"
  shows "refused_with u ccfg scfg r status w
    (and_then (handleActual u (newHandler u ccfg) r)
      (and_then (secure_calls ord scfg) (Ret (w, hs @ RwWriteHeader status # tail))))"
proof -
  let ?pre = "handleActual u (newHandler u ccfg) r @ secure_calls ord scfg"
  let ?inner = "hs @ RwWriteHeader status # tail"
  have sent: "rw_Sent (rw_run (?pre @ hs) new_ResponseWriter) = None"
    using outer_nothing_sent[of u "newHandler u ccfg" r ord scfg] header_calls_Sent[OF assms(2)] by simp
  have "response_status (?pre @ ?inner) = status"
    using response_fixed[OF sent assms(3), of tail] by (simp add: response_status_def)
  moreover have "shielded u ccfg scfg r (\<lambda>_. True) (response_header (?pre @ ?inner))"
    using outer_shields[OF assms(1), of u ccfg r ?inner]
    by (rule shielded_mono) (erule other_calls_untouched[OF assms(4)])
  ultimately show ?thesis
    unfolding refused_with_def by simp
qed

text \<open>The inner layers, each as the calls it makes when it refuses.\<close>

lemma limit_calls:
  "list_all header_call (limit_headers lcfg count reset)"
  "plain_calls (limit_headers lcfg count reset)"
  by (simp_all add: limit_headers_def plain_calls_def other_keys_def Let_def)

lemma limiter_refuses:
  assumes "map_order scfg ord"
  shows "refused_with u ccfg scfg r 429 w
    (and_then (handleActual u (newHandler u ccfg) r) (and_then (secure_calls ord scfg)
      (and_then (limit_headers lcfg count reset @ [RwSet ''Retry-After'' v]) (defaultOnLimited r reset w))))"
proof -
  obtain body where body: "(defaultOnLimited r reset w :: ('a \<times> rw_call list) outcome) =
      Ret (w, [RwSet ''Content-Type'' ''application/json''] @ RwWriteHeader 429 # [RwWrite body])"
    by (simp add: defaultOnLimited_def reply_def)
  have "refused_with u ccfg scfg r 429 w
    (and_then (handleActual u (newHandler u ccfg) r) (and_then (secure_calls ord scfg)
      (Ret (w, (limit_headers lcfg count reset @ [RwSet ''Retry-After'' v, RwSet ''Content-Type'' ''application/json'']) @
        RwWriteHeader 429 # [RwWrite body]))))"
    by (rule layer_refuses[OF assms]) (simp_all add: limit_calls informational_def other_keys_def)
  then show ?thesis by (simp add: body)
qed

lemma guard_refuses:
  assumes "map_order scfg ord" and "(status, calls) \<in> {(401, unauthorized_calls), (403, forbidden_calls)}"
  shows "refused_with u ccfg scfg r status w
    (and_then (handleActual u (newHandler u ccfg) r) (and_then (secure_calls ord scfg)
      (and_then (limit_headers lcfg count reset) (Ret (w, calls)))))"
proof -
  have "\<exists>hs body. calls = hs @ RwWriteHeader status # [RwWrite body] \<and> list_all header_call hs \<and>
      plain_calls hs \<and> \<not> informational status"
    using assms(2)
  proof (elim insertE emptyE)
    assume "(status, calls) = (401, unauthorized_calls)"
    then show ?thesis
      by (intro exI[of _ "take 2 unauthorized_calls"])
        (simp add: unauthorized_calls_def informational_def other_keys_def)
  next
    assume "(status, calls) = (403, forbidden_calls)"
    then show ?thesis
      by (intro exI[of _ "take 1 forbidden_calls"])
        (simp add: forbidden_calls_def informational_def other_keys_def)
  qed
  then obtain hs body where hs: "calls = hs @ RwWriteHeader status # [RwWrite body]" "list_all header_call hs"
    "plain_calls hs" "\<not> informational status"
    by blast
  have "refused_with u ccfg scfg r status w
    (and_then (handleActual u (newHandler u ccfg) r) (and_then (secure_calls ord scfg)
      (Ret (w, (limit_headers lcfg count reset @ hs) @ RwWriteHeader status # [RwWrite body]))))"
    by (rule layer_refuses[OF assms(1)]) (simp_all add: hs limit_calls)
  then show ?thesis by (simp add: hs(1))
qed

lemma and_then_and_then: "and_then xs (and_then ys x) = and_then (xs @ ys) x"
  by (cases x) (auto simp: and_then_def split: prod.splits)

text \<open>What the authentication and the permission check make of a request within the limit.\<close>

lemma accepted_claims_decide:
  assumes "map_order scfg ord" and a: "authenticates lib svc now r w1 w2 claims"
    and "x = and_then (handleActual u (newHandler u ccfg) r) (and_then (secure_calls ord scfg)
      (and_then (limit_headers lcfg count reset)
        (JWT lib svc [] now (rbac_Require getRole getSubjectRoles action resource nextH) r w1)))"
  shows "if Claims_Subject claims \<noteq> '''' \<and>
        Can (getRole w2) (getSubjectRoles w2) (Claims_Subject claims) action resource
     then \<exists>pre. x = and_then pre (nextH (r\<lparr>ctx_Claims := Some claims\<rparr>) w2) \<and>
       (\<forall>calls. shielded u ccfg scfg r (\<lambda>k. untouched k calls) (response_header (pre @ calls)))
     else refused_with u ccfg scfg r 403 w2 x" (is "if ?ok then _ else _")
proof -
  let ?cors = "handleActual u (newHandler u ccfg) r" and ?limits = "limit_headers lcfg count reset"
  let ?pre = "?cors @ secure_calls ord scfg @ ?limits"
  have x: "x = and_then ?cors (and_then (secure_calls ord scfg) (and_then ?limits
      (if ?ok then nextH (r\<lparr>ctx_Claims := Some claims\<rparr>) w2 else Ret (w2, forbidden_calls))))"
    unfolding assms(3) JWT_accepts[OF a] by (auto simp: rbac_Require_def writeForbidden_def reply_def WithClaims_def)
  show ?thesis
  proof (cases ?ok)
    case True
    have "x = and_then ?pre (nextH (r\<lparr>ctx_Claims := Some claims\<rparr>) w2)"
      unfolding x if_P[OF True] by (simp only: and_then_and_then append_assoc)
    moreover have "shielded u ccfg scfg r (\<lambda>k. untouched k calls) (response_header (?pre @ calls))" for calls
      using outer_shields[OF assms(1), of u ccfg r "?limits @ calls"]
      unfolding append_assoc
      by (rule shielded_mono) (simp add: other_calls_untouched[OF limit_calls(2)])
    ultimately show ?thesis unfolding if_P[OF True] by blast
  next
    case False
    show ?thesis
      unfolding x if_not_P[OF False] by (rule guard_refuses[OF assms(1)]) simp
  qed
qed

lemma guards_decide:
  assumes "map_order scfg ord"
    and x: "x = and_then (handleActual u (newHandler u ccfg) r) (and_then (secure_calls ord scfg)
      (and_then (limit_headers lcfg count reset)
        (JWT lib svc [] now (rbac_Require getRole getSubjectRoles action resource nextH) r w1)))"
  shows "if \<nexists>w2 claims. authenticates lib svc now r w1 w2 claims then \<exists>w2. refused_with u ccfg scfg r 401 w2 x
    else \<exists>w2 claims. authenticates lib svc now r w1 w2 claims \<and>
      (if Claims_Subject claims \<noteq> '''' \<and>
          Can (getRole w2) (getSubjectRoles w2) (Claims_Subject claims) action resource
       then \<exists>pre. x = and_then pre (nextH (r\<lparr>ctx_Claims := Some claims\<rparr>) w2) \<and>
         (\<forall>calls. shielded u ccfg scfg r (\<lambda>k. untouched k calls) (response_header (pre @ calls)))
       else refused_with u ccfg scfg r 403 w2 x)"
proof (cases "\<nexists>w2 claims. authenticates lib svc now r w1 w2 claims")
  case True
  then obtain w2 where g: "JWT lib svc [] now (rbac_Require getRole getSubjectRoles action resource nextH) r w1 =
      Ret (w2, unauthorized_calls)"
    using JWT_rejects[OF True] by fast
  have "refused_with u ccfg scfg r 401 w2 x"
    unfolding x g by (rule guard_refuses[OF assms(1)]) simp
  then show ?thesis unfolding if_P[OF True] by blast
next
  case False
  then obtain w2 claims where a: "authenticates lib svc now r w1 w2 claims" by blast
  show ?thesis
    unfolding if_not_P[OF False]
    by (intro exI conjI, rule a, rule accepted_claims_decide[OF assms(1) a x])
qed

section \<open>Properties\<close>


text \<open>A browser at a permitted origin, over the limit, within it without a token, and asking first.\<close>

lemma surjective_pairing3: "p = (fst p, fst (snd p), snd (snd p))"
  by simp

definition api_request :: "'w http_Request" where
  "api_request = plain_request\<lparr>req_Header := [''Origin'' \<mapsto> [''https://app.example'']]\<rparr>"


section \<open>Stores that fail\<close>

lemma failing_blacklist_verifies_nothing:
  assumes "opt_blacklist svc = Some bl" and "\<And>w t. \<exists>e. bl_IsRevoked bl w t = Inl e"
  shows "\<not> authenticates lib svc now r w w' claims"
proof
  assume "authenticates lib svc now r w w' claims"
  then obtain token where v: "jwt_Verify lib svc now token w = (w', Inr claims)"
    by (auto simp: authenticates_def)
  have "check_revoked svc w1 token" for w1
    using assms(2)[of w1 token] assms(1) by (auto simp: check_revoked_def)
  with v show False
    by (auto simp: jwt_Verify_def split: option.splits sum.splits prod.splits if_splits)
qed

lemma Can_without_roles: "(\<And>n. \<exists>e. getRole n = Inl e) \<Longrightarrow> \<not> Can getRole getSubjectRoles subject action resource"
proof
  assume e: "\<And>n. \<exists>e. getRole n = Inl e" and "Can getRole getSubjectRoles subject action resource"
  from this(2) obtain m where "grants getRole action resource m" by (rule Can_sound)
  with e[of m] show False by (auto simp: grants_def)
qed

lemma failing_counter_limits:
  fixes r :: "'w http_Request"
  assumes "snd (snd (incr (remoteIP r) win w)) \<noteq> None"
  shows "\<exists>w' calls. ratelimit_New incr (Per limit win) t nextH r w = Ret (w', calls) \<and> response_status calls = 429"
proof -
  obtain w' count err where i: "incr (remoteIP r) win w = (w', count, err)" by (metis prod_cases3)
  let ?reset = "time_Add t win"
  let ?hs = "limit_headers (Per limit win :: 'w ratelimit_Config) count ?reset @
    [RwSet ''Retry-After'' (FormatInt (duration_whole_seconds win)), RwSet ''Content-Type'' ''application/json'']"
  obtain body where body: "(defaultOnLimited r ?reset w' :: ('w \<times> rw_call list) outcome) =
      Ret (w', [RwSet ''Content-Type'' ''application/json'', RwWriteHeader 429, RwWrite body])"
    by (simp add: defaultOnLimited_def reply_def)
  have sent: "rw_Sent (rw_run ?hs new_ResponseWriter) = None"
    by (simp add: header_calls_Sent limit_calls nothing_sent)
  have "response_status (?hs @ RwWriteHeader 429 # [RwWrite body]) = 429"
    by (subst response_status_def, subst response_fixed[OF sent]) (simp_all add: informational_def)
  moreover have "ratelimit_New incr (Per limit win) t nextH r w = Ret (w', ?hs @ RwWriteHeader 429 # [RwWrite body])"
    using assms by (simp add: ratelimit_New_def Per_def i body Let_def)
  ultimately show ?thesis by blast
qed

text \<open>
  C8: what the guards do when the store behind them reports an error, at every place where the
  library asks one. The role store, while reading the subject's assignments or each of the
  roles: 403 from \<open>rbac.Require\<close>; the assignments: 403 from \<open>RequireRole\<close>. The blacklist: no token is
  accepted, 401. The key store: 401. The counter of the limiter: 429. The policy store: 403 from an
  evaluator with the default effect, but an evaluator made with \<open>WithDefaultAllow\<close> lets the
  request through, so a deny policy holds only as long as the store can be read.
\<close>

theorem backend_errors_are_refused:
  fixes r :: "'w http_Request"
  shows "((\<exists>e. getSubjectRoles w (SubjectFrom r) = Inl e) \<or> (\<forall>n. \<exists>e. getRole w n = Inl e) \<longrightarrow>
      rbac_Require getRole getSubjectRoles action resource nextH r w = Ret (w, forbidden_calls)) \<and>
   ((\<exists>e. getSubjectRoles w (SubjectFrom r) = Inl e) \<longrightarrow>
      rbac_RequireRole getSubjectRoles roles nextH r w = Ret (w, forbidden_calls)) \<and>
   (opt_blacklist svc = Some bl \<and> (\<forall>w t. \<exists>e. bl_IsRevoked bl w t = Inl e) \<longrightarrow>
      (\<exists>w'. JWT lib svc [] now nextH r w = Ret (w', unauthorized_calls))) \<and>
   ((\<forall>h. \<exists>e. ks_GetByHash st w h = Inl e) \<longrightarrow>
      apikey_Middleware st [] now nextH r w = Ret (w, unauthorized_calls)) \<and>
   (snd (snd (incr (remoteIP r) win w)) \<noteq> None \<longrightarrow>
      (\<exists>w' calls. ratelimit_New incr (Per limit win) t nextH r w = Ret (w', calls) \<and>
         response_status calls = 429)) \<and>
   ((\<exists>e. policies w = Inl e) \<longrightarrow>
      abac_Require policies (abac_New []) action resourceFn subjectFn nextH r w = Ret (w, forbidden_calls) \<and>
      abac_Require policies (abac_New [WithDefaultAllow]) action resourceFn subjectFn nextH r w = nextH r w)"
  (is "(?a \<or> ?b \<longrightarrow> ?A) \<and> (_ \<longrightarrow> ?B) \<and> (?c \<longrightarrow> ?C) \<and> (?d \<longrightarrow> ?D) \<and> (?e \<longrightarrow> ?E) \<and> (?f \<longrightarrow> ?F)")
proof (intro conjI impI)
  assume "?a \<or> ?b"
  then have "\<not> Can (getRole w) (getSubjectRoles w) (SubjectFrom r) action resource"
    using Can_without_roles[of "getRole w"] by (auto simp: Can_def)
  then show ?A by (simp add: rbac_Require_def writeForbidden_def reply_def Let_def)
next
  assume ?a
  then show ?B by (auto simp: rbac_RequireRole_def RolesFor_def writeForbidden_def reply_def Let_def)
next
  assume ?c
  then show ?C by (intro JWT_rejects) (auto dest: failing_blacklist_verifies_nothing)
next
  assume ?d
  then obtain e where "ks_GetByHash st w (hashKey (extractKey r)) = Inl e" by blast
  then have "apikey_Verify st now (extractKey r) w = Inl ErrInvalidKey"
    by (simp add: apikey_Verify_def Let_def)
  then show ?D
    by (simp add: apikey_Middleware_def defaultErrHandler_def reply_def Let_def)
next
  assume ?e
  then show ?E by (rule failing_counter_limits)
next
  assume ?f
  then obtain e where "policies w = Inl e" by blast
  then show "abac_Require policies (abac_New []) action resourceFn subjectFn nextH r w = Ret (w, forbidden_calls)"
    and "abac_Require policies (abac_New [WithDefaultAllow]) action resourceFn subjectFn nextH r w = nextH r w"
    by (simp_all add: abac_Require_def Evaluator_Allow_def Evaluate_def default_decision_def abac_New_def
        WithDefaultAllow_def reply_def Let_def)
qed

text \<open>Stores that always fail, and a request that names a subject.\<close>

definition down_blacklist :: "unit Blacklist" where
  "down_blacklist = \<lparr>bl_Revoke = (\<lambda>w t. (w, None)), bl_IsRevoked = (\<lambda>w t. Inl ErrInvalidToken)\<rparr>"

definition down_keys :: "unit KeyStore" where
  "down_keys = \<lparr>ks_Save = (\<lambda>w k. (w, None)), ks_GetByHash = (\<lambda>w h. Inl (ErrStore ''down'')),
     ks_GetByID = (\<lambda>w i. Inl (ErrStore ''down'')), ks_Revoke = (\<lambda>w i. (w, None))\<rparr>"

lemma backend_errors_are_refused_witness:
  "let ok = (\<lambda>r. reply [RwWrite ''secret'']) :: unit Handler; r = bearer_request ''tok'' in
     rbac_Require (\<lambda>w n. Inl ErrRoleNotFound) (\<lambda>w s. Inr [''admin'']) ''read'' ''posts'' ok r () = Ret ((), forbidden_calls) \<and>
     rbac_RequireRole (\<lambda>w s. Inl ErrRoleNotFound) [''admin''] ok r () = Ret ((), forbidden_calls) \<and>
     (\<exists>w'. JWT (one_token_lib undefined) (jwt_New [WithHMAC ''secret'', WithBlacklist down_blacklist]) [] 0 ok r () =
        Ret (w', unauthorized_calls)) \<and>
     apikey_Middleware down_keys [] 0 ok r () = Ret ((), unauthorized_calls) \<and>
     (\<exists>w' calls. ratelimit_New (\<lambda>k win w. (w, 0, Some ''down'')) (Per 5 Minute) 0 ok r () = Ret (w', calls) \<and>
        response_status calls = 429) \<and>
     abac_Require (\<lambda>w. Inl ErrPolicyNotFound) (abac_New []) ''read'' None SubjectFromClaims ok r () = Ret ((), forbidden_calls) \<and>
     abac_Require (\<lambda>w. Inl ErrPolicyNotFound) (abac_New [WithDefaultAllow]) ''read'' None SubjectFromClaims ok r () =
       Ret ((), [RwWrite ''secret''])"
proof -
  have bl: "opt_blacklist (jwt_New [WithHMAC ''secret'', WithBlacklist down_blacklist]) = Some down_blacklist"
    by (simp add: jwt_option_defs)
  let ?ok = "(\<lambda>r. reply [RwWrite ''secret'']) :: unit Handler" and ?r = "bearer_request ''tok'' :: unit http_Request"
  note b = backend_errors_are_refused[where w = "()" and getRole = "\<lambda>w n. Inl ErrRoleNotFound" and resource = "''posts''" and nextH = ?ok and r = ?r and action = "''read''" and
      st = down_keys and lib = "one_token_lib undefined" and now = 0 and bl = down_blacklist and
      svc = "jwt_New [WithHMAC ''secret'', WithBlacklist down_blacklist]" and
      policies = "\<lambda>w. Inl ErrPolicyNotFound" and resourceFn = None and subjectFn = SubjectFromClaims and t = 0 and limit = 5 and win = Minute]
  have 1: "rbac_Require (\<lambda>w n. Inl ErrRoleNotFound) (\<lambda>w s. Inr [''admin'']) ''read'' ''posts'' ?ok ?r () = Ret ((), forbidden_calls)"
    using b[THEN conjunct1] by blast
  have 2: "rbac_RequireRole (\<lambda>w s. Inl ErrRoleNotFound) [''admin''] ?ok ?r () = Ret ((), forbidden_calls)"
    using b[THEN conjunct2, THEN conjunct1] by simp
  have 3: "\<exists>w'. JWT (one_token_lib undefined) (jwt_New [WithHMAC ''secret'', WithBlacklist down_blacklist]) [] 0 ?ok ?r () =
      Ret (w', unauthorized_calls)"
    using b[THEN conjunct2, THEN conjunct2, THEN conjunct1] bl by (simp add: down_blacklist_def)
  have 4: "apikey_Middleware down_keys [] 0 ?ok ?r () = Ret ((), unauthorized_calls)"
    using b[THEN conjunct2, THEN conjunct2, THEN conjunct2, THEN conjunct1] by (simp add: down_keys_def)
  have 5: "\<exists>w' calls. ratelimit_New (\<lambda>k win w. (w, 0, Some ''down'')) (Per 5 Minute) 0 ?ok ?r () = Ret (w', calls) \<and>
      response_status calls = 429"
    using b[THEN conjunct2, THEN conjunct2, THEN conjunct2, THEN conjunct2, THEN conjunct1] by simp
  have 6: "abac_Require (\<lambda>w. Inl ErrPolicyNotFound) (abac_New []) ''read'' None SubjectFromClaims ?ok ?r () = Ret ((), forbidden_calls) \<and>
      abac_Require (\<lambda>w. Inl ErrPolicyNotFound) (abac_New [WithDefaultAllow]) ''read'' None SubjectFromClaims ?ok ?r () = ?ok ?r ()"
    using b[THEN conjunct2, THEN conjunct2, THEN conjunct2, THEN conjunct2, THEN conjunct2] by simp
  show ?thesis
    using 1 2 3 4 5 6 by (simp add: reply_def)
qed

end
