(* ===== verification/RbacConcurrent.thy ===== *)
theory RbacConcurrent
  imports Rbac
begin

text \<open>
  The search of \<open>Enforcer.Can\<close> (\<open>rbac/rbac.go\<close>) while other goroutines change the store. The store
  locks each of its methods, not the search: \<open>GetSubjectRoles\<close> and every \<open>GetRole\<close> see the store as
  it is at that moment. Here the search is a machine whose steps contain at most one such read; a
  run of it takes the store that the \<open>i\<close>-th step sees from a sequence \<open>st\<close>, on which nothing is assumed.
\<close>

section \<open>The search as a machine\<close>

text \<open>
  \<open>Searching pending visited\<close>: the loops still have the names \<open>pending\<close> before them, those of the
  innermost loop first.
\<close>

datatype search =
    Begin string
  | Searching "string list" "string list"
  | Answered bool

definition enter_role ::
  "string \<Rightarrow> string \<Rightarrow> rbac_MemoryStore \<Rightarrow> string \<Rightarrow> string list \<Rightarrow> string list \<Rightarrow> search" where
  "enter_role action resource s name pending visited =
     (if name \<in> set visited \<or> 64 < length visited then Searching pending visited
      else case GetRole s name of
             Inl _ \<Rightarrow> Searching pending (name # visited)
           | Inr role \<Rightarrow>
               if list_ex (\<lambda>perm. matches perm resource action) (Role_Permissions role) then Answered True
               else Searching (Role_Parents role @ pending) (name # visited))"

fun search_step :: "string \<Rightarrow> string \<Rightarrow> rbac_MemoryStore \<Rightarrow> search \<Rightarrow> search" where
  "search_step action resource s (Begin subject) =
     (case GetSubjectRoles s subject of Inl _ \<Rightarrow> Answered False | Inr roleNames \<Rightarrow> Searching roleNames [])"
| "search_step action resource s (Searching [] visited) = Answered False"
| "search_step action resource s (Searching (name # pending) visited) =
     enter_role action resource s name pending visited"
| "search_step action resource s (Answered b) = Answered b"

fun search_run :: "string \<Rightarrow> string \<Rightarrow> (nat \<Rightarrow> rbac_MemoryStore) \<Rightarrow> search \<Rightarrow> nat \<Rightarrow> search" where
  "search_run action resource st p 0 = p"
| "search_run action resource st p (Suc n) = search_step action resource (st n) (search_run action resource st p n)"

section \<open>A search that is left alone\<close>

text \<open>\<open>reaches s p q\<close>: finitely many steps on the store \<open>s\<close> lead from \<open>p\<close> to \<open>q\<close>.\<close>

inductive reaches :: "string \<Rightarrow> string \<Rightarrow> rbac_MemoryStore \<Rightarrow> search \<Rightarrow> search \<Rightarrow> bool" for action resource s where
  reaches_refl [intro]: "reaches action resource s p p"
| reaches_step: "reaches action resource s (search_step action resource s p) q \<Longrightarrow> reaches action resource s p q"

lemma reaches_one: "search_step a r s p = q \<Longrightarrow> reaches a r s p q"
  by (auto intro: reaches_step)

lemma reaches_trans: "reaches a r s p q \<Longrightarrow> reaches a r s q q' \<Longrightarrow> reaches a r s p q'"
  by (induction rule: reaches.induct) (auto intro: reaches_step)

text \<open>
  The machine does what the recursive functions do: working off the names of a loop in front of
  \<open>pending\<close> leads to the answer, or to \<open>pending\<close> with the visited names the loop returns.
\<close>

lemma machine_follows_recursion:
  fixes getRole getRole' :: "string \<Rightarrow> rbac_error + Role"
  shows "getRole = GetRole s \<Longrightarrow> roleHasPermission getRole name action resource visited = (b, v) \<Longrightarrow>
      reaches action resource s (Searching (name # pending) visited) (if b then Answered True else Searching pending v)"
    and "getRole' = GetRole s \<Longrightarrow> parentsHavePermission getRole' names action' resource' visited' = (b, v) \<Longrightarrow>
      reaches action' resource' s (Searching (names @ pending) visited') (if b then Answered True else Searching pending v)"
proof (induction getRole name action resource visited and getRole' names action' resource' visited'
    arbitrary: b v pending and b v pending rule: roleHasPermission_parentsHavePermission.induct)
  case (1 getRole name action resource visited)
  note res = 1(3)[unfolded roleHasPermission.simps[of getRole]]
  show ?case
  proof (cases "name \<in> set visited \<or> 64 < length visited")
    case True
    with res show ?thesis by (intro reaches_one) (auto simp: enter_role_def)
  next
    case False
    show ?thesis
    proof (cases "getRole name")
      case (Inl e)
      with False res 1(2) show ?thesis
        by (intro reaches_one) (auto simp: enter_role_def)
    next
      case (Inr role)
      show ?thesis
      proof (cases "list_ex (\<lambda>perm. matches perm resource action) (Role_Permissions role)")
        case True
        with False Inr res 1(2) show ?thesis
          by (intro reaches_one) (auto simp: enter_role_def)
      next
        case no: False
        with False Inr res have "parentsHavePermission getRole (Role_Parents role) action resource (name # visited) = (b, v)"
          by simp
        from 1(1)[OF False Inr no 1(2) this, of pending] have
          "reaches action resource s (Searching (Role_Parents role @ pending) (name # visited))
             (if b then Answered True else Searching pending v)" .
        moreover have "search_step action resource s (Searching (name # pending) visited) =
            Searching (Role_Parents role @ pending) (name # visited)"
          using False Inr no 1(2) by (auto simp: enter_role_def)
        ultimately show ?thesis by (metis reaches_step)
      qed
    qed
  qed
next
  case (2 getRole action resource visited)
  then show ?case by auto
next
  case (3 getRole parent parents action resource visited)
  obtain b1 v1 where first: "roleHasPermission getRole parent action resource visited = (b1, v1)"
    by fastforce
  from 3(1)[OF 3(3) first, of "parents @ pending"]
  have step: "reaches action resource s (Searching (parent # parents @ pending) visited)
      (if b1 then Answered True else Searching (parents @ pending) v1)" .
  show ?case
  proof (cases b1)
    case True
    with step 3(4) first show ?thesis by simp
  next
    case False
    with 3(4) first have "parentsHavePermission getRole parents action resource v1 = (b, v)" by simp
    from False have b1: "b1 = False" by simp
    from 3(2)[OF first[symmetric] b1 3(3) \<open>parentsHavePermission getRole parents action resource v1 = (b, v)\<close>, of pending]
    have "reaches action resource s (Searching (parents @ pending) v1) (if b then Answered True else Searching pending v)" .
    moreover from step b1 have "reaches action resource s (Searching (parent # parents @ pending) visited) (Searching (parents @ pending) v1)"
      by simp
    ultimately show ?thesis unfolding append_Cons by (rule reaches_trans[rotated])
  qed
qed

lemma run_const_Suc:
  "search_run a r (\<lambda>_. s) (search_step a r s p) n = search_run a r (\<lambda>_. s) p (Suc n)"
  by (induction n) simp_all

lemma reaches_run: "reaches a r s p q \<Longrightarrow> \<exists>n. search_run a r (\<lambda>_. s) p n = q"
proof (induction rule: reaches.induct)
  case (reaches_refl p)
  show ?case by (rule exI[of _ 0]) simp
next
  case (reaches_step p q)
  then show ?case unfolding run_const_Suc by blast
qed

lemma answer_stays: "search_run a r st p n = Answered b \<Longrightarrow> n \<le> m \<Longrightarrow> search_run a r st p m = Answered b"
  by (induction m) (auto simp: le_Suc_eq)

lemma reaches_Can:
  "reaches action resource s (Begin subject) (Answered (Can (GetRole s) (GetSubjectRoles s) subject action resource))"
proof -
  let ?names = "subject_slice s subject"
  obtain b v where p: "parentsHavePermission (GetRole s) ?names action resource [] = (b, v)" by fastforce
  from machine_follows_recursion(2)[OF refl p, of "[]"]
  have "reaches action resource s (Searching ?names []) (Answered b)"
    by (auto simp: reaches_one split: if_splits intro: reaches_trans)
  then have "reaches action resource s (Begin subject) (Answered b)"
    by (intro reaches_step[where p = "Begin subject"]) (simp add: GetSubjectRoles_def)
  with p show ?thesis by (simp add: Can_def GetSubjectRoles_def)
qed

section \<open>Termination\<close>

fun search_rank :: "search \<Rightarrow> nat \<times> nat" where
  "search_rank (Begin subject) = (67, 0)"
| "search_rank (Searching pending visited) = (Suc (65 - length visited), length pending)"
| "search_rank (Answered b) = (0, 0)"

lemma search_step_decreases:
  "(\<exists>b. p = Answered b) \<or> (search_rank (search_step a r s p), search_rank p) \<in> less_than <*lex*> less_than"
  by (cases "(a, r, s, p)" rule: search_step.cases)
    (auto simp: enter_role_def GetSubjectRoles_def split: sum.splits)

lemma search_ends: "\<exists>n b. search_run a r st p n = Answered b"
proof (rule ccontr)
  assume no: "\<nexists>n b. search_run a r st p n = Answered b"
  let ?f = "\<lambda>n. search_rank (search_run a r st p n)"
  have "(?f (Suc n), ?f n) \<in> less_than <*lex*> less_than" for n
    using search_step_decreases[of "search_run a r st p n" a r "st n"] no by auto
  moreover have "wf (less_than <*lex*> less_than)" by (rule wf_lex_prod) (rule wf_less_than)+
  ultimately show False by (elim wf_no_infinite_down_chainE[where f = ?f]) blast
qed

section \<open>What an answer means\<close>

text \<open>
  \<open>linked st subject n name\<close>: after \<open>n\<close> steps the search may know \<open>name\<close>, because the subject held
  it when its roles were read, or because a role known before had it as a parent when that was read.
\<close>

inductive linked :: "(nat \<Rightarrow> rbac_MemoryStore) \<Rightarrow> string \<Rightarrow> nat \<Rightarrow> string \<Rightarrow> bool" for st subject where
  assigned: "name \<in> set (subject_slice (st 0) subject) \<Longrightarrow> linked st subject 1 name"
| inherited: "linked st subject i name \<Longrightarrow> i \<le> n \<Longrightarrow> GetRole (st n) name = Inr role \<Longrightarrow>
     parent \<in> set (Role_Parents role) \<Longrightarrow> linked st subject (Suc n) parent"

definition granted_on_the_way ::
  "string \<Rightarrow> string \<Rightarrow> (nat \<Rightarrow> rbac_MemoryStore) \<Rightarrow> string \<Rightarrow> nat \<Rightarrow> bool" where
  "granted_on_the_way action resource st subject n \<longleftrightarrow>
     (\<exists>i j name. linked st subject i name \<and> i \<le> j \<and> j < n \<and> grants (GetRole (st j)) action resource name)"

fun links_ok :: "string \<Rightarrow> string \<Rightarrow> (nat \<Rightarrow> rbac_MemoryStore) \<Rightarrow> string \<Rightarrow> nat \<Rightarrow> search \<Rightarrow> bool" where
  "links_ok a r st subject n (Begin s) \<longleftrightarrow> s = subject \<and> n = 0"
| "links_ok a r st subject n (Searching pending visited) \<longleftrightarrow> (\<forall>x \<in> set pending. \<exists>i \<le> n. linked st subject i x)"
| "links_ok a r st subject n (Answered b) \<longleftrightarrow> (b \<longrightarrow> granted_on_the_way a r st subject n)"

lemma links_ok_enter:
  assumes "\<forall>x \<in> set (name # pending). \<exists>i \<le> n. linked st subject i x"
  shows "links_ok a r st subject (Suc n) (enter_role a r (st n) name pending visited)"
proof -
  have later: "\<forall>x \<in> set pending. \<exists>i \<le> Suc n. linked st subject i x"
    using assms by (auto intro: le_SucI)
  obtain i where i: "i \<le> n" "linked st subject i name" using assms by auto
  show ?thesis
  proof (cases "GetRole (st n) name")
    case (Inl e)
    with later show ?thesis by (simp add: enter_role_def)
  next
    case (Inr role)
    with i have parents: "\<forall>x \<in> set (Role_Parents role). linked st subject (Suc n) x"
      by (blast intro: linked.inherited)
    have "grants (GetRole (st n)) a r name \<Longrightarrow> granted_on_the_way a r st subject (Suc n)"
      using i by (auto simp: granted_on_the_way_def)
    then show ?thesis
      using Inr later parents by (auto simp: enter_role_def grants_def)
  qed
qed

lemma links_ok_run: "links_ok a r st subject n (search_run a r st (Begin subject) n)"
proof (induction n)
  case 0
  show ?case by simp
next
  case (Suc n)
  show ?case
  proof (cases "search_run a r st (Begin subject) n")
    case (Begin s)
    with Suc show ?thesis by (auto simp: GetSubjectRoles_def intro!: exI[of _ 1] linked.assigned)
  next
    case (Searching pending visited)
    with Suc links_ok_enter[of _ _ n st subject a r visited] show ?thesis
      by (cases pending) auto
  next
    case (Answered b)
    with Suc show ?thesis
      by (auto simp: granted_on_the_way_def intro: less_SucI)
  qed
qed

text \<open>A grant that lasts: every link is in every store of the call, and so is the permission.\<close>

definition always_parent :: "(nat \<Rightarrow> rbac_MemoryStore) \<Rightarrow> string \<Rightarrow> string \<Rightarrow> bool" where
  "always_parent st name parent \<longleftrightarrow>
     (\<forall>i. \<exists>role. GetRole (st i) name = Inr role \<and> parent \<in> set (Role_Parents role))"

inductive lasting :: "(nat \<Rightarrow> rbac_MemoryStore) \<Rightarrow> string \<Rightarrow> string \<Rightarrow> bool" for st subject where
  lasting_assigned: "name \<in> set (subject_slice (st 0) subject) \<Longrightarrow> lasting st subject name"
| lasting_inherited: "lasting st subject name \<Longrightarrow>
     always_parent st name parent \<Longrightarrow> lasting st subject parent"

text \<open>All roles the call can meet are in \<open>U\<close>, whatever the store is at each step.\<close>

definition call_within :: "(nat \<Rightarrow> rbac_MemoryStore) \<Rightarrow> string \<Rightarrow> string set \<Rightarrow> bool" where
  "call_within st subject U \<longleftrightarrow>
     finite U \<and> card U \<le> 65 \<and> set (subject_slice (st 0) subject) \<subseteq> U \<and> (\<forall>i. parents_closed (GetRole (st i)) U)"

fun search_ok :: "string \<Rightarrow> string \<Rightarrow> (nat \<Rightarrow> rbac_MemoryStore) \<Rightarrow> string \<Rightarrow> string set \<Rightarrow> string \<Rightarrow> nat \<Rightarrow> search \<Rightarrow> bool" where
  "search_ok a r st subject U m n (Begin s) \<longleftrightarrow> s = subject \<and> n = 0"
| "search_ok a r st subject U m n (Searching pending visited) \<longleftrightarrow>
     distinct visited \<and> set visited \<subseteq> U \<and> set pending \<subseteq> U \<and> m \<notin> set visited \<and>
     set (subject_slice (st 0) subject) \<subseteq> set visited \<union> set pending \<and>
     (\<forall>x \<in> set visited. \<forall>p. always_parent st x p \<longrightarrow> p \<in> set visited \<union> set pending)"
| "search_ok a r st subject U m n (Answered b) \<longleftrightarrow> b"

lemma search_ok_enter:
  assumes within: "call_within st subject U" and m: "\<And>i. grants (GetRole (st i)) a r m"
    and ok: "search_ok a r st subject U m n (Searching (name # pending) visited)"
  shows "search_ok a r st subject U m (Suc n) (enter_role a r (st n) name pending visited)"
proof (cases "name \<in> set visited")
  case True
  with ok show ?thesis by (fastforce simp: enter_role_def)
next
  case False
  have "length visited \<le> 64"
    using below_cap[of visited U name] False ok within by (auto simp: call_within_def)
  then have go: "\<not> (name \<in> set visited \<or> 64 < length visited)" using False by simp
  show ?thesis
  proof (cases "GetRole (st n) name")
    case (Inl e)
    moreover have "m \<noteq> name" using Inl m[of n] by (auto simp: grants_def)
    moreover have "\<not> always_parent st name p" for p
      using Inl by (metis Inl_Inr_False always_parent_def)
    ultimately show ?thesis using ok False go by (auto simp: enter_role_def)
  next
    case (Inr role)
    show ?thesis
    proof (cases "list_ex (\<lambda>perm. matches perm r a) (Role_Permissions role)")
      case True
      with Inr go show ?thesis by (simp add: enter_role_def)
    next
      case no: False
      moreover have "m \<noteq> name" using Inr m[of n] no by (auto simp: grants_def)
      moreover have "set (Role_Parents role) \<subseteq> U"
        using within Inr ok unfolding call_within_def parents_closed_def search_ok.simps
        by (metis list.set_intros(1) subsetD)
      moreover have "p \<in> set (Role_Parents role)"
        if "always_parent st name p" for p
        using that Inr by (metis Inr_inject always_parent_def)
      ultimately show ?thesis using Inr ok False go by (auto simp: enter_role_def)
    qed
  qed
qed

lemma search_ok_run:
  assumes "call_within st subject U" and "\<And>i. grants (GetRole (st i)) a r m" and "lasting st subject m"
  shows "search_ok a r st subject U m n (search_run a r st (Begin subject) n)"
proof (induction n)
  case 0
  show ?case by simp
next
  case (Suc n)
  show ?case
  proof (cases "search_run a r st (Begin subject) n")
    case (Begin s)
    with Suc assms(1) show ?thesis by (auto simp: GetSubjectRoles_def call_within_def)
  next
    case (Searching pending visited)
    show ?thesis
    proof (cases pending)
      case Nil
      with Searching Suc have ok: "search_ok a r st subject U m n (Searching [] visited)" by simp
      have "lasting st subject x \<Longrightarrow> x \<in> set visited" for x
        by (induction rule: lasting.induct) (use ok in auto)
      with assms(3) ok show ?thesis by simp
    next
      case (Cons name rest)
      with Searching Suc search_ok_enter[OF assms(1,2), of n name rest visited] show ?thesis by simp
    qed
  next
    case (Answered b)
    with Suc show ?thesis by simp
  qed
qed

section \<open>Properties\<close>

text \<open>
  C15: alone, the machine computes \<open>Can\<close>. Every search whose reads all see one store settles on the
  answer of \<open>Can\<close> for that store.
\<close>

theorem undisturbed_search_is_Can:
  "\<exists>n. \<forall>m. search_run action resource (\<lambda>_. s) (Begin subject) (n + m) =
     Answered (Can (GetRole s) (GetSubjectRoles s) subject action resource)"
  using reaches_run[OF reaches_Can, of action resource s subject] answer_stays le_add1 by metis

text \<open>
  C2: concurrent changes cannot hang a check or make up a grant. Whatever happens to the store
  during the call, the search ends with an answer; it answers true only if each link from the
  subject to the granting role, and the permission, was in the store at the moment it was read, in
  that order; and it does answer true if such links and the permission stay in the store throughout
  and no more than 65 roles can come into play.
\<close>

theorem concurrent_check:
  "(\<exists>n b. search_run action resource st (Begin subject) n = Answered b) \<and>
   (search_run action resource st (Begin subject) n = Answered True \<longrightarrow>
      granted_on_the_way action resource st subject n) \<and>
   (call_within st subject U \<and> lasting st subject m \<and> (\<forall>i. grants (GetRole (st i)) action resource m) \<longrightarrow>
      (\<exists>n. search_run action resource st (Begin subject) n = Answered True))"
proof (intro conjI impI)
  show ends: "\<exists>n b. search_run action resource st (Begin subject) n = Answered b"
    by (rule search_ends)
  show "granted_on_the_way action resource st subject n"
    if "search_run action resource st (Begin subject) n = Answered True"
    using links_ok_run[of action resource st subject n] that by simp
  assume a: "call_within st subject U \<and> lasting st subject m \<and> (\<forall>i. grants (GetRole (st i)) action resource m)"
  from ends obtain n b where n: "search_run action resource st (Begin subject) n = Answered b" by blast
  from a have "search_ok action resource st subject U m n (search_run action resource st (Begin subject) n)"
    by (intro search_ok_run) auto
  with n show "\<exists>n. search_run action resource st (Begin subject) n = Answered True" by auto
qed

lemma concurrent_check_witness:
  "\<exists>n. search_run ''read'' ''posts'' (\<lambda>_. cyclic_example) (Begin ''bob'') n = Answered True"
proof -
  let ?st = "\<lambda>_ :: nat. cyclic_example" and ?U = "{''editor'', ''viewer''}"
  have slice: "subject_slice cyclic_example ''bob'' = [''editor'']"
    by (simp add: cyclic_example_def store_laws subject_slice_def rbac_NewMemoryStore_def AssignRole_def AddRole_def)
  have "call_within ?st ''bob'' ?U"
    by (auto simp: call_within_def slice parents_closed_def GetRole_cyclic_example split: if_splits)
  moreover have "lasting ?st ''bob'' ''viewer''"
    by (rule lasting_inherited[OF lasting_assigned[of "''editor''"]])
      (simp_all add: slice always_parent_def GetRole_cyclic_example)
  moreover have "\<forall>i. grants (GetRole (?st i)) ''read'' ''posts'' ''viewer''"
    by (simp add: grants_def GetRole_cyclic_example matches_def)
  ultimately show ?thesis
    using concurrent_check[of "''read''" "''posts''" ?st "''bob''" 0 ?U "''viewer''"] by blast
qed

text \<open>A store in which bob is an intern and interns inherit from staff, which may do nothing yet.\<close>

definition intern_store :: rbac_MemoryStore where
  "intern_store = rbac_run rbac_NewMemoryStore
     [OpAddRole \<lparr>Role_Name = ''staff'', Role_Parents = [], Role_Permissions = []\<rparr>,
      OpAddRole \<lparr>Role_Name = ''intern'', Role_Parents = [''staff''], Role_Permissions = []\<rparr>,
      OpAssignRole ''bob'' ''intern'']"

text \<open>First the inheritance is cut, then staff get a permission.\<close>

definition cut_then_grant :: "rbac_op list" where
  "cut_then_grant =
     [OpAddRole \<lparr>Role_Name = ''intern'', Role_Parents = [], Role_Permissions = []\<rparr>,
      OpAddRole \<lparr>Role_Name = ''staff'', Role_Parents = [],
                 Role_Permissions = [\<lparr>Permission_Resource = ''payroll'', Permission_Action = ''read''\<rparr>]\<rparr>]"

definition intern_history :: "nat \<Rightarrow> rbac_MemoryStore" where
  "intern_history i = (if i < 2 then intern_store else rbac_run intern_store cut_then_grant)"

lemma intern_stores:
  "GetSubjectRoles intern_store ''bob'' = Inr [''intern'']"
  "GetSubjectRoles (rbac_run intern_store cut_then_grant) ''bob'' = Inr [''intern'']"
  "GetSubjectRoles (rbac_run intern_store (take (Suc 0) cut_then_grant)) ''bob'' = Inr [''intern'']"
  "GetRole intern_store ''intern'' = Inr \<lparr>Role_Name = ''intern'', Role_Parents = [''staff''], Role_Permissions = []\<rparr>"
  "GetRole intern_store ''staff'' = Inr \<lparr>Role_Name = ''staff'', Role_Parents = [], Role_Permissions = []\<rparr>"
  "GetRole (rbac_run intern_store (take (Suc 0) cut_then_grant)) ''intern'' =
     Inr \<lparr>Role_Name = ''intern'', Role_Parents = [], Role_Permissions = []\<rparr>"
  "GetRole (rbac_run intern_store cut_then_grant) ''intern'' =
     Inr \<lparr>Role_Name = ''intern'', Role_Parents = [], Role_Permissions = []\<rparr>"
  "GetRole (rbac_run intern_store cut_then_grant) ''staff'' = Inr \<lparr>Role_Name = ''staff'', Role_Parents = [],
     Role_Permissions = [\<lparr>Permission_Resource = ''payroll'', Permission_Action = ''read''\<rparr>]\<rparr>"
  by (simp_all add: intern_store_def cut_then_grant_def GetRole_def GetSubjectRoles_def subject_slice_def
      store_laws rbac_NewMemoryStore_def AssignRole_def AddRole_def)

text \<open>
  A check is not a snapshot. In no state of the store may bob read the payroll, neither before,
  between nor after two updates; a check that reads his role before them and its parent after them
  grants it.
\<close>

theorem check_can_mix_states:
  "(\<forall>k. \<not> Can (GetRole (rbac_run intern_store (take k cut_then_grant)))
       (GetSubjectRoles (rbac_run intern_store (take k cut_then_grant))) ''bob'' ''read'' ''payroll'') \<and>
   search_run ''read'' ''payroll'' intern_history (Begin ''bob'') 3 = Answered True"
proof (intro conjI allI)
  fix k :: nat
  have "2 \<le> k \<Longrightarrow> take k cut_then_grant = cut_then_grant" by (simp add: cut_then_grant_def)
  moreover have "k = 0 \<or> k = Suc 0 \<or> 2 \<le> k" by linarith
  ultimately consider "k = 0" | "k = Suc 0" | "take k cut_then_grant = cut_then_grant" by blast
  then show "\<not> Can (GetRole (rbac_run intern_store (take k cut_then_grant)))
       (GetSubjectRoles (rbac_run intern_store (take k cut_then_grant))) ''bob'' ''read'' ''payroll''"
    by cases (simp_all add: Can_def intern_stores roleHasPermission.simps)
next
  show "search_run ''read'' ''payroll'' intern_history (Begin ''bob'') 3 = Answered True"
    by (simp add: eval_nat_numeral intern_history_def intern_stores enter_role_def matches_def)
qed

end
