(* ===== verification/JwtConcurrent.thy ===== *)
theory JwtConcurrent
  imports Jwt
begin

text \<open>
  Calls of the JWT service (\<open>auth/jwt/jwt.go\<close>) that run at the same time on one blacklist. A step of a
  call is what it does between two accesses to the blacklist: parsing, the question whether the
  token is revoked, revoking, signing. The blacklist locks each of its methods, nothing locks a
  whole call; every step may find the blacklist changed by other calls.
\<close>

section \<open>Calls as machines\<close>

datatype purpose = ForVerify | ForRefresh

text \<open>Where a call for a token stands; the last three have returned.\<close>

datatype jwt_phase =
    Parse purpose string
  | Check purpose string standardClaims
  | RevokeOld string Claims
  | SignNew string Claims
  | RevokeToken string
  | VerifyDone string "jwt_error + Claims"
  | RefreshDone string "jwt_error + string"
  | RevokeDone string "jwt_error option"

fun refused :: "purpose \<Rightarrow> string \<Rightarrow> jwt_error \<Rightarrow> jwt_phase" where
  "refused ForVerify s e = VerifyDone s (Inl e)"
| "refused ForRefresh s e = RefreshDone s (Inl e)"

fun verified :: "purpose \<Rightarrow> string \<Rightarrow> Claims \<Rightarrow> jwt_phase" where
  "verified ForVerify s claims = VerifyDone s (Inr claims)"
| "verified ForRefresh s claims = RevokeOld s claims"

fun jwt_phase_step ::
  "'w gojwt \<Rightarrow> 'w jwt_options \<Rightarrow> time \<Rightarrow> 'w \<Rightarrow> jwt_phase \<Rightarrow> 'w \<times> jwt_phase" where
  "jwt_phase_step lib opts now w (Parse p s) =
     (case verify_keyfunc opts of
        None \<Rightarrow> (w, refused p s ErrMissingAlgorithm)
      | Some kf \<Rightarrow>
          (case ParseWithClaims lib now s kf w of
             (w', Inl e) \<Rightarrow> (w', refused p s (mapJWTError e))
           | (w', Inr (c, valid)) \<Rightarrow> (w', if \<not> valid then refused p s ErrInvalidToken else Check p s c)))"
| "jwt_phase_step lib opts now w (Check p s c) =
     (w, if check_revoked opts w s then refused p s ErrTokenRevoked else verified p s (claims_of c))"
| "jwt_phase_step lib opts now w (RevokeOld s claims) =
     (case opt_blacklist opts of None \<Rightarrow> w | Some bl \<Rightarrow> fst (bl_Revoke bl w s), SignNew s claims)"
| "jwt_phase_step lib opts now w (SignNew s claims) = (w, RefreshDone s (jwt_Sign lib opts now claims))"
| "jwt_phase_step lib opts now w (RevokeToken s) =
     (case jwt_Revoke opts w s of (w', err) \<Rightarrow> (w', RevokeDone s err))"
| "jwt_phase_step lib opts now w (VerifyDone s r) = (w, VerifyDone s r)"
| "jwt_phase_step lib opts now w (RefreshDone s r) = (w, RefreshDone s r)"
| "jwt_phase_step lib opts now w (RevokeDone s r) = (w, RevokeDone s r)"

fun call_returned :: "jwt_phase \<Rightarrow> bool" where
  "call_returned (VerifyDone s r) = True"
| "call_returned (RefreshDone s r) = True"
| "call_returned (RevokeDone s r) = True"
| "call_returned p = False"

record 'w jwt_system =
  jwt_shared :: 'w
  jwt_calls :: "jwt_phase list"

inductive jwt_moves :: "'w gojwt \<Rightarrow> 'w jwt_options \<Rightarrow> 'w jwt_system \<Rightarrow> 'w jwt_system \<Rightarrow> bool" for lib opts where
  stay: "jwt_moves lib opts c c"
| move: "jwt_moves lib opts c c' \<Longrightarrow> i < length (jwt_calls c') \<Longrightarrow>
     jwt_phase_step lib opts now (jwt_shared c') (jwt_calls c' ! i) = (w, p) \<Longrightarrow>
     jwt_moves lib opts c \<lparr>jwt_shared = w, jwt_calls = (jwt_calls c')[i := p]\<rparr>"

section \<open>Lemmas\<close>

text \<open>The call has found the token \<open>s\<close> valid and not revoked.\<close>

fun accepted :: "string \<Rightarrow> jwt_phase \<Rightarrow> bool" where
  "accepted s (RevokeOld t claims) = (t = s)"
| "accepted s (SignNew t claims) = (t = s)"
| "accepted s (VerifyDone t r) = (t = s \<and> (\<exists>claims. r = Inr claims))"
| "accepted s (RefreshDone t r) = (t = s \<and> (\<exists>token. r = Inr token))"
| "accepted s p = False"

lemma accepted_refused [simp]: "\<not> accepted s (refused p t e)"
  by (cases p) simp_all

lemma memory_service_blacklist:
  "memory_service lib opts \<Longrightarrow>
     opt_blacklist opts = Some \<lparr>bl_Revoke = MemoryBlacklist_Revoke, bl_IsRevoked = MemoryBlacklist_IsRevoked\<rparr>"
  by (simp add: memory_service_def memory_blacklist_def)

lemma parse_keeps_revoked:
  assumes "memory_service lib opts" "verify_keyfunc opts = Some kf" "MemoryBlacklist_IsRevoked b u = Inr True"
    and "ParseWithClaims lib now s kf b = (b', r)"
  shows "MemoryBlacklist_IsRevoked b' u = Inr True"
proof -
  have "keyfunc_keeps opts (\<lambda>b. MemoryBlacklist_IsRevoked b u = Inr True)"
    by (simp add: keyfunc_keeps_def memory_service_keyfunc[OF assms(1)])
  with assms library_frameD[of lib opts "\<lambda>b. MemoryBlacklist_IsRevoked b u = Inr True" kf b now s]
  show ?thesis by (simp add: memory_service_def)
qed

lemma phase_step_keeps_revoked:
  assumes "memory_service lib opts" "MemoryBlacklist_IsRevoked b u = Inr True"
    and "jwt_phase_step lib opts now b p = (b', p')"
  shows "MemoryBlacklist_IsRevoked b' u = Inr True"
proof (cases p)
  case (Parse q s)
  show ?thesis
  proof (cases "verify_keyfunc opts")
    case None
    with Parse assms(2,3) show ?thesis by simp
  next
    case (Some kf)
    obtain b1 x where parse: "ParseWithClaims lib now s kf b = (b1, x)" by fastforce
    with Parse Some assms(3) have "b' = b1" by (auto split: sum.splits)
    with parse_keeps_revoked[OF assms(1) Some assms(2) parse] show ?thesis by simp
  qed
next
  case (RevokeToken s)
  with assms(3) mb.revoke_keeps[OF assms(2), of s] show ?thesis
    by (auto simp: memory_service_blacklist[OF assms(1)] jwt_Revoke_def split: prod.splits)
qed (use assms(2,3) in \<open>auto simp: memory_service_blacklist[OF assms(1)] mb.revoke_keeps\<close>)

text \<open>While a token is revoked, no call gets past its check.\<close>

lemma phase_step_not_accepted:
  assumes "memory_service lib opts" "MemoryBlacklist_IsRevoked b u = Inr True"
    and "jwt_phase_step lib opts now b p = (b', p')" "accepted u p'"
  shows "accepted u p"
proof (cases p)
  case (Parse q s)
  with assms(3,4) show ?thesis by (auto split: option.splits prod.splits sum.splits if_splits)
next
  case (Check q s c)
  have "check_revoked opts b u" by (simp add: check_revoked_def memory_service_blacklist[OF assms(1)] assms(2))
  with Check assms(3,4) show ?thesis by (cases q) (auto split: if_splits)
qed (use assms(3,4) in \<open>auto split: prod.splits\<close>)

lemma moves_revoked:
  assumes "memory_service lib opts" "jwt_moves lib opts c c'"
    and "MemoryBlacklist_IsRevoked (jwt_shared c) u = Inr True"
  shows "MemoryBlacklist_IsRevoked (jwt_shared c') u = Inr True \<and> length (jwt_calls c') = length (jwt_calls c) \<and>
    (\<forall>i < length (jwt_calls c). accepted u (jwt_calls c' ! i) \<longrightarrow> accepted u (jwt_calls c ! i))"
  using assms(2,3)
proof (induction rule: jwt_moves.induct)
  case (stay c)
  then show ?case by simp
next
  case (move c c' i now w p)
  then have ih: "MemoryBlacklist_IsRevoked (jwt_shared c') u = Inr True" "length (jwt_calls c') = length (jwt_calls c)"
      "\<And>j. j < length (jwt_calls c) \<Longrightarrow> accepted u (jwt_calls c' ! j) \<Longrightarrow> accepted u (jwt_calls c ! j)"
    by auto
  from phase_step_keeps_revoked[OF assms(1) ih(1) move.hyps(3)]
    phase_step_not_accepted[OF assms(1) ih(1) move.hyps(3)] ih move.hyps(2)
  show ?case by (auto simp: nth_list_update)
qed

lemma moves_only_call:
  assumes "jwt_moves lib opts c \<lparr>jwt_shared = w, jwt_calls = [p]\<rparr>" "jwt_phase_step lib opts now w p = (w', p')"
  shows "jwt_moves lib opts c \<lparr>jwt_shared = w', jwt_calls = [p']\<rparr>"
  using move[OF assms(1), of 0 now w' p'] assms(2) by simp

lemma lone_parse_check:
  "jwt_moves lib opts \<lparr>jwt_shared = w, jwt_calls = [Parse p s]\<rparr>
     (case jwt_Verify lib opts now s w of
        (w', Inl e) \<Rightarrow> \<lparr>jwt_shared = w', jwt_calls = [refused p s e]\<rparr>
      | (w', Inr claims) \<Rightarrow> \<lparr>jwt_shared = w', jwt_calls = [verified p s claims]\<rparr>)"
proof (cases "verify_keyfunc opts")
  case None
  with moves_only_call[OF stay, of lib opts now w "Parse p s"] show ?thesis
    by (simp add: jwt_Verify_def)
next
  case (Some kf)
  obtain w' x where parse: "ParseWithClaims lib now s kf w = (w', x)" by fastforce
  show ?thesis
  proof (cases x)
    case (Inl e)
    with Some parse moves_only_call[OF stay, of lib opts now w "Parse p s"] show ?thesis
      by (simp add: jwt_Verify_def)
  next
    case (Inr y)
    obtain c valid where y: "y = (c, valid)" by fastforce
    show ?thesis
    proof (cases valid)
      case False
      with Some parse Inr y moves_only_call[OF stay, of lib opts now w "Parse p s"] show ?thesis
        by (simp add: jwt_Verify_def)
    next
      case True
      with Some parse Inr y moves_only_call[OF stay, of lib opts now w "Parse p s"]
      have "jwt_moves lib opts \<lparr>jwt_shared = w, jwt_calls = [Parse p s]\<rparr> \<lparr>jwt_shared = w', jwt_calls = [Check p s c]\<rparr>"
        by simp
      from moves_only_call[OF this, of now] Some parse Inr y True show ?thesis
        by (auto simp: jwt_Verify_def)
    qed
  qed
qed

section \<open>Properties\<close>


text \<open>
  C4: revocation is final among concurrent calls. Once a token is on the in-memory blacklist, no
  call that has not passed its check by then verifies or refreshes it, however the calls are
  interleaved and whatever else they do; the token stays on the list.
\<close>

theorem concurrent_revocation_is_final:
  assumes "memory_service lib opts" and "MemoryBlacklist_IsRevoked b s = Inr True"
    and "jwt_moves lib opts \<lparr>jwt_shared = b, jwt_calls = calls\<rparr> c"
    and "i < length calls" and "\<not> accepted s (calls ! i)"
  shows "MemoryBlacklist_IsRevoked (jwt_shared c) s = Inr True \<and>
    jwt_calls c ! i \<noteq> VerifyDone s (Inr claims) \<and> jwt_calls c ! i \<noteq> RefreshDone s (Inr token)"
  using moves_revoked[OF assms(1,3), of s] assms(2,4,5) by auto

lemma concurrent_revocation_is_final_witness:
  "\<exists>c. jwt_moves bob_lib hmac_opts
       \<lparr>jwt_shared = fst (MemoryBlacklist_Revoke NewMemoryBlacklist ''tok''), jwt_calls = [Parse ForVerify ''tok'']\<rparr> c \<and>
     call_returned (jwt_calls c ! 0) \<and> (\<forall>claims. jwt_calls c ! 0 \<noteq> VerifyDone ''tok'' (Inr claims))"
proof -
  let ?b = "fst (MemoryBlacklist_Revoke NewMemoryBlacklist ''tok'')"
  obtain b' x where v: "jwt_Verify bob_lib hmac_opts 0 ''tok'' ?b = (b', x)" by fastforce
  have run: "jwt_moves bob_lib hmac_opts \<lparr>jwt_shared = ?b, jwt_calls = [Parse ForVerify ''tok'']\<rparr>
      \<lparr>jwt_shared = b', jwt_calls = [VerifyDone ''tok'' x]\<rparr>"
    using lone_parse_check[of bob_lib hmac_opts ?b ForVerify "''tok''" 0] v by (cases x) simp_all
  have "MemoryBlacklist_IsRevoked ?b ''tok'' = Inr True"
    by (rule mb.revoke_revokes) (simp add: MemoryBlacklist_Revoke_def)
  from concurrent_revocation_is_final[OF memory_service_bob this run, of 0]
  have "\<forall>claims. jwt_calls \<lparr>jwt_shared = b', jwt_calls = [VerifyDone ''tok'' x]\<rparr> ! 0 \<noteq> VerifyDone ''tok'' (Inr claims)"
    by simp
  then show ?thesis by (intro exI conjI) (rule run, simp_all)
qed

text \<open>
  A refresh is not atomic. Two calls of \<open>Refresh\<close> for the same valid token that overlap can both
  succeed: the token is verified twice before it is revoked.
\<close>

theorem overlapping_refreshes_both_succeed:
  assumes "opt_blacklist opts = Some memory_blacklist" and "jwt_Verify lib opts now s b = (b, Inr claims)"
    and "jwt_Sign lib opts now claims = Inr s'"
  shows "\<exists>b'. jwt_moves lib opts \<lparr>jwt_shared = b, jwt_calls = [Parse ForRefresh s, Parse ForRefresh s]\<rparr>
      \<lparr>jwt_shared = b', jwt_calls = [RefreshDone s (Inr s'), RefreshDone s (Inr s')]\<rparr>"
proof -
  let ?c0 = "\<lparr>jwt_shared = b, jwt_calls = [Parse ForRefresh s, Parse ForRefresh s]\<rparr>"
  let ?R = "RevokeOld s claims" and ?S = "SignNew s claims" and ?D = "RefreshDone s (Inr s')"
  let ?b1 = "fst (bl_Revoke memory_blacklist b s)" and ?b2 = "fst (bl_Revoke memory_blacklist (fst (bl_Revoke memory_blacklist b s)) s)"
  from assms(2) obtain kf c where kf: "verify_keyfunc opts = Some kf" and
      parse: "ParseWithClaims lib now s kf b = (b, Inr (c, True))" and
      check: "\<not> check_revoked opts b s" and c: "claims = claims_of c"
    by (auto simp: jwt_Verify_def split: option.splits prod.splits sum.splits if_splits)
  have phases: "jwt_phase_step lib opts now b (Parse ForRefresh s) = (b, Check ForRefresh s c)"
      "jwt_phase_step lib opts now b (Check ForRefresh s c) = (b, ?R)"
      "jwt_phase_step lib opts now w ?R = (fst (bl_Revoke memory_blacklist w s), ?S)"
      "jwt_phase_step lib opts now w ?S = (w, ?D)" for w
    using kf parse check c assms(1,3) by simp_all
  have step: "jwt_moves lib opts ?c0 \<lparr>jwt_shared = w', jwt_calls = ps[i := p']\<rparr>"
    if "jwt_moves lib opts ?c0 \<lparr>jwt_shared = w, jwt_calls = ps\<rparr>" "i < length ps" "jwt_phase_step lib opts now w (ps ! i) = (w', p')"
    for w w' ps i p'
    using move[OF that(1), of i now w' p'] that(2,3) by simp
  have "jwt_moves lib opts ?c0 \<lparr>jwt_shared = b, jwt_calls = [Check ForRefresh s c, Parse ForRefresh s]\<rparr>"
    using step[OF stay, of 0] phases(1) by simp
  from step[OF this, of 0] phases(2) have "jwt_moves lib opts ?c0 \<lparr>jwt_shared = b, jwt_calls = [?R, Parse ForRefresh s]\<rparr>"
    by simp
  from step[OF this, of 1] phases(1) have "jwt_moves lib opts ?c0 \<lparr>jwt_shared = b, jwt_calls = [?R, Check ForRefresh s c]\<rparr>"
    by simp
  from step[OF this, of 1] phases(2) have "jwt_moves lib opts ?c0 \<lparr>jwt_shared = b, jwt_calls = [?R, ?R]\<rparr>"
    by simp
  from step[OF this, of 0] phases(3) have "jwt_moves lib opts ?c0 \<lparr>jwt_shared = ?b1, jwt_calls = [?S, ?R]\<rparr>"
    by simp
  from step[OF this, of 1] phases(3) have "jwt_moves lib opts ?c0 \<lparr>jwt_shared = ?b2, jwt_calls = [?S, ?S]\<rparr>"
    by simp
  from step[OF this, of 0] phases(4) have "jwt_moves lib opts ?c0 \<lparr>jwt_shared = ?b2, jwt_calls = [?D, ?S]\<rparr>"
    by simp
  from step[OF this, of 1] phases(4) have "jwt_moves lib opts ?c0 \<lparr>jwt_shared = ?b2, jwt_calls = [?D, ?D]\<rparr>"
    by simp
  then show ?thesis by blast
qed

lemma overlapping_refreshes_both_succeed_witness:
  "\<exists>b'. jwt_moves bob_lib hmac_opts
      \<lparr>jwt_shared = NewMemoryBlacklist, jwt_calls = [Parse ForRefresh ''tok'', Parse ForRefresh ''tok'']\<rparr>
      \<lparr>jwt_shared = b', jwt_calls = [RefreshDone ''tok'' (Inr ''tok''), RefreshDone ''tok'' (Inr ''tok'')]\<rparr>"
proof (rule overlapping_refreshes_both_succeed[OF _ Verify_bob])
  show "jwt_Sign bob_lib hmac_opts 0 (claims_of (claims_to_sign bob_lib hmac_opts 0 bob_claims)) = Inr ''tok''"
    by (simp add: jwt_Sign_def) (simp add: bob_lib_def one_token_lib_def)
qed simp

end
