(* ===== verification/RateConcurrent.thy ===== *)
theory RateConcurrent
  imports RateLimit "HOL-Library.Multiset"
begin

text \<open>
  Concurrent increments of the in-memory store (\<open>ratelimit/store.go\<close>). \<open>Inc\<close> looks the bucket up, or
  makes it, under the lock of the store, reads the clock, and increments the bucket under the
  bucket's own lock: other calls may come in between. Buckets are shared through pointers, so they
  live in a heap here, the list \<open>buckets\<close>; the store maps a key to the position of its bucket.
\<close>

section \<open>Calls as machines\<close>

datatype inc_phase =
    IncCall string
  | IncLocated string nat
  | IncTimed string nat time
  | IncDone string time int64
  | ResetCall string
  | ResetDone string

record limiter_system =
  buckets :: "bucket list"
  bucket_of :: "string \<rightharpoonup> nat"
  inc_calls :: "inc_phase list"
  counted :: "(string \<times> time \<times> int64) list"

text \<open>\<open>counted\<close> records the increments in the order of the bucket locks; \<open>w\<close> is the window.\<close>

inductive limiter_moves ::
  "(float64 \<Rightarrow> int64) \<Rightarrow> duration \<Rightarrow> limiter_system \<Rightarrow> limiter_system \<Rightarrow> bool" for impl w where
  idle: "limiter_moves impl w c c"
| locate_old: "limiter_moves impl w c0 c \<Longrightarrow> i < length (inc_calls c) \<Longrightarrow> inc_calls c ! i = IncCall key \<Longrightarrow>
     bucket_of c key = Some a \<Longrightarrow>
     limiter_moves impl w c0 (c\<lparr>inc_calls := (inc_calls c)[i := IncLocated key a]\<rparr>)"
| locate_new: "limiter_moves impl w c0 c \<Longrightarrow> i < length (inc_calls c) \<Longrightarrow> inc_calls c ! i = IncCall key \<Longrightarrow>
     bucket_of c key = None \<Longrightarrow>
     limiter_moves impl w c0 (c\<lparr>buckets := buckets c @ [new_bucket now w],
       bucket_of := (bucket_of c)(key \<mapsto> length (buckets c)),
       inc_calls := (inc_calls c)[i := IncLocated key (length (buckets c))]\<rparr>)"
| read_clock: "limiter_moves impl w c0 c \<Longrightarrow> i < length (inc_calls c) \<Longrightarrow> inc_calls c ! i = IncLocated key a \<Longrightarrow>
     limiter_moves impl w c0 (c\<lparr>inc_calls := (inc_calls c)[i := IncTimed key a now]\<rparr>)"
| count: "limiter_moves impl w c0 c \<Longrightarrow> i < length (inc_calls c) \<Longrightarrow> inc_calls c ! i = IncTimed key a now \<Longrightarrow>
     inc impl now (buckets c ! a) = (b, n) \<Longrightarrow>
     limiter_moves impl w c0 (c\<lparr>buckets := (buckets c)[a := b], inc_calls := (inc_calls c)[i := IncDone key now n],
       counted := counted c @ [(key, now, n)]\<rparr>)"
| reset: "limiter_moves impl w c0 c \<Longrightarrow> i < length (inc_calls c) \<Longrightarrow> inc_calls c ! i = ResetCall key \<Longrightarrow>
     limiter_moves impl w c0 (c\<lparr>bucket_of := (bucket_of c)(key := None),
       inc_calls := (inc_calls c)[i := ResetDone key]\<rparr>)"

section \<open>The store after a sequence of increments\<close>

fun Inc_store ::
  "(float64 \<Rightarrow> int64) \<Rightarrow> duration \<Rightarrow> ratelimit_MemoryStore \<Rightarrow> (string \<times> time \<times> time) list \<Rightarrow> ratelimit_MemoryStore" where
  "Inc_store impl w s [] = s"
| "Inc_store impl w s ((key, t1, t2) # reqs) = Inc_store impl w (fst (Inc impl t1 t2 key w s)) reqs"

lemma Inc_run_append:
  "Inc_run impl w s (reqs @ reqs') = Inc_run impl w s reqs @ Inc_run impl w (Inc_store impl w s reqs) reqs'"
  by (induction impl w s reqs rule: Inc_store.induct) (auto split: prod.splits sum.splits)

lemma Inc_store_append: "Inc_store impl w s (reqs @ reqs') = Inc_store impl w (Inc_store impl w s reqs) reqs'"
  by (induction impl w s reqs rule: Inc_store.induct) auto

section \<open>Invariant\<close>

fun call_result :: "inc_phase \<Rightarrow> (string \<times> time \<times> int64) list" where
  "call_result (IncDone key t n) = [(key, t, n)]"
| "call_result p = []"

text \<open>What a call holds a pointer to is still the bucket of its key; no call is a reset.\<close>

fun call_holds :: "(string \<rightharpoonup> nat) \<Rightarrow> inc_phase \<Rightarrow> bool" where
  "call_holds ix (IncLocated key a) = (ix key = Some a)"
| "call_holds ix (IncTimed key a t) = (ix key = Some a)"
| "call_holds ix (ResetCall key) = False"
| "call_holds ix p = True"

text \<open>A key's bucket is the one of the store \<open>s\<close>, or a fresh one that nobody has counted in.\<close>

fun key_is :: "duration \<Rightarrow> bucket list \<Rightarrow> nat option \<Rightarrow> bucket option \<Rightarrow> bool" where
  "key_is w heap None b \<longleftrightarrow> b = None"
| "key_is w heap (Some a) (Some b) \<longleftrightarrow> a < length heap \<and> heap ! a = b"
| "key_is w heap (Some a) None \<longleftrightarrow> a < length heap \<and> (\<exists>t. heap ! a = new_bucket t w)"

definition heap_is :: "duration \<Rightarrow> bucket list \<Rightarrow> (string \<rightharpoonup> nat) \<Rightarrow> ratelimit_MemoryStore \<Rightarrow> bool" where
  "heap_is w heap ix s \<longleftrightarrow> (\<forall>key. key_is w heap (ix key) (s key))"

lemma key_is_located: "key_is w heap (Some a) b \<Longrightarrow> a < length heap"
  by (cases b) simp_all

lemma key_is_cases:
  "key_is w heap x b \<Longrightarrow> (case x of None \<Rightarrow> b = None
     | Some a \<Rightarrow> b = Some (heap ! a) \<or> (b = None \<and> (\<exists>t. heap ! a = new_bucket t w)))"
  by (cases "(w, heap, x, b)" rule: key_is.cases) auto

lemma key_is_append: "key_is w heap x b \<Longrightarrow> key_is w (heap @ bs) x b"
  by (cases "(w, heap, x, b)" rule: key_is.cases) (auto simp: nth_append)

lemma key_is_update: "key_is w heap x b \<Longrightarrow> x \<noteq> Some a \<Longrightarrow> key_is w (heap[a := b']) x b"
  by (cases "(w, heap, x, b)" rule: key_is.cases) auto

definition limiter_ok :: "(float64 \<Rightarrow> int64) \<Rightarrow> duration \<Rightarrow> limiter_system \<Rightarrow> bool" where
  "limiter_ok impl w c \<longleftrightarrow>
     (\<exists>reqs. counted c = Inc_run impl w Map.empty reqs \<and> heap_is w (buckets c) (bucket_of c) (Inc_store impl w Map.empty reqs)) \<and>
     inj_on (bucket_of c) (dom (bucket_of c)) \<and>
     list_all (call_holds (bucket_of c)) (inc_calls c) \<and>
     mset (concat (map call_result (inc_calls c))) = mset (counted c)"

lemma mset_results_update:
  assumes "i < length ps" "call_result (ps ! i) = []"
  shows "mset (concat (map call_result (ps[i := p]))) = mset (concat (map call_result ps)) + mset (call_result p)"
proof -
  have "mset (concat (map call_result ps)) =
      mset (concat (map call_result (take i ps))) + mset (concat (map call_result (drop (Suc i) ps)))"
    by (subst id_take_nth_drop[OF assms(1)]) (simp add: assms(2))
  then show ?thesis by (simp add: upd_conv_take_nth_drop[OF assms(1)])
qed

lemma list_all_update: "list_all P xs \<Longrightarrow> P x \<Longrightarrow> list_all P (xs[i := x])"
  by (auto simp: list_all_iff dest!: set_update_subset_insert[THEN subsetD])

lemma list_all_mono': "list_all P xs \<Longrightarrow> (\<And>x. P x \<Longrightarrow> Q x) \<Longrightarrow> list_all Q xs"
  by (simp add: list_all_iff)

lemma limiter_ok_count:
  assumes ok: "limiter_ok impl w c" and i: "i < length (inc_calls c)" "inc_calls c ! i = IncTimed key a now"
    and inc: "inc impl now (buckets c ! a) = (b, n)"
  shows "limiter_ok impl w (c\<lparr>buckets := (buckets c)[a := b], inc_calls := (inc_calls c)[i := IncDone key now n],
       counted := counted c @ [(key, now, n)]\<rparr>)" (is "limiter_ok impl w ?c")
proof -
  from ok obtain reqs where reqs: "counted c = Inc_run impl w Map.empty reqs"
      "heap_is w (buckets c) (bucket_of c) (Inc_store impl w Map.empty reqs)" unfolding limiter_ok_def by blast
  let ?s = "Inc_store impl w Map.empty reqs"
  have inj: "inj_on (bucket_of c) (dom (bucket_of c))" and holds: "list_all (call_holds (bucket_of c)) (inc_calls c)"
    and res: "mset (concat (map call_result (inc_calls c))) = mset (counted c)"
    using ok by (simp_all add: limiter_ok_def)
  have a: "bucket_of c key = Some a" using holds i by (auto simp: list_all_length)
  have heap: "key_is w (buckets c) (bucket_of c k) (?s k)" for k using reqs(2) by (simp add: heap_is_def)
  obtain t1 where I: "Inc impl t1 now key w ?s = (?s(key \<mapsto> b), Inr n)"
  proof (cases "?s key")
    case None
    with heap[of key] a obtain t1 where "buckets c ! a = new_bucket t1 w" by auto
    with None inc that[of t1] show ?thesis by (simp add: Inc_def)
  next
    case (Some b0)
    with heap[of key] a have "buckets c ! a = b0" by simp
    with Some inc that show ?thesis by (simp add: Inc_def)
  qed
  have other: "bucket_of c k \<noteq> Some a" if "k \<noteq> key" for k
    using inj_onD[OF inj, of k key] a that by auto
  have "counted ?c = Inc_run impl w Map.empty (reqs @ [(key, t1, now)])"
    using reqs(1) I by (simp add: Inc_run_append)
  moreover have "heap_is w (buckets ?c) (bucket_of ?c) (Inc_store impl w Map.empty (reqs @ [(key, t1, now)]))"
    using key_is_update[OF heap other] key_is_located[of w "buckets c" a "?s key"] heap[of key] a
    by (simp add: Inc_store_append I heap_is_def)
  moreover have "mset (concat (map call_result (inc_calls ?c))) = mset (counted ?c)"
    using mset_results_update[OF i(1), of "IncDone key now n"] i(2) res by simp
  moreover have "list_all (call_holds (bucket_of ?c)) (inc_calls ?c)"
    using holds by (simp add: list_all_update)
  ultimately show ?thesis unfolding limiter_ok_def using inj by auto
qed

lemma limiter_ok_moves:
  assumes "limiter_moves impl w c0 c" and "limiter_ok impl w c0"
  shows "limiter_ok impl w c"
  using assms
proof (induction rule: limiter_moves.induct)
  case (idle c)
  then show ?case by simp
next
  case (locate_old c0 c i key a)
  then show ?case
    using mset_results_update[of i "inc_calls c" "IncLocated key a"]
    by (auto simp: limiter_ok_def list_all_update)
next
  case (locate_new c0 c i key now)
  then obtain reqs where reqs: "counted c = Inc_run impl w Map.empty reqs"
      "heap_is w (buckets c) (bucket_of c) (Inc_store impl w Map.empty reqs)" and ok: "limiter_ok impl w c" unfolding limiter_ok_def by blast
  let ?n = "length (buckets c)"
  let ?c = "c\<lparr>buckets := buckets c @ [new_bucket now w], bucket_of := (bucket_of c)(key \<mapsto> ?n),
       inc_calls := (inc_calls c)[i := IncLocated key ?n]\<rparr>"
  have below: "bucket_of c k = Some a \<Longrightarrow> a < ?n" for k a
    using reqs(2) key_is_located by (metis heap_is_def)
  have heap: "key_is w (buckets c) (bucket_of c k) (Inc_store impl w Map.empty reqs k)" for k
    using reqs(2) by (simp add: heap_is_def)
  have "Inc_store impl w Map.empty reqs key = None"
    using heap[of key] locate_new.hyps(4) by simp
  then have "heap_is w (buckets ?c) (bucket_of ?c) (Inc_store impl w Map.empty reqs)"
    using key_is_append[OF heap] by (auto simp: heap_is_def)
  moreover have "inj_on ((bucket_of c)(key \<mapsto> ?n)) (dom ((bucket_of c)(key \<mapsto> ?n)))"
    using ok below unfolding limiter_ok_def by (fastforce simp: inj_on_def dom_def split: if_splits)
  moreover have "call_holds (bucket_of c) p \<Longrightarrow> call_holds ((bucket_of c)(key \<mapsto> ?n)) p" for p
    using locate_new.hyps(4) by (cases p) auto
  ultimately show ?case
    using ok reqs(1) mset_results_update[of i "inc_calls c" "IncLocated key ?n"] locate_new.hyps(2,3)
    unfolding limiter_ok_def by (auto intro!: list_all_update intro: list_all_mono')
next
  case (read_clock c0 c i key a now)
  then have "call_holds (bucket_of c) (IncLocated key a)"
    by (metis limiter_ok_def list_all_length)
  with read_clock show ?case
    using mset_results_update[of i "inc_calls c" "IncTimed key a now"]
    by (auto simp: limiter_ok_def list_all_update)
next
  case (count c0 c i key a now b n)
  then show ?case by (intro limiter_ok_count) auto
next
  case (reset c0 c i key)
  then have "call_holds (bucket_of c) (ResetCall key)"
    by (metis limiter_ok_def list_all_length)
  then show ?case by simp
qed

section \<open>Property\<close>

text \<open>
  Concurrent increments are atomic. However calls of \<open>Inc\<close> on a new store are interleaved, the
  counts they return are those of the same increments done one after the other, in the order in
  which they took the locks of the buckets and with the clock readings they had: no increment is
  lost, none is counted twice, and no two first calls for a key make two buckets.
\<close>

theorem concurrent_increments_are_atomic:
  assumes "limiter_moves impl w
      \<lparr>buckets = [], bucket_of = Map.empty, inc_calls = map IncCall keys, counted = []\<rparr> c"
  shows "\<exists>reqs. counted c = Inc_run impl w Map.empty reqs \<and>
    mset (counted c) = mset (concat (map call_result (inc_calls c))) \<and>
    (\<forall>key. case bucket_of c key of
        None \<Rightarrow> Inc_store impl w Map.empty reqs key = None
      | Some a \<Rightarrow> Inc_store impl w Map.empty reqs key = Some (buckets c ! a) \<or>
          (Inc_store impl w Map.empty reqs key = None \<and> (\<exists>t. buckets c ! a = new_bucket t w)))"
proof -
  have "concat (map call_result (map IncCall keys)) = []" by (induction keys) simp_all
  then have "limiter_ok impl w \<lparr>buckets = [], bucket_of = Map.empty, inc_calls = map IncCall keys, counted = []\<rparr>"
    by (auto simp: limiter_ok_def heap_is_def list_all_iff intro!: exI[of _ "[]"])
  from limiter_ok_moves[OF assms this] obtain reqs where
    "counted c = Inc_run impl w Map.empty reqs" "heap_is w (buckets c) (bucket_of c) (Inc_store impl w Map.empty reqs)"
    and "mset (concat (map call_result (inc_calls c))) = mset (counted c)"
    unfolding limiter_ok_def by blast
  moreover have "\<forall>key. case bucket_of c key of
        None \<Rightarrow> Inc_store impl w Map.empty reqs key = None
      | Some a \<Rightarrow> Inc_store impl w Map.empty reqs key = Some (buckets c ! a) \<or>
          (Inc_store impl w Map.empty reqs key = None \<and> (\<exists>t. buckets c ! a = new_bucket t w))"
    using calculation(2) by (intro allI key_is_cases) (simp add: heap_is_def)
  ultimately show ?thesis by (intro exI[of _ reqs] conjI) simp_all
qed

lemma concurrent_increments_are_atomic_witness:
  "\<exists>c. limiter_moves (\<lambda>_. 0) 10 \<lparr>buckets = [], bucket_of = Map.empty, inc_calls = map IncCall [''a'', ''a''], counted = []\<rparr> c \<and>
     bucket_of c = [''a'' \<mapsto> 0] \<and> inc_calls c = [IncLocated ''a'' 0, IncLocated ''a'' 0] \<and>
     (\<exists>reqs. counted c = Inc_run (\<lambda>_. 0) 10 Map.empty reqs)"
proof -
  let ?c0 = "\<lparr>buckets = [], bucket_of = Map.empty, inc_calls = map IncCall [''a'', ''a''], counted = []\<rparr>"
  have "limiter_moves (\<lambda>_. 0) 10 ?c0 \<lparr>buckets = [new_bucket 3 10], bucket_of = [''a'' \<mapsto> 0],
      inc_calls = [IncLocated ''a'' 0, IncCall ''a''], counted = []\<rparr>"
    using locate_new[OF idle, of 0 ?c0 "''a''" "\<lambda>_. 0" 10 3] by simp
  from locate_old[OF this, of 1 "''a''" 0] have run: "limiter_moves (\<lambda>_. 0) 10 ?c0
      \<lparr>buckets = [new_bucket 3 10], bucket_of = [''a'' \<mapsto> 0], inc_calls = [IncLocated ''a'' 0, IncLocated ''a'' 0], counted = []\<rparr>"
    by simp
  from concurrent_increments_are_atomic[OF this] obtain reqs :: "(string \<times> time \<times> time) list" where
    "[] = Inc_run (\<lambda>_. 0) 10 Map.empty reqs" by auto
  with run show ?thesis by (intro exI conjI) (assumption, simp_all)
qed

end
