(* ===== verification/RateResets.thy ===== *)
theory RateResets
  imports RateConcurrent
begin

text \<open>
  Concurrent increments and resets of the in-memory store (\<open>ratelimit/store.go\<close>). A \<open>Reset\<close> takes the
  bucket out of the map while calls may still hold a pointer to it: they count in a bucket that
  the store no longer knows. The history of every bucket that ever existed gives the order in which
  the same calls could have been made one after the other.
\<close>

section \<open>Increments and resets one after the other\<close>

datatype limiter_op = OpInc string time time | OpReset string

fun op_results ::
  "(float64 \<Rightarrow> int64) \<Rightarrow> duration \<Rightarrow> ratelimit_MemoryStore \<Rightarrow> limiter_op list \<Rightarrow> (string \<times> time \<times> int64) list" where
  "op_results impl w s [] = []"
| "op_results impl w s (OpInc key t1 t2 # ops) =
     (case Inc impl t1 t2 key w s of
        (s', Inr n) \<Rightarrow> (key, t2, n) # op_results impl w s' ops
      | (s', Inl err) \<Rightarrow> op_results impl w s' ops)"
| "op_results impl w s (OpReset key # ops) = op_results impl w (fst (Reset key s)) ops"

fun op_store ::
  "(float64 \<Rightarrow> int64) \<Rightarrow> duration \<Rightarrow> ratelimit_MemoryStore \<Rightarrow> limiter_op list \<Rightarrow> ratelimit_MemoryStore" where
  "op_store impl w s [] = s"
| "op_store impl w s (OpInc key t1 t2 # ops) = op_store impl w (fst (Inc impl t1 t2 key w s)) ops"
| "op_store impl w s (OpReset key # ops) = op_store impl w (fst (Reset key s)) ops"

lemma op_append:
  "op_results impl w s (ops @ ops') = op_results impl w s ops @ op_results impl w (op_store impl w s ops) ops'"
  "op_store impl w s (ops @ ops') = op_store impl w (op_store impl w s ops) ops'"
  by (induction impl w s ops rule: op_store.induct) (auto split: prod.splits sum.splits)

fun resets :: "limiter_op list \<Rightarrow> string list" where
  "resets [] = []"
| "resets (OpReset key # ops) = key # resets ops"
| "resets (OpInc key t1 t2 # ops) = resets ops"

lemma resets_append [simp]: "resets (ops @ ops') = resets ops @ resets ops'"
  by (induction ops rule: resets.induct) auto

section \<open>Generations\<close>

text \<open>
  A generation is the history of one bucket: its key, the clock when it was made, and the clock
  readings of the increments in it, in the order of its lock.
\<close>

type_synonym generation = "string \<times> time \<times> time list"

definition gen_key :: "generation \<Rightarrow> string" where
  "gen_key g = fst g"

definition gen_bucket :: "(float64 \<Rightarrow> int64) \<Rightarrow> duration \<Rightarrow> generation \<Rightarrow> bucket" where
  "gen_bucket impl w g = (case g of (key, t1, ts) \<Rightarrow> fold (\<lambda>t b. fst (inc impl t b)) ts (new_bucket t1 w))"

definition gen_results :: "(float64 \<Rightarrow> int64) \<Rightarrow> duration \<Rightarrow> generation \<Rightarrow> (string \<times> time \<times> int64) list" where
  "gen_results impl w g = (case g of (key, t1, ts) \<Rightarrow>
     map (\<lambda>x. (key, fst x, snd (snd x))) (inc_trace impl (new_bucket t1 w) ts))"

definition gen_ops :: "generation \<Rightarrow> limiter_op list" where
  "gen_ops g = (case g of (key, t1, ts) \<Rightarrow> map (OpInc key t1) ts)"

definition add_time :: "time \<Rightarrow> generation \<Rightarrow> generation" where
  "add_time t g = (case g of (key, t1, ts) \<Rightarrow> (key, t1, ts @ [t]))"

lemma gen_key_add_time [simp]: "gen_key (add_time t g) = gen_key g"
  by (cases g) (simp add: gen_key_def add_time_def)

lemma inc_trace_append:
  "inc_trace impl b (ts @ ts') = inc_trace impl b ts @ inc_trace impl (fold (\<lambda>t b. fst (inc impl t b)) ts b) ts'"
  by (induction ts arbitrary: b) (auto split: prod.splits)

lemma add_time_steps:
  assumes "inc impl t (gen_bucket impl w g) = (b, n)"
  shows "gen_bucket impl w (add_time t g) = b"
    and "gen_results impl w (add_time t g) = gen_results impl w g @ [(gen_key g, t, n)]"
  using assms by (auto simp: gen_bucket_def gen_results_def add_time_def gen_key_def inc_trace_append split: prod.splits)

lemma gen_unused: "gen_results impl w g = [] \<Longrightarrow> \<exists>t. gen_bucket impl w g = new_bucket t w"
  by (cases g rule: prod_cases3) (auto simp: gen_results_def gen_bucket_def neq_Nil_conv elim!: inc_trace.elims split: prod.splits)

text \<open>The operations of a generation, on a store without its key, do what the generation did.\<close>

lemma incs_on_bucket:
  "op_results impl w (s(key \<mapsto> b)) (map (OpInc key t1) ts) =
     map (\<lambda>x. (key, fst x, snd (snd x))) (inc_trace impl b ts)"
  "op_store impl w (s(key \<mapsto> b)) (map (OpInc key t1) ts) = s(key \<mapsto> fold (\<lambda>t b. fst (inc impl t b)) ts b)"
  by (induction ts arbitrary: b) (simp_all add: Inc_def split: prod.split)

lemma gen_ops_run:
  assumes "s (gen_key g) = None"
  shows "op_results impl w s (gen_ops g) = gen_results impl w g"
    and "op_store impl w s (gen_ops g) =
      (if gen_results impl w g = [] then s else s(gen_key g \<mapsto> gen_bucket impl w g))"
proof -
  obtain key t1 ts where g: "g = (key, t1, ts)" by (cases g) auto
  have "op_results impl w s (gen_ops g) = gen_results impl w g \<and> op_store impl w s (gen_ops g) =
      (if gen_results impl w g = [] then s else s(gen_key g \<mapsto> gen_bucket impl w g))"
  proof (cases ts)
    case Nil
    then show ?thesis by (simp add: g gen_ops_def gen_results_def)
  next
    case (Cons t ts')
    obtain b n where "inc impl t (new_bucket t1 w) = (b, n)" by fastforce
    with Cons assms show ?thesis
      by (simp add: g gen_ops_def gen_results_def gen_bucket_def gen_key_def Inc_def incs_on_bucket)
  qed
  then show "op_results impl w s (gen_ops g) = gen_results impl w g" and "op_store impl w s (gen_ops g) =
      (if gen_results impl w g = [] then s else s(gen_key g \<mapsto> gen_bucket impl w g))" by simp_all
qed

section \<open>The order\<close>

text \<open>
  First the generations that were taken out of the map, each followed by the reset that did it, then
  those in the map.
\<close>

definition orphaned :: "(string \<rightharpoonup> nat) \<Rightarrow> generation list \<Rightarrow> nat \<Rightarrow> bool" where
  "orphaned ix gens a \<longleftrightarrow> ix (gen_key (gens ! a)) \<noteq> Some a"

definition orphans :: "(string \<rightharpoonup> nat) \<Rightarrow> generation list \<Rightarrow> generation list" where
  "orphans ix gens = map ((!) gens) (filter (orphaned ix gens) [0..<length gens])"

definition residents :: "(string \<rightharpoonup> nat) \<Rightarrow> generation list \<Rightarrow> generation list" where
  "residents ix gens = map ((!) gens) (filter (\<lambda>a. \<not> orphaned ix gens a) [0..<length gens])"

definition serial :: "(string \<rightharpoonup> nat) \<Rightarrow> generation list \<Rightarrow> limiter_op list" where
  "serial ix gens =
     concat (map (\<lambda>g. gen_ops g @ [OpReset (gen_key g)]) (orphans ix gens)) @
     concat (map gen_ops (residents ix gens))"

lemma orphans_run:
  "op_results impl w Map.empty (concat (map (\<lambda>g. gen_ops g @ [OpReset (gen_key g)]) gs)) =
     concat (map (gen_results impl w) gs)"
  "op_store impl w Map.empty (concat (map (\<lambda>g. gen_ops g @ [OpReset (gen_key g)]) gs)) = Map.empty"
proof (induction gs)
  case (Cons g gs)
  have "fst (Reset (gen_key g) (op_store impl w Map.empty (gen_ops g))) = Map.empty"
    by (simp add: gen_ops_run Reset_def)
  then have "op_store impl w Map.empty (gen_ops g @ [OpReset (gen_key g)]) = Map.empty"
    by (simp add: op_append)
  moreover have "op_results impl w Map.empty (gen_ops g @ [OpReset (gen_key g)]) = gen_results impl w g"
    by (simp add: op_append gen_ops_run)
  moreover case 1
  ultimately show ?case using Cons.IH(1)
    unfolding list.map concat.simps by (subst op_append(1)) (simp only:)
  case 2
  show ?case using \<open>op_store impl w Map.empty (gen_ops g @ [OpReset (gen_key g)]) = Map.empty\<close> Cons.IH(2)
    unfolding list.map concat.simps by (subst op_append(2)) (simp only:)
qed simp_all

lemma residents_run:
  assumes "distinct (map gen_key gs)" and "\<And>g. g \<in> set gs \<Longrightarrow> s (gen_key g) = None"
  shows "op_results impl w s (concat (map gen_ops gs)) = concat (map (gen_results impl w) gs) \<and>
    (\<forall>g \<in> set gs. op_store impl w s (concat (map gen_ops gs)) (gen_key g) =
       (if gen_results impl w g = [] then None else Some (gen_bucket impl w g))) \<and>
    (\<forall>key. key \<notin> gen_key ` set gs \<longrightarrow> op_store impl w s (concat (map gen_ops gs)) key = s key)"
  using assms
proof (induction gs arbitrary: s)
  case (Cons g gs)
  let ?s = "op_store impl w s (gen_ops g)"
  have s: "?s = (if gen_results impl w g = [] then s else s(gen_key g \<mapsto> gen_bucket impl w g))"
    using Cons.prems(2)[of g] by (simp add: gen_ops_run)
  have "?s (gen_key h) = None" if "h \<in> set gs" for h
    using Cons.prems(1) Cons.prems(2)[of h] that by (auto simp: s) (metis image_eqI)
  then have ih: "op_results impl w ?s (concat (map gen_ops gs)) = concat (map (gen_results impl w) gs) \<and>
    (\<forall>g \<in> set gs. op_store impl w ?s (concat (map gen_ops gs)) (gen_key g) =
       (if gen_results impl w g = [] then None else Some (gen_bucket impl w g))) \<and>
    (\<forall>key. key \<notin> gen_key ` set gs \<longrightarrow> op_store impl w ?s (concat (map gen_ops gs)) key = ?s key)"
    using Cons.prems(1) by (intro Cons.IH) simp_all
  have "?s (gen_key g) = (if gen_results impl w g = [] then None else Some (gen_bucket impl w g))"
    using Cons.prems(2)[of g] by (simp add: s)
  moreover have "key \<noteq> gen_key g \<Longrightarrow> ?s key = s key" for key by (simp add: s)
  moreover have "gen_key g \<notin> gen_key ` set gs" using Cons.prems(1) by simp
  moreover have "op_results impl w s (gen_ops g) = gen_results impl w g"
    using Cons.prems(2)[of g] by (simp add: gen_ops_run)
  ultimately show ?case
    using ih by (simp add: op_append)
qed simp

lemma resets_serial: "resets (serial ix gens) = map gen_key (orphans ix gens)"
proof -
  have ops: "resets (gen_ops g) = []" for g
  proof -
    have "resets (map (OpInc key t1) ts) = []" for key t1 ts by (induction ts) simp_all
    then show ?thesis by (simp add: gen_ops_def split: prod.split)
  qed
  have "resets (concat (map (\<lambda>g. gen_ops g @ [OpReset (gen_key g)]) gs)) = map gen_key gs" for gs
    by (induction gs) (simp_all add: ops)
  moreover have "resets (concat (map gen_ops gs)) = []" for gs by (induction gs) (simp_all add: ops)
  ultimately show ?thesis by (simp add: serial_def)
qed

lemma mset_split:
  "mset (concat (map f (filter P xs))) + mset (concat (map f (filter (\<lambda>x. \<not> P x) xs))) = mset (concat (map f xs))"
  by (induction xs) simp_all

lemma serial_results:
  assumes "\<And>key a. ix key = Some a \<Longrightarrow> a < length gens \<and> gen_key (gens ! a) = key"
  shows "mset (op_results impl w Map.empty (serial ix gens)) = mset (concat (map (gen_results impl w) gens))"
    and "case ix key of None \<Rightarrow> op_store impl w Map.empty (serial ix gens) key = None
      | Some a \<Rightarrow> op_store impl w Map.empty (serial ix gens) key =
          (if gen_results impl w (gens ! a) = [] then None else Some (gen_bucket impl w (gens ! a)))"
proof -
  let ?o = "orphans ix gens" and ?r = "residents ix gens"
  have "inj_on (\<lambda>a. gen_key (gens ! a)) (set (filter (\<lambda>a. \<not> orphaned ix gens a) [0..<length gens]))"
    by (rule inj_onI) (auto simp: orphaned_def)
  then have dist: "distinct (map gen_key ?r)"
    by (simp add: residents_def distinct_map comp_def)
  note run = residents_run[OF dist, of Map.empty impl w, simplified]
  have "op_results impl w Map.empty (serial ix gens) =
      concat (map (gen_results impl w) ?o) @ concat (map (gen_results impl w) ?r)"
    using run by (simp add: serial_def op_append orphans_run)
  also have "mset \<dots> = mset (concat (map (\<lambda>a. gen_results impl w (gens ! a)) [0..<length gens]))"
    unfolding orphans_def residents_def mset_append map_map comp_def by (rule mset_split)
  also have "\<dots> = mset (concat (map (gen_results impl w) gens))"
    by (simp flip: map_map[unfolded comp_def] add: map_nth)
  finally show "mset (op_results impl w Map.empty (serial ix gens)) = mset (concat (map (gen_results impl w) gens))" .
  have store: "op_store impl w Map.empty (serial ix gens) = op_store impl w Map.empty (concat (map gen_ops ?r))"
    by (simp add: serial_def op_append orphans_run)
  show "case ix key of None \<Rightarrow> op_store impl w Map.empty (serial ix gens) key = None
      | Some a \<Rightarrow> op_store impl w Map.empty (serial ix gens) key =
          (if gen_results impl w (gens ! a) = [] then None else Some (gen_bucket impl w (gens ! a)))"
  proof (cases "ix key")
    case None
    then have "key \<notin> gen_key ` set ?r" by (auto simp: residents_def orphaned_def)
    with None run show ?thesis by (simp add: store)
  next
    case (Some a)
    with assms[OF Some] have "gens ! a \<in> set ?r" "gen_key (gens ! a) = key"
      by (auto simp: residents_def orphaned_def)
    with Some run show ?thesis by (auto simp: store)
  qed
qed

section \<open>The generations of a run\<close>

fun points :: "generation list \<Rightarrow> inc_phase \<Rightarrow> bool" where
  "points gens (IncLocated key a) \<longleftrightarrow> a < length gens \<and> gen_key (gens ! a) = key"
| "points gens (IncTimed key a t) \<longleftrightarrow> a < length gens \<and> gen_key (gens ! a) = key"
| "points gens p \<longleftrightarrow> True"

lemma points_append: "points gens p \<Longrightarrow> points (gens @ gs) p"
  by (cases p) (simp_all add: nth_append)

lemma points_add_time: "a < length gens \<Longrightarrow> points gens p \<Longrightarrow> points (gens[a := add_time t (gens ! a)]) p"
  by (cases p) (auto simp: nth_list_update)

definition orphan_set :: "(string \<rightharpoonup> nat) \<Rightarrow> generation list \<Rightarrow> string \<Rightarrow> nat set" where
  "orphan_set ix gens key = {a. a < length gens \<and> gen_key (gens ! a) = key \<and> orphaned ix gens a}"

lemma finite_orphan_set [simp]: "finite (orphan_set ix gens key)"
  by (simp add: orphan_set_def)

definition gens_ok :: "(float64 \<Rightarrow> int64) \<Rightarrow> duration \<Rightarrow> limiter_system \<Rightarrow> generation list \<Rightarrow> bool" where
  "gens_ok impl w c gens \<longleftrightarrow>
     buckets c = map (gen_bucket impl w) gens \<and>
     mset (concat (map call_result (inc_calls c))) = mset (concat (map (gen_results impl w) gens)) \<and>
     (\<forall>key a. bucket_of c key = Some a \<longrightarrow> a < length gens \<and> gen_key (gens ! a) = key) \<and>
     list_all (points gens) (inc_calls c) \<and>
     (\<forall>key. card (orphan_set (bucket_of c) gens key) \<le> Multiset.count (mset (inc_calls c)) (ResetDone key))"

lemma count_update:
  assumes "i < length ps" "ps ! i \<noteq> x"
  shows "Multiset.count (mset (ps[i := p])) x = Multiset.count (mset ps) x + (if p = x then 1 else 0)"
  using assms by (simp add: mset_update)

text \<open>A step that changes neither buckets nor map and finishes nothing.\<close>

lemma gens_ok_quiet:
  assumes "gens_ok impl w c gens" and "i < length (inc_calls c)" and "points gens p"
    and "call_result (inc_calls c ! i) = []" "call_result p = []"
    and "\<And>key. inc_calls c ! i \<noteq> ResetDone key"
  shows "gens_ok impl w (c\<lparr>inc_calls := (inc_calls c)[i := p]\<rparr>) gens"
proof -
  have "Multiset.count (mset (inc_calls c)) (ResetDone key) \<le> Multiset.count (mset ((inc_calls c)[i := p])) (ResetDone key)" for key
    using count_update[OF assms(2) assms(6), of p] by simp
  with assms mset_results_update[OF assms(2,4), of p] show ?thesis
    unfolding gens_ok_def by (auto simp: list_all_update intro: order_trans)
qed

lemma gens_ok_new:
  assumes "gens_ok impl w c gens" and "i < length (inc_calls c)" "inc_calls c ! i = IncCall key" "bucket_of c key = None"
  shows "gens_ok impl w (c\<lparr>buckets := buckets c @ [new_bucket now w],
       bucket_of := (bucket_of c)(key \<mapsto> length (buckets c)),
       inc_calls := (inc_calls c)[i := IncLocated key (length (buckets c))]\<rparr>) (gens @ [(key, now, [])])"
proof -
  let ?gens = "gens @ [(key, now, [])]" and ?n = "length gens"
  have n: "length (buckets c) = ?n" using assms(1) by (simp add: gens_ok_def)
  have "orphan_set ((bucket_of c)(key \<mapsto> ?n)) ?gens k \<subseteq> orphan_set (bucket_of c) gens k" for k
    using assms(4) by (auto simp: orphan_set_def orphaned_def nth_append gen_key_def split: if_splits)
  then have "card (orphan_set ((bucket_of c)(key \<mapsto> ?n)) ?gens k) \<le> card (orphan_set (bucket_of c) gens k)" for k
    by (intro card_mono) simp_all
  also have "card (orphan_set (bucket_of c) gens k) \<le> Multiset.count (mset (inc_calls c)) (ResetDone k)" for k
    using assms(1) by (simp add: gens_ok_def)
  also have "Multiset.count (mset (inc_calls c)) (ResetDone k) \<le>
      Multiset.count (mset ((inc_calls c)[i := IncLocated key ?n])) (ResetDone k)" for k
    using count_update[OF assms(2), of "ResetDone k"] assms(3) by simp
  finally have cards: "card (orphan_set ((bucket_of c)(key \<mapsto> ?n)) ?gens k) \<le>
      Multiset.count (mset ((inc_calls c)[i := IncLocated key ?n])) (ResetDone k)" for k .
  have "list_all (points ?gens) ((inc_calls c)[i := IncLocated key ?n])"
    using assms(1) by (intro list_all_update list_all_mono'[OF _ points_append]) (auto simp: gens_ok_def gen_key_def)
  moreover have "gen_bucket impl w (key, now, []) = new_bucket now w" "gen_results impl w (key, now, []) = []"
    by (simp_all add: gen_bucket_def gen_results_def)
  moreover have "\<forall>k a. ((bucket_of c)(key \<mapsto> ?n)) k = Some a \<longrightarrow> a < length ?gens \<and> gen_key (?gens ! a) = k"
    using assms(1) by (auto simp: gens_ok_def nth_append gen_key_def intro: less_SucI)
  ultimately show ?thesis
    using assms(1,3) mset_results_update[OF assms(2), of "IncLocated key ?n"] n cards
    unfolding gens_ok_def by simp
qed

lemma mset_concat_update:
  "a < length xs \<Longrightarrow> f y = f (xs ! a) @ ds \<Longrightarrow>
     mset (concat (map f (xs[a := y]))) = mset (concat (map f xs)) + mset ds"
proof (induction xs arbitrary: a)
  case (Cons x xs)
  then show ?case by (cases a) simp_all
qed simp

lemma gens_ok_count:
  assumes "gens_ok impl w c gens" and "i < length (inc_calls c)" "inc_calls c ! i = IncTimed key a now"
    and "inc impl now (buckets c ! a) = (b, n)"
  shows "gens_ok impl w (c\<lparr>buckets := (buckets c)[a := b], inc_calls := (inc_calls c)[i := IncDone key now n],
       counted := counted c @ [(key, now, n)]\<rparr>) (gens[a := add_time now (gens ! a)])"
proof -
  let ?gens = "gens[a := add_time now (gens ! a)]"
  have pt: "a < length gens" "gen_key (gens ! a) = key"
    using assms(1-3) by (auto simp: gens_ok_def list_all_length dest: spec[of _ i])
  have bs: "buckets c ! a = gen_bucket impl w (gens ! a)" using assms(1) pt by (simp add: gens_ok_def)
  note add = add_time_steps[OF assms(4)[unfolded bs]]
  have keys: "gen_key (?gens ! a') = gen_key (gens ! a')" for a'
    using pt by (cases "a' = a") simp_all
  have orph: "orphan_set (bucket_of c) ?gens k = orphan_set (bucket_of c) gens k" for k
    by (simp add: orphan_set_def orphaned_def keys)
  have res: "mset (concat (map (gen_results impl w) ?gens)) =
      mset (concat (map (gen_results impl w) gens)) + {#(key, now, n)#}"
    using mset_concat_update[of a gens "gen_results impl w"] pt add(2) by simp
  have "Multiset.count (mset (inc_calls c)) (ResetDone k) \<le>
      Multiset.count (mset ((inc_calls c)[i := IncDone key now n])) (ResetDone k)" for k
    using count_update[OF assms(2), of "ResetDone k"] assms(3) by simp
  then have "card (orphan_set (bucket_of c) ?gens k) \<le>
      Multiset.count (mset ((inc_calls c)[i := IncDone key now n])) (ResetDone k)" for k
    using assms(1) unfolding orph gens_ok_def by (meson order_trans)
  moreover have "list_all (points ?gens) ((inc_calls c)[i := IncDone key now n])"
    using assms(1) pt by (intro list_all_update list_all_mono'[OF _ points_add_time]) (auto simp: gens_ok_def)
  ultimately show ?thesis
    using assms(1,3) mset_results_update[OF assms(2), of "IncDone key now n"] res add(1)
    unfolding gens_ok_def by (simp add: keys map_update)
qed

lemma count_map: "Multiset.count (mset (map f xs)) x = length (filter (\<lambda>a. f a = x) xs)"
  by (induction xs) simp_all

lemma card_set_option: "card (set_option x) \<le> Suc 0"
  by (cases x) simp_all

lemma gens_ok_reset:
  assumes "gens_ok impl w c gens" and "i < length (inc_calls c)" "inc_calls c ! i = ResetCall key"
  shows "gens_ok impl w (c\<lparr>bucket_of := (bucket_of c)(key := None), inc_calls := (inc_calls c)[i := ResetDone key]\<rparr>) gens"
proof -
  let ?ix = "(bucket_of c)(key := None)"
  have "card (orphan_set ?ix gens k) \<le> Multiset.count (mset ((inc_calls c)[i := ResetDone key])) (ResetDone k)" for k
  proof -
    have new: "Multiset.count (mset ((inc_calls c)[i := ResetDone key])) (ResetDone k) =
        Multiset.count (mset (inc_calls c)) (ResetDone k) + (if k = key then 1 else 0)"
      using count_update[OF assms(2), of "ResetDone k"] assms(3) by simp
    have sub: "orphan_set ?ix gens k \<subseteq>
        (if k = key then set_option (bucket_of c key) else {}) \<union> orphan_set (bucket_of c) gens k"
      by (auto simp: orphan_set_def orphaned_def split: if_splits)
    have "card (orphan_set ?ix gens k) \<le>
        card ((if k = key then set_option (bucket_of c key) else {}) \<union> orphan_set (bucket_of c) gens k)"
      by (rule card_mono[OF _ sub]) simp
    also have "\<dots> \<le> card (if k = key then set_option (bucket_of c key) else {}) + card (orphan_set (bucket_of c) gens k)"
      by (rule card_Un_le)
    also have "\<dots> \<le> (if k = key then 1 else 0) + Multiset.count (mset (inc_calls c)) (ResetDone k)"
      using assms(1) by (intro add_mono) (simp_all add: gens_ok_def card_set_option)
    finally show ?thesis unfolding new by simp
  qed
  moreover have "list_all (points gens) ((inc_calls c)[i := ResetDone key])"
    using assms(1) by (simp add: gens_ok_def list_all_update)
  ultimately show ?thesis
    using assms(1,3) mset_results_update[OF assms(2), of "ResetDone key"]
    unfolding gens_ok_def by simp
qed

lemma gens_ok_moves:
  assumes "limiter_moves impl w c0 c" and "\<exists>gens. gens_ok impl w c0 gens"
  shows "\<exists>gens. gens_ok impl w c gens"
  using assms
proof (induction rule: limiter_moves.induct)
  case (locate_old c0 c i key a)
  then obtain gens where g: "gens_ok impl w c gens" by blast
  with locate_old have "points gens (IncLocated key a)" by (simp add: gens_ok_def)
  with gens_ok_quiet[OF g locate_old.hyps(2)] locate_old.hyps(3) show ?case by (intro exI[of _ gens]) simp
next
  case (locate_new c0 c i key now)
  then show ?case using gens_ok_new by blast
next
  case (read_clock c0 c i key a now)
  then obtain gens where g: "gens_ok impl w c gens" by blast
  with read_clock have "points gens (IncLocated key a)" by (metis gens_ok_def list_all_length)
  with gens_ok_quiet[OF g read_clock.hyps(2), of "IncTimed key a now"] read_clock.hyps(3)
  show ?case by (intro exI[of _ gens]) simp
next
  case (count c0 c i key a now b n)
  then show ?case using gens_ok_count by blast
next
  case (reset c0 c i key)
  then show ?case using gens_ok_reset by blast
qed simp

section \<open>Property\<close>

fun call_begins :: "inc_phase \<Rightarrow> bool" where
  "call_begins (IncCall key) = True"
| "call_begins (ResetCall key) = True"
| "call_begins p = False"

lemma gens_ok_start:
  assumes "list_all call_begins calls"
  shows "gens_ok impl w \<lparr>buckets = [], bucket_of = Map.empty, inc_calls = calls, counted = []\<rparr> []"
proof -
  have start: "call_result p = [] \<and> points [] p" if "call_begins p" for p
    using that by (cases p) simp_all
  have "concat (map call_result calls) = []"
    using assms start by (induction calls) simp_all
  moreover have "list_all (points []) calls" using assms start by (simp add: list_all_iff)
  ultimately show ?thesis by (simp add: gens_ok_def orphan_set_def)
qed



end
