(* ===== verification/ReqSign.thy ===== *)
theory ReqSign
  imports AuthMiddleware
begin

text \<open>
  The package \<open>reqsign\<close> (\<open>reqsign/reqsign.go\<close>): HMAC-SHA256 signatures over a timestamp and a
  body, the verifying middleware and the signing transport. \<open>u\<close> is \<open>strings.TrimSpace\<close> on strings
  that are not ASCII; a nil body of an outgoing request is the empty body.
\<close>

section \<open>Signatures\<close>

definition DefaultHeader :: string where "DefaultHeader = ''X-Signature''"
definition DefaultTimestampHeader :: string where "DefaultTimestampHeader = ''X-Timestamp''"
definition DefaultReplayWindow :: duration where "DefaultReplayWindow = 5 * Minute"

datatype reqsign_error =
    ErrInvalidSignature
  | ErrReplayDetected
  | ErrMissingHeader
  | ErrReadBody string

definition buildPayload :: "int64 \<Rightarrow> string \<Rightarrow> string" where
  "buildPayload ts body = FormatInt ts @ [CHR 0x0A] @ body"

definition sign :: "string \<Rightarrow> string \<Rightarrow> int64 \<Rightarrow> string" where
  "sign secret body ts = hex_encode (hmac_sha256 secret (buildPayload ts body))"

definition Sign :: "string \<Rightarrow> string \<Rightarrow> time \<Rightarrow> string" where
  "Sign secret body timestamp = sign secret body (time_Unix timestamp)"

definition Verify :: "string \<Rightarrow> string \<Rightarrow> time \<Rightarrow> string \<Rightarrow> bool" where
  "Verify secret body timestamp sig =
     (case hex_decode sig of
        None \<Rightarrow> False
      | Some sigBytes \<Rightarrow>
          (case hex_decode (Sign secret body timestamp) of
             Some expected \<Rightarrow> sigBytes = expected
           | None \<Rightarrow> sigBytes = []))"

definition VerifyRaw :: "string \<Rightarrow> string \<Rightarrow> string \<Rightarrow> bool" where
  "VerifyRaw secret body sig =
     (case hex_decode sig of None \<Rightarrow> False | Some sigBytes \<Rightarrow> hmac_sha256 secret body = sigBytes)"

section \<open>The middleware\<close>

type_synonym 'w SignErrorHandler = "'w http_Request \<Rightarrow> reqsign_error \<Rightarrow> 'w \<Rightarrow> ('w \<times> rw_call list) outcome"

record 'w VerifyOptions =
  VO_Header :: string
  VO_TimestampHeader :: string
  VO_ReplayWindow :: duration
  VO_OnError :: "'w SignErrorHandler option"

definition defaultOnError :: "'w SignErrorHandler" where
  "defaultOnError r err =
     (let msg = (if err = ErrReplayDetected then json_error ''request timestamp outside allowed window''
                 else if err = ErrMissingHeader then json_error ''missing signature headers''
                 else json_error ''invalid request signature'')
      in reply [RwSet ''Content-Type'' ''application/json'', RwWriteHeader 401, RwWrite msg])"

definition verify_config :: "'w VerifyOptions list \<Rightarrow> string \<times> string \<times> duration \<times> 'w SignErrorHandler" where
  "verify_config opts =
     (case opts of
        [] \<Rightarrow> (DefaultHeader, DefaultTimestampHeader, DefaultReplayWindow, defaultOnError)
      | opt # _ \<Rightarrow>
          (if VO_Header opt \<noteq> '''' then VO_Header opt else DefaultHeader,
           if VO_TimestampHeader opt \<noteq> '''' then VO_TimestampHeader opt else DefaultTimestampHeader,
           if 0 < VO_ReplayWindow opt then VO_ReplayWindow opt else DefaultReplayWindow,
           case VO_OnError opt of Some f \<Rightarrow> f | None \<Rightarrow> defaultOnError))"

text \<open>\<open>Duration.Abs\<close>, which has no positive counterpart of the smallest duration.\<close>

definition duration_Abs :: "duration \<Rightarrow> duration" where
  "duration_Abs d = (if 0 \<le> d then d else if d = min_int64 then max_int64 else - d)"

definition reqsign_Middleware ::
  "(string \<Rightarrow> string) \<Rightarrow> string \<Rightarrow> 'w VerifyOptions list \<Rightarrow> time \<Rightarrow> 'w Handler \<Rightarrow> 'w Handler" where
  "reqsign_Middleware u secret opts now nextH r w =
     (case verify_config opts of
        (header, tsHeader, replayWindow, onError) \<Rightarrow>
          (let sig = Header_Get (req_Header r) header;
               tsStr = Header_Get (req_Header r) tsHeader in
           if sig = '''' \<or> tsStr = '''' then onError r ErrMissingHeader w
           else case ParseInt (TrimSpace u tsStr) of
                  None \<Rightarrow> onError r ErrInvalidSignature w
                | Some ts \<Rightarrow>
                    (let age = duration_Abs (time_Sub now (from_Unix ts)) in
                     if replayWindow < age then onError r ErrReplayDetected w
                     else case req_Body r of
                            BrokenBody err \<Rightarrow> onError r (ErrReadBody err) w
                          | Body body \<Rightarrow>
                              if \<not> Verify secret body (from_Unix ts) sig then onError r ErrInvalidSignature w
                              else nextH r w)))"

section \<open>The signing transport\<close>

record SigningTransport =
  ST_Secret :: string
  ST_Header :: string
  ST_TimestampHeader :: string

definition NewSigningTransport :: "string \<Rightarrow> SigningTransport" where
  "NewSigningTransport secret =
     \<lparr>ST_Secret = secret, ST_Header = DefaultHeader, ST_TimestampHeader = DefaultTimestampHeader\<rparr>"

text \<open>The request that is handed to the underlying transport, or the error.\<close>

definition RoundTrip :: "SigningTransport \<Rightarrow> time \<Rightarrow> 'w http_Request \<Rightarrow> reqsign_error + 'w http_Request" where
  "RoundTrip t now r =
     (case req_Body r of
        BrokenBody err \<Rightarrow> Inl (ErrReadBody err)
      | Body body \<Rightarrow>
          (let sig = Sign (ST_Secret t) body now in
           Inr (r\<lparr>req_Header := Header_Set (ST_Header t) sig
                    (Header_Set (ST_TimestampHeader t) (FormatInt (time_Unix now)) (req_Header r))\<rparr>)))"

section \<open>Lemmas\<close>

lemma decimal_no: "\<not> is_digit c \<Longrightarrow> c \<notin> set (decimal n)"
  using decimal_digits[of n] by (auto simp: list_all_iff)

lemma FormatInt_inject: "in_int64 i \<Longrightarrow> in_int64 j \<Longrightarrow> FormatInt i = FormatInt j \<longleftrightarrow> i = j"
  by (metis ParseInt_FormatInt option.inject)

lemma split_at_first:
  "c \<notin> set xs \<Longrightarrow> c \<notin> set ys \<Longrightarrow> xs @ c # as = ys @ c # bs \<longleftrightarrow> xs = ys \<and> as = bs"
  by (auto simp: append_eq_append_conv2 Cons_eq_append_conv append_eq_Cons_conv)

lemma payload_inject:
  assumes "in_int64 ts" "in_int64 ts'"
  shows "buildPayload ts body = buildPayload ts' body' \<longleftrightarrow> ts = ts' \<and> body = body'"
proof -
  have nl: "CHR 0x0A \<notin> set (FormatInt i)" for i
    using FormatInt_chars[of "CHR 0x0A" i] sign_not_digit(3) by auto
  show ?thesis
    unfolding buildPayload_def append_Cons append_Nil split_at_first[OF nl nl]
    using FormatInt_inject[OF assms] by simp
qed

lemma Verify_iff: "Verify secret body t sig \<longleftrightarrow> hex_decode sig = Some (hmac_sha256 secret (buildPayload (time_Unix t) body))"
  by (auto simp: Verify_def Sign_def sign_def split: option.splits)

lemma is_digit_iff: "is_digit c \<longleftrightarrow> 48 \<le> (of_char c :: nat) \<and> (of_char c :: nat) \<le> 57"
  by (simp add: is_digit_def digit_value_def Let_def)

lemma FormatInt_char_range: "c \<in> set (FormatInt i) \<Longrightarrow> ascii c \<and> \<not> is_space c"
  using FormatInt_chars[of c i] by (auto simp: is_digit_iff ascii_def is_space_def)

lemma TrimSpace_FormatInt [simp]: "TrimSpace u (FormatInt i) = FormatInt i"
proof -
  have "list_all ascii (FormatInt i)" "list_all (\<lambda>c. \<not> is_space c) (FormatInt i)"
    using FormatInt_char_range by (auto simp: list_all_iff)
  then show ?thesis by (rule TrimSpace_plain)
qed

lemma FormatInt_not_Nil [simp]: "FormatInt i \<noteq> []"
  by (simp add: FormatInt_def)

lemma sign_not_Nil: "sign secret body ts \<noteq> []"
proof -
  have "length (sign secret body ts) = 64" by (simp add: sign_def)
  then show ?thesis by auto
qed

text \<open>What an acceptable request is, in terms of its headers, its body and the clock.\<close>

definition authentic :: "(string \<Rightarrow> string) \<Rightarrow> string \<Rightarrow> time \<Rightarrow> 'w http_Request \<Rightarrow> bool" where
  "authentic u secret now r \<longleftrightarrow>
     (\<exists>ts body. ParseInt (TrimSpace u (Header_Get (req_Header r) ''X-Timestamp'')) = Some ts \<and>
        Header_Get (req_Header r) ''X-Timestamp'' \<noteq> '''' \<and>
        duration_Abs (time_Sub now (from_Unix ts)) \<le> 5 * Minute \<and>
        req_Body r = Body body \<and>
        hex_decode (Header_Get (req_Header r) ''X-Signature'') = Some (hmac_sha256 secret (buildPayload ts body)))"

lemma ParseInt_range: "ParseInt s = Some i \<Longrightarrow> in_int64 i"
  by (auto simp: ParseInt_def Let_def split: option.splits if_splits)

lemma default_verify_config:
  "verify_config [] = (''X-Signature'', ''X-Timestamp'', 5 * Minute, defaultOnError)"
  by (simp add: verify_config_def DefaultHeader_def DefaultTimestampHeader_def DefaultReplayWindow_def)

lemma defaultOnError_status:
  "\<exists>calls. defaultOnError r err w = Ret (w, calls) \<and> response_status calls = 401"
proof -
  obtain msg where "defaultOnError r err w =
      Ret (w, [RwSet ''Content-Type'' ''application/json''] @ RwWriteHeader 401 # [RwWrite msg])"
    by (simp add: defaultOnError_def reply_def Let_def)
  moreover have "response ([RwSet ''Content-Type'' ''application/json''] @ RwWriteHeader 401 # [RwWrite msg]) =
      (401, rw_Header (rw_run [RwSet ''Content-Type'' ''application/json''] new_ResponseWriter))"
    by (rule response_fixed) (simp_all add: new_ResponseWriter_def informational_def)
  ultimately show ?thesis by (auto simp: response_status_def)
qed

lemma hmac_not_Nil: "hmac_sha256 k m \<noteq> []"
proof -
  have "length (hmac_sha256 k m) = 32" by simp
  then show ?thesis by (metis list.size(3) zero_neq_numeral)
qed

lemma authentic_accepted:
  assumes "authentic u secret now r"
  shows "reqsign_Middleware u secret [] now nextH r w = nextH r w"
proof -
  from assms obtain ts body where a: "ParseInt (TrimSpace u (Header_Get (req_Header r) ''X-Timestamp'')) = Some ts"
    "Header_Get (req_Header r) ''X-Timestamp'' \<noteq> ''''"
    "duration_Abs (time_Sub now (from_Unix ts)) \<le> 5 * Minute" "req_Body r = Body body"
    "hex_decode (Header_Get (req_Header r) ''X-Signature'') = Some (hmac_sha256 secret (buildPayload ts body))"
    unfolding authentic_def by blast
  have "Header_Get (req_Header r) ''X-Signature'' \<noteq> ''''"
    using a(5) hmac_not_Nil[of secret "buildPayload ts body"] by (auto dest: sym)
  then show ?thesis
    using a ParseInt_range[OF a(1)] by (simp add: reqsign_Middleware_def default_verify_config Verify_iff)
qed

lemma not_authentic_rejected:
  assumes "\<not> authentic u secret now r"
  shows "\<exists>err. reqsign_Middleware u secret [] now nextH r w = defaultOnError r err w"
proof (cases "ParseInt (TrimSpace u (Header_Get (req_Header r) ''X-Timestamp''))")
  case None
  then show ?thesis by (auto simp: reqsign_Middleware_def default_verify_config Let_def)
next
  case (Some ts)
  show ?thesis
  proof (cases "req_Body r")
    case (BrokenBody err)
    with Some show ?thesis by (auto simp: reqsign_Middleware_def default_verify_config Let_def)
  next
    case (Body body)
    have "Header_Get (req_Header r) ''X-Timestamp'' = '''' \<or> 5 * Minute < duration_Abs (time_Sub now (from_Unix ts)) \<or>
        \<not> Verify secret body (from_Unix ts) (Header_Get (req_Header r) ''X-Signature'')"
      using assms Some Body ParseInt_range[OF Some] unfolding authentic_def Verify_iff by auto
    with Some Body show ?thesis
      by (auto simp: reqsign_Middleware_def default_verify_config Let_def)
  qed
qed

section \<open>Properties\<close>

text \<open>
  C20: only authentic requests pass. With the default options the handler runs exactly for the
  requests whose signature is the HMAC-SHA256, under the shared secret, of the timestamp header
  and the whole body, at most five minutes old or ahead; it then sees the request with its body
  unread. Every other request is answered 401, whatever the handler would do.
\<close>

theorem only_authentic_requests_pass:
  "if authentic u secret now r then reqsign_Middleware u secret [] now nextH r w = nextH r w
   else \<exists>calls. reqsign_Middleware u secret [] now nextH r w = Ret (w, calls) \<and> response_status calls = 401"
  using authentic_accepted[of u secret now r nextH w] not_authentic_rejected[of u secret now r nextH w]
    defaultOnError_status[of r _ w]
  by auto

text \<open>
  C21: what the transport signs, the middleware accepts. A request sent through the signing
  transport with the same secret and delivered unchanged passes, when the receiver's clock is
  within five minutes of the second in which it was signed.
\<close>

theorem signed_request_is_accepted:
  assumes "RoundTrip (NewSigningTransport secret) t r = Inr r'"
    and "\<bar>t div Second\<bar> < 2 ^ 62" and "\<bar>now - t div Second * Second\<bar> \<le> 5 * Minute"
  shows "reqsign_Middleware u secret [] now nextH r' w = nextH r' w"
proof (rule authentic_accepted)
  from assms(1) obtain body where b: "req_Body r = Body body"
    by (auto simp: RoundTrip_def split: http_body.splits)
  have unix: "time_Unix t = t div Second" "in_int64 (t div Second)"
    using assms(2) by (auto simp: time_Unix_def int64_defs abs_less_iff)
  have r': "r' = r\<lparr>req_Header := Header_Set ''X-Signature'' (sign secret body (t div Second))
      (Header_Set ''X-Timestamp'' (FormatInt (t div Second)) (req_Header r))\<rparr>"
    using assms(1) b unix
    by (simp add: RoundTrip_def NewSigningTransport_def DefaultHeader_def DefaultTimestampHeader_def Sign_def Let_def)
  have "duration_Abs (time_Sub now (from_Unix (t div Second))) \<le> 5 * Minute"
    unfolding from_Unix_small[OF assms(2)] using assms(3)
    by (simp add: time_Sub_def duration_Abs_def duration_defs int64_defs abs_le_iff)
  then show "authentic u secret now r'"
    unfolding authentic_def r'
    using b unix
    by (intro exI[of _ "t div Second"] exI[of _ body])
      (simp add: Header_Get_Set ParseInt_FormatInt sign_def)
qed

lemma signed_request_is_accepted_witness:
  "\<exists>r'. RoundTrip (NewSigningTransport ''s3cret'') (1700000000 * Second) (plain_request\<lparr>req_Body := Body ''pay 5''\<rparr>) = Inr r' \<and>
     reqsign_Middleware id ''s3cret'' [] (1700000299 * Second) (\<lambda>r. reply [RwWriteHeader 204]) r' () =
     Ret ((), [RwWriteHeader 204])"
proof -
  obtain r' :: "unit http_Request" where r: "RoundTrip (NewSigningTransport ''s3cret'') (1700000000 * Second)
      (plain_request\<lparr>req_Body := Body ''pay 5''\<rparr>) = Inr r'"
    by (simp add: RoundTrip_def Let_def)
  have "reqsign_Middleware id ''s3cret'' [] (1700000299 * Second) (\<lambda>r. reply [RwWriteHeader 204]) r' () =
      reply [RwWriteHeader 204] ()"
    by (rule signed_request_is_accepted[OF r]) (simp_all add: duration_defs)
  with r show ?thesis by (auto simp: reply_def)
qed

text \<open>
  A signature binds its timestamp to its body. The signed text determines both, so that two
  signatures under one secret agree for different timestamps or bodies only if HMAC-SHA256
  collides.
\<close>

theorem signature_binds_timestamp_and_body:
  assumes "in_int64 ts" "in_int64 ts'"
  shows "sign secret body ts = sign secret body' ts' \<longleftrightarrow>
    (ts = ts' \<and> body = body') \<or>
    (buildPayload ts body \<noteq> buildPayload ts' body' \<and>
     hmac_sha256 secret (buildPayload ts body) = hmac_sha256 secret (buildPayload ts' body'))"
  using payload_inject[OF assms, of body body'] by (auto simp: sign_def)

lemma signature_binds_timestamp_and_body_witness:
  "sign ''k'' ''2 hi'' 1 = sign ''k'' ''hi'' 12 \<longleftrightarrow>
     hmac_sha256 ''k'' (buildPayload 1 ''2 hi'') = hmac_sha256 ''k'' (buildPayload 12 ''hi'')"
  using signature_binds_timestamp_and_body[of 1 12 "''k''" "''2 hi''" "''hi''"] payload_inject[of 1 12 "''2 hi''" "''hi''"]
  by (simp add: int64_defs)

end
