(* ===== verification/Otp.thy ===== *)
theory Otp
  imports Http
begin

text \<open>
  The package \<open>otp\<close> (\<open>otp/totp.go\<close>): base32 secrets, HOTP and TOTP codes, their verification,
  provisioning URIs and backup codes. \<open>uu\<close> and \<open>us\<close> are \<open>strings.ToUpper\<close> and \<open>strings.TrimSpace\<close> on
  strings that are not ASCII; \<open>impl\<close> is the implementation's conversion to \<open>uint32\<close> of powers of
  ten that do not fit.
\<close>

section \<open>Base32\<close>

definition base32_alphabet :: string where
  "base32_alphabet = ''ABCDEFGHIJKLMNOPQRSTUVWXYZ234567''"

definition b32_value :: "char \<Rightarrow> nat option" where
  "b32_value c =
     (let n = of_char c :: nat in
      if 65 \<le> n \<and> n \<le> 90 then Some (n - 65)
      else if 50 \<le> n \<and> n \<le> 55 then Some (n - 24)
      else None)"

text \<open>The eight characters for five bytes; a shorter rest is filled up with zero bits.\<close>

definition b32_digits :: "nat \<Rightarrow> nat \<Rightarrow> nat \<Rightarrow> nat \<Rightarrow> nat \<Rightarrow> nat list" where
  "b32_digits a b c d e =
     [a div 8, (a mod 8) * 4 + b div 64, b div 2 mod 32, (b mod 2) * 16 + c div 16,
      (c mod 16) * 2 + d div 128, d div 4 mod 32, (d mod 4) * 8 + e div 32, e mod 32]"

fun b32_encode :: "string \<Rightarrow> string" where
  "b32_encode (a # b # c # d # e # rs) =
     map ((!) base32_alphabet) (b32_digits (of_char a) (of_char b) (of_char c) (of_char d) (of_char e)) @
     b32_encode rs"
| "b32_encode [] = []"
| "b32_encode [a] = map ((!) base32_alphabet) (take 2 (b32_digits (of_char a) 0 0 0 0))"
| "b32_encode [a, b] = map ((!) base32_alphabet) (take 4 (b32_digits (of_char a) (of_char b) 0 0 0))"
| "b32_encode [a, b, c] = map ((!) base32_alphabet) (take 5 (b32_digits (of_char a) (of_char b) (of_char c) 0 0))"
| "b32_encode [a, b, c, d] =
     map ((!) base32_alphabet) (take 7 (b32_digits (of_char a) (of_char b) (of_char c) (of_char d) 0))"

text \<open>
  The decoder of \<open>encoding/base32\<close>: it reads eight characters at a time; padding ends the input,
  must be complete and must leave a possible number of characters.
\<close>

function read_block :: "nat list \<Rightarrow> string \<Rightarrow> (nat list \<times> string \<times> bool) option" where
  "read_block acc src =
     (if 8 \<le> length acc then Some (acc, src, False)
      else case src of
             [] \<Rightarrow> None
           | c # rs \<Rightarrow>
               if c = CHR ''='' \<and> 2 \<le> length acc \<and> length rs < 8 then
                 (if length rs + length acc < 7 then None
                  else if list_ex (\<lambda>x. x \<noteq> CHR ''='') (take (7 - length acc) rs) then None
                  else if length acc \<in> {1, 3, 6} then None
                  else Some (acc, rs, True))
               else (case b32_value c of
                       None \<Rightarrow> None
                     | Some v \<Rightarrow> read_block (acc @ [v]) rs))"
  by pat_completeness auto
termination by (relation "measure (\<lambda>(acc, src). length src)") auto

declare read_block.simps [simp del]

definition b32_bytes :: "nat list \<Rightarrow> nat list" where
  "b32_bytes q =
     (let v = (\<lambda>i. if i < length q then q ! i else 0) in
      take (length q * 5 div 8)
        [v 0 * 8 + v 1 div 4, (v 1 mod 4) * 64 + v 2 * 2 + v 3 div 16, (v 3 mod 16) * 16 + v 4 div 2,
         (v 4 mod 2) * 128 + v 5 * 4 + v 6 div 8, (v 6 mod 8) * 32 + v 7])"

lemma read_block_shorter:
  "read_block acc src = Some (q, rs, e) \<Longrightarrow> length acc < 8 \<Longrightarrow> length rs < length src"
proof (induction acc src arbitrary: q rs e rule: read_block.induct)
  case (1 acc src)
  show ?case
  proof (cases src)
    case Nil
    with "1.prems" show ?thesis by (simp add: read_block.simps)
  next
    case (Cons c cs)
    show ?thesis
    proof (cases "c = CHR ''='' \<and> 2 \<le> length acc \<and> length cs < 8")
      case True
      with Cons "1.prems" show ?thesis
        by (subst (asm) read_block.simps) (auto split: if_splits)
    next
      case False
      with Cons "1.prems" obtain v where v: "b32_value c = Some v" "read_block (acc @ [v]) cs = Some (q, rs, e)"
        by (subst (asm) read_block.simps) (auto split: option.splits)
      show ?thesis
      proof (cases "length (acc @ [v]) < 8")
        case True
        with "1.IH"[OF _ Cons False v(1) v(2)] "1.prems"(2) Cons show ?thesis by simp
      next
        case False
        with v(2) show ?thesis by (subst (asm) read_block.simps) (simp add: Cons)
      qed
    qed
  qed
qed

function b32_decode :: "string \<Rightarrow> string option" where
  "b32_decode src =
     (if src = [] then Some []
      else case read_block [] src of
             None \<Rightarrow> None
           | Some (q, rs, e) \<Rightarrow>
               if e then Some (map char_of (b32_bytes q))
               else map_option (\<lambda>bs. map char_of (b32_bytes q) @ bs) (b32_decode rs))"
  by pat_completeness auto
termination
  by (relation "measure length") (auto dest: read_block_shorter)

declare b32_decode.simps [simp del]

text \<open>\<open>DecodeString\<close> drops line ends first.\<close>

definition b32_DecodeString :: "string \<Rightarrow> string option" where
  "b32_DecodeString s = b32_decode (filter (\<lambda>c. c \<noteq> CHR 0x0D \<and> c \<noteq> CHR 0x0A) s)"

section \<open>Secrets\<close>

datatype otp_error =
    ErrInvalidCode
  | ErrBadSecret
  | ErrRandom

definition SecretBytes :: nat where "SecretBytes = 20"
definition DefaultDigits :: int where "DefaultDigits = 6"
definition DefaultPeriod :: nat where "DefaultPeriod = 30"
definition DefaultSkew :: nat where "DefaultSkew = 1"

text \<open>\<open>rand\<close> is the randomness still to come; reading more than there is fails.\<close>

definition NewSecret :: "string \<Rightarrow> otp_error + string" where
  "NewSecret rand =
     (if length rand < SecretBytes then Inl ErrRandom else Inr (b32_encode (take SecretBytes rand)))"

definition decodeSecret :: "(string \<Rightarrow> string) \<Rightarrow> (string \<Rightarrow> string) \<Rightarrow> string \<Rightarrow> otp_error + string" where
  "decodeSecret uu us secret =
     (let s = TrimSpace us (ToUpper uu secret);
          pad = length s mod 8;
          s' = (if pad \<noteq> 0 then s @ replicate (8 - pad) (CHR ''='') else s)
      in case b32_DecodeString s' of None \<Rightarrow> Inl ErrBadSecret | Some key \<Rightarrow> Inr key)"

section \<open>Codes\<close>

definition uint64_bytes :: "64 word \<Rightarrow> string" where
  "uint64_bytes w = map (\<lambda>i. char_of (unat (drop_bit (8 * i) w) mod 256)) [7, 6, 5, 4, 3, 2, 1, 0 :: nat]"

definition counterFor :: "time \<Rightarrow> nat \<Rightarrow> 64 word" where
  "counterFor t period = word_of_int (time_Unix t) div of_nat period"

text \<open>Dynamic truncation: 31 bits from the offset in the last four bits of the MAC.\<close>

definition truncated :: "string \<Rightarrow> nat" where
  "truncated h =
     (let b = (\<lambda>i. of_char (h ! i) :: nat); offset = b (length h - 1) mod 16 in
      (b offset mod 128) * 2 ^ 24 + b (offset + 1) * 2 ^ 16 + b (offset + 2) * 2 ^ 8 + b (offset + 3))"

text \<open>\<open>uint32(math.Pow10(digits))\<close>: a negative power truncates to 0.\<close>

definition pow10_uint32 :: "(int \<Rightarrow> nat) \<Rightarrow> int \<Rightarrow> nat" where
  "pow10_uint32 impl digits = (if digits < 0 then 0 else if digits \<le> 9 then 10 ^ nat digits else impl digits)"

text \<open>\<open>fmt.Sprintf("%0*d", digits, code)\<close>.\<close>

definition zero_padded :: "int \<Rightarrow> nat \<Rightarrow> string" where
  "zero_padded digits n = (let s = decimal n in replicate (nat digits - length s) (CHR ''0'') @ s)"

text \<open>Taking the remainder by zero panics.\<close>

definition generateHOTP ::
  "(int \<Rightarrow> nat) \<Rightarrow> (string \<Rightarrow> string) \<Rightarrow> (string \<Rightarrow> string) \<Rightarrow> string \<Rightarrow> 64 word \<Rightarrow> int \<Rightarrow>
     (otp_error + string) outcome" where
  "generateHOTP impl uu us secret counter digits =
     (case decodeSecret uu us secret of
        Inl err \<Rightarrow> Ret (Inl err)
      | Inr key \<Rightarrow>
          (let h = hmac_sha1 key (uint64_bytes counter); m = pow10_uint32 impl digits in
           if m = 0 then Panic else Ret (Inr (zero_padded digits (truncated h mod m)))))"

definition GenerateAt ::
  "(int \<Rightarrow> nat) \<Rightarrow> (string \<Rightarrow> string) \<Rightarrow> (string \<Rightarrow> string) \<Rightarrow> string \<Rightarrow> time \<Rightarrow> (otp_error + string) outcome" where
  "GenerateAt impl uu us secret t = generateHOTP impl uu us secret (counterFor t DefaultPeriod) DefaultDigits"

definition Generate ::
  "(int \<Rightarrow> nat) \<Rightarrow> (string \<Rightarrow> string) \<Rightarrow> (string \<Rightarrow> string) \<Rightarrow> time \<Rightarrow> string \<Rightarrow> (otp_error + string) outcome" where
  "Generate impl uu us now secret = GenerateAt impl uu us secret now"

section \<open>Verification\<close>

record otp_VerifyOptions =
  Digits :: int
  Period :: nat
  Skew :: nat

text \<open>The loop over the candidates: \<open>true\<close> at the first match, an error of the generator at once.\<close>

fun try_candidates :: "(int \<Rightarrow> (otp_error + string) outcome) \<Rightarrow> string \<Rightarrow> int list \<Rightarrow> (bool \<times> otp_error option) outcome" where
  "try_candidates gen code [] = Ret (False, Some ErrInvalidCode)"
| "try_candidates gen code (i # is) =
     bind_outcome (gen i) (\<lambda>x.
       case x of
         Inl err \<Rightarrow> Ret (False, Some err)
       | Inr candidate \<Rightarrow> if candidate = code then Ret (True, None) else try_candidates gen code is)"

text \<open>
  The skew is below \<open>2 ^ 63 - 1\<close>, so that the loop variable does not overflow. The new counter is
  formed modulo \<open>2 ^ 64\<close>.
\<close>

definition VerifyWithOptions ::
  "(int \<Rightarrow> nat) \<Rightarrow> (string \<Rightarrow> string) \<Rightarrow> (string \<Rightarrow> string) \<Rightarrow> time \<Rightarrow> string \<Rightarrow> string \<Rightarrow> otp_VerifyOptions \<Rightarrow>
     (bool \<times> otp_error option) outcome" where
  "VerifyWithOptions impl uu us now secret code opts =
     (let digits = (if Digits opts = 0 then DefaultDigits else Digits opts);
          period = (if Period opts = 0 then DefaultPeriod else Period opts);
          skew = (if Skew opts = 0 then DefaultSkew else Skew opts);
          code' = TrimSpace us code
      in if int (length code') \<noteq> digits then Ret (False, Some ErrInvalidCode)
         else let counter = counterFor now period in
              try_candidates (\<lambda>i. generateHOTP impl uu us secret (counter + word_of_int i) digits) code'
                [- int skew..int skew])"

definition otp_Verify ::
  "(int \<Rightarrow> nat) \<Rightarrow> (string \<Rightarrow> string) \<Rightarrow> (string \<Rightarrow> string) \<Rightarrow> time \<Rightarrow> string \<Rightarrow> string \<Rightarrow> (bool \<times> otp_error option) outcome" where
  "otp_Verify impl uu us now secret code =
     VerifyWithOptions impl uu us now secret code \<lparr>Digits = 0, Period = 0, Skew = 0\<rparr>"

section \<open>Provisioning URIs\<close>

definition unreserved :: "char \<Rightarrow> bool" where
  "unreserved c =
     (let n = of_char c :: nat
      in (48 \<le> n \<and> n \<le> 57) \<or> (65 \<le> n \<and> n \<le> 90) \<or> (97 \<le> n \<and> n \<le> 122) \<or> c \<in> set ''-_.~'')"

definition percent :: "char \<Rightarrow> string" where
  "percent c = [CHR ''%'', upper_byte (hex_digit (of_char c div 16)), upper_byte (hex_digit (of_char c mod 16))]"

definition PathEscape :: "string \<Rightarrow> string" where
  "PathEscape s = concat (map (\<lambda>c. if unreserved c \<or> c \<in> set ''$&+=:@'' then [c] else percent c) s)"

definition QueryEscape :: "string \<Rightarrow> string" where
  "QueryEscape s =
     concat (map (\<lambda>c. if unreserved c then [c] else if c = CHR '' '' then ''+'' else percent c) s)"

text \<open>\<open>url.Values.Encode\<close> sorts by key.\<close>

definition ProvisioningURI :: "string \<Rightarrow> string \<Rightarrow> string \<Rightarrow> string" where
  "ProvisioningURI account issuer secret =
     ''otpauth://totp/'' @ PathEscape (issuer @ '':'' @ account) @ ''?'' @
     ''algorithm=SHA1&digits='' @ QueryEscape (FormatInt DefaultDigits) @ ''&issuer='' @ QueryEscape issuer @
     ''&period='' @ QueryEscape (FormatInt (int DefaultPeriod)) @ ''&secret='' @ QueryEscape secret"

section \<open>Backup codes\<close>

definition backup_chars :: string where
  "backup_chars = ''0123456789ABCDEFGHJKMNPQRSTVWXYZ''"

definition backup_code :: "string \<Rightarrow> string" where
  "backup_code buf =
     (let b = map (\<lambda>c. backup_chars ! (of_char c mod length backup_chars)) buf
      in take 5 b @ ''-'' @ drop 5 b)"

fun GenerateBackupCodes :: "nat \<Rightarrow> string \<Rightarrow> otp_error + string list" where
  "GenerateBackupCodes 0 rand = Inr []"
| "GenerateBackupCodes (Suc n) rand =
     (if length rand < 10 then Inl ErrRandom
      else case GenerateBackupCodes n (drop 10 rand) of
             Inl err \<Rightarrow> Inl err
           | Inr codes \<Rightarrow> Inr (backup_code (take 10 rand) # codes))"


section \<open>Lemmas on base32\<close>

lemma alphabet_facts:
  "list_all (\<lambda>v. b32_value (base32_alphabet ! v) = Some v) [0..<32]"
  "list_all (\<lambda>c. ascii c \<and> upper_byte c = c \<and> \<not> is_space c \<and> c \<noteq> CHR ''='' \<and> c \<noteq> CHR 0x0D \<and> c \<noteq> CHR 0x0A) base32_alphabet"
  "length base32_alphabet = 32"
  by code_simp+

lemma b32_value_digit: "v < 32 \<Longrightarrow> b32_value (base32_alphabet ! v) = Some v"
  using alphabet_facts(1) by (simp add: list_all_iff)

lemma alphabet_char:
  assumes "c \<in> set base32_alphabet"
  shows "ascii c" "upper_byte c = c" "\<not> is_space c" "c \<noteq> CHR ''=''" "c \<noteq> CHR 0x0D" "c \<noteq> CHR 0x0A"
  using alphabet_facts(2) assms by (auto simp: list_all_iff)

lemma alphabet_nth: "v < 32 \<Longrightarrow> base32_alphabet ! v \<in> set base32_alphabet"
  using alphabet_facts(3) by (metis nth_mem)

lemma b32_digits_range:
  assumes "a < 256" "b < 256" "c < 256" "d < 256" "e < 256"
  shows "list_all (\<lambda>v. v < 32) (b32_digits a b c d e)"
proof -
  have "a div 8 < 32" "b div 64 < 4" "c div 16 < 16" "d div 128 < 2" "e div 32 < 8"
    using assms by (simp_all add: less_mult_imp_div_less)
  moreover have "(a mod 8) * 4 + x < 32" if "x < 4" for x
    using that mod_less_divisor[of 8 a] by linarith
  moreover have "(b mod 2) * 16 + x < 32" if "x < 16" for x
    using that mod_less_divisor[of 2 b] by linarith
  moreover have "(c mod 16) * 2 + x < 32" if "x < 2" for x
    using that mod_less_divisor[of 16 c] by linarith
  moreover have "(d mod 4) * 8 + x < 32" if "x < 8" for x
    using that mod_less_divisor[of 4 d] by linarith
  ultimately show ?thesis by (simp add: b32_digits_def)
qed

lemma b32_bytes_digits:
  assumes "a < 256" "b < 256" "c < 256" "d < 256" "e < 256"
  shows "b32_bytes (b32_digits a b c d e) = [a, b, c, d, e]"
proof -
  have small: "b div 64 < 4" "c div 16 < 16" "d div 128 < 2" "e div 32 < 8"
    using assms by (simp_all add: less_mult_imp_div_less)
  have 1: "a div 8 * 8 + ((a mod 8) * 4 + b div 64) div 4 = a"
    using small(1) div_mult_mod_eq[of a 8] by simp
  have 2: "((a mod 8) * 4 + b div 64) mod 4 * 64 + b div 2 mod 32 * 2 + ((b mod 2) * 16 + c div 16) div 16 = b"
  proof -
    have "b div 2 div 32 = b div 64" by (simp add: div_mult2_eq[symmetric])
    moreover have "((a mod 8) * 4 + b div 64) mod 4 = b div 64" "((b mod 2) * 16 + c div 16) div 16 = b mod 2"
      using small(1,2) by simp_all
    ultimately show ?thesis
      using div_mult_mod_eq[of "b div 2" 32] div_mult_mod_eq[of b 2] by linarith
  qed
  have 3: "((b mod 2) * 16 + c div 16) mod 16 * 16 + ((c mod 16) * 2 + d div 128) div 2 = c"
    using small(2,3) div_mult_mod_eq[of c 16] by simp
  have 4: "((c mod 16) * 2 + d div 128) mod 2 * 128 + d div 4 mod 32 * 4 + ((d mod 4) * 8 + e div 32) div 8 = d"
  proof -
    have "d div 4 div 32 = d div 128" by (simp add: div_mult2_eq[symmetric])
    moreover have "((c mod 16) * 2 + d div 128) mod 2 = d div 128" "((d mod 4) * 8 + e div 32) div 8 = d mod 4"
      using small(3,4) by simp_all
    ultimately show ?thesis
      using div_mult_mod_eq[of "d div 4" 32] div_mult_mod_eq[of d 4] by linarith
  qed
  have 5: "((d mod 4) * 8 + e div 32) mod 8 * 32 + e mod 32 = e"
    using small(4) div_mult_mod_eq[of e 32] by simp
  have "b32_bytes (b32_digits a b c d e) =
      [a div 8 * 8 + ((a mod 8) * 4 + b div 64) div 4,
       ((a mod 8) * 4 + b div 64) mod 4 * 64 + b div 2 mod 32 * 2 + ((b mod 2) * 16 + c div 16) div 16,
       ((b mod 2) * 16 + c div 16) mod 16 * 16 + ((c mod 16) * 2 + d div 128) div 2,
       ((c mod 16) * 2 + d div 128) mod 2 * 128 + d div 4 mod 32 * 4 + ((d mod 4) * 8 + e div 32) div 8,
       ((d mod 4) * 8 + e div 32) mod 8 * 32 + e mod 32]"
    by (simp add: b32_bytes_def b32_digits_def)
  then show ?thesis by (simp only: 1 2 3 4 5)
qed

lemma read_block_digits:
  "list_all (\<lambda>v. v < 32) q \<Longrightarrow> length acc + length q = 8 \<Longrightarrow>
     read_block acc (map ((!) base32_alphabet) q @ rs) = Some (acc @ q, rs, False)"
proof (induction q arbitrary: acc)
  case Nil
  then show ?case by (simp add: read_block.simps)
next
  case (Cons v q)
  then have "base32_alphabet ! v \<noteq> CHR ''=''" "b32_value (base32_alphabet ! v) = Some v"
    using alphabet_char(4)[OF alphabet_nth] by (simp_all add: b32_value_digit)
  with Cons show ?case by (subst read_block.simps) simp
qed

lemma b32_decode_encode: "5 dvd length bs \<Longrightarrow> b32_decode (b32_encode bs) = Some bs"
proof (induction bs rule: b32_encode.induct)
  case (1 a b c d e rs)
  let ?q = "b32_digits (of_char a) (of_char b) (of_char c) (of_char d) (of_char e)"
  have lt: "of_char x < (256 :: nat)" for x by simp
  have "read_block [] (map ((!) base32_alphabet) ?q @ b32_encode rs) = Some ([] @ ?q, b32_encode rs, False)"
    by (rule read_block_digits) (simp_all only: b32_digits_range[OF lt lt lt lt lt], simp add: b32_digits_def)
  moreover have "length (a # b # c # d # e # rs) = 5 + length rs" by simp
  then have "5 dvd length rs" using 1(2) by (metis dvd_add_right_iff dvd_refl)
  then have "b32_decode (b32_encode rs) = Some rs" by (rule 1(1))
  moreover have "b32_encode (a # b # c # d # e # rs) \<noteq> []"
    by (simp add: b32_digits_def)
  ultimately show ?case
    by (subst b32_decode.simps) (simp add: b32_bytes_digits[OF lt lt lt lt lt] del: of_char_of)
next
  case 2
  then show ?case by (simp add: b32_decode.simps)
qed (auto dest!: dvd_imp_le)

lemma set_b32_encode: "set (b32_encode bs) \<subseteq> set base32_alphabet"
proof -
  have lt: "of_char x < (256 :: nat)" for x by simp
  have dig: "set (map ((!) base32_alphabet) q) \<subseteq> set base32_alphabet" if "list_all (\<lambda>v. v < 32) q" for q
    using that alphabet_nth by (auto simp: list_all_iff)
  have tk: "list_all (\<lambda>v. v < 32) (take n q)" if "list_all (\<lambda>v. v < 32) q" for n and q :: "nat list"
    using that by (auto simp: list_all_iff dest: in_set_takeD)
  show ?thesis
    by (induction bs rule: b32_encode.induct)
      (simp_all only: b32_encode.simps set_append Un_subset_iff, simp_all only: dig tk b32_digits_range lt zero_less_numeral, simp_all)
qed


lemma decodeSecret_encode:
  assumes "5 dvd length bs" "length (b32_encode bs) mod 8 = 0"
  shows "decodeSecret uu us (b32_encode bs) = Inr bs"
proof -
  have c: "c \<in> set base32_alphabet" if "c \<in> set (b32_encode bs)" for c
    using that set_b32_encode by blast
  have "list_all ascii (b32_encode bs)" "list_all (\<lambda>c. \<not> is_space c) (b32_encode bs)"
    using alphabet_char c by (simp_all add: list_all_iff)
  moreover have "map upper_byte (b32_encode bs) = b32_encode bs"
    using alphabet_char(2) c by (simp add: map_idI)
  ultimately have "TrimSpace us (ToUpper uu (b32_encode bs)) = b32_encode bs"
    by (simp add: ToUpper_def TrimSpace_plain)
  moreover have "filter (\<lambda>c. c \<noteq> CHR 0x0D \<and> c \<noteq> CHR 0x0A) (b32_encode bs) = b32_encode bs"
    using alphabet_char(5,6) c by (simp add: filter_id_conv)
  ultimately show ?thesis
    using assms b32_decode_encode by (simp add: decodeSecret_def b32_DecodeString_def Let_def)
qed

lemma length_b32_encode: "length bs = 5 * k \<Longrightarrow> length (b32_encode bs) = 8 * k"
proof (induction k arbitrary: bs)
  case (Suc k)
  then obtain a b c d e rs where bs: "bs = a # b # c # d # e # rs" "length rs = 5 * k"
    by (auto simp: length_Suc_conv numeral_eq_Suc)
  with Suc.IH[of rs] show ?case by (simp add: b32_digits_def)
qed simp

section \<open>Lemmas on codes\<close>

lemma length_decimal: "n < 10 ^ d \<Longrightarrow> 1 \<le> d \<Longrightarrow> length (decimal n) \<le> d"
proof (induction d arbitrary: n)
  case (Suc d)
  show ?case
  proof (cases "n < 10")
    case True
    then show ?thesis by (subst decimal.simps) simp
  next
    case False
    with Suc.prems have "n div 10 < 10 ^ d" "1 \<le> d"
      by (auto simp: less_mult_imp_div_less mult.commute) (cases d; simp)
    from Suc.IH[OF this] False show ?thesis by (subst decimal.simps) simp
  qed
qed simp

text \<open>The code for a decoded key.\<close>

definition hotp :: "string \<Rightarrow> 64 word \<Rightarrow> int \<Rightarrow> string" where
  "hotp key counter digits = zero_padded digits (truncated (hmac_sha1 key (uint64_bytes counter)) mod 10 ^ nat digits)"

lemma generateHOTP_hotp:
  "decodeSecret uu us secret = Inr key \<Longrightarrow> 1 \<le> digits \<Longrightarrow> digits \<le> 9 \<Longrightarrow>
     generateHOTP impl uu us secret counter digits = Ret (Inr (hotp key counter digits))"
  by (simp add: generateHOTP_def pow10_uint32_def hotp_def Let_def)

lemma length_hotp: "1 \<le> digits \<Longrightarrow> length (hotp key counter digits) = nat digits"
proof -
  assume "1 \<le> digits"
  then have "length (decimal (truncated (hmac_sha1 key (uint64_bytes counter)) mod 10 ^ nat digits)) \<le> nat digits"
    by (intro length_decimal) simp_all
  then show ?thesis by (simp add: hotp_def zero_padded_def Let_def)
qed

lemma hotp_digits: "list_all is_digit (hotp key counter digits)"
proof -
  have "is_digit (CHR ''0'')" by (simp add: is_digit_def digit_value_def)
  then show ?thesis
    using decimal_digits by (auto simp: hotp_def zero_padded_def Let_def list_all_iff)
qed

lemma is_digit_plain: "is_digit c \<Longrightarrow> ascii c \<and> \<not> is_space c"
  by (auto simp: is_digit_def digit_value_def ascii_def is_space_def Let_def split: if_splits)

lemma TrimSpace_digits: "list_all is_digit s \<Longrightarrow> TrimSpace us s = s"
proof -
  assume "list_all is_digit s"
  then have "list_all ascii s" "list_all (\<lambda>c. \<not> is_space c) s"
    using is_digit_plain by (auto simp: list_all_iff)
  then show ?thesis by (rule TrimSpace_plain)
qed

lemma try_candidates_spec:
  assumes "\<And>i. gen i = Ret (Inr (f i))"
  shows "try_candidates gen code is =
    (if \<exists>i \<in> set is. f i = code then Ret (True, None) else Ret (False, Some ErrInvalidCode))"
  by (induction "is") (simp_all add: assms)

lemma VerifyWithOptions_spec:
  assumes "decodeSecret uu us secret = Inr key"
    and "digits = (if Digits opts = 0 then 6 else Digits opts)" "1 \<le> digits" "digits \<le> 9"
    and "period = (if Period opts = 0 then 30 else Period opts)"
    and "skew = (if Skew opts = 0 then 1 else int (Skew opts))"
  shows "VerifyWithOptions impl uu us now secret code opts =
    (if \<exists>i. - skew \<le> i \<and> i \<le> skew \<and> TrimSpace us code = hotp key (counterFor now period + word_of_int i) digits
     then Ret (True, None) else Ret (False, Some ErrInvalidCode))"
proof -
  have skew: "int (if Skew opts = 0 then DefaultSkew else Skew opts) = skew"
    using assms(6) by (simp add: DefaultSkew_def)
  have gen: "generateHOTP impl uu us secret (counterFor now period + word_of_int i) digits =
      Ret (Inr (hotp key (counterFor now period + word_of_int i) digits))" for i
    by (rule generateHOTP_hotp[OF assms(1,3,4)])
  have len: "int (length (hotp key c digits)) = digits" for c
    using length_hotp[OF assms(3), of key c] assms(3) by simp
  have found: "(\<exists>i \<in> set [- skew..skew]. hotp key (counterFor now period + word_of_int i) digits = TrimSpace us code) \<longleftrightarrow>
      (\<exists>i. - skew \<le> i \<and> i \<le> skew \<and> TrimSpace us code = hotp key (counterFor now period + word_of_int i) digits)"
    by auto
  show ?thesis
    unfolding VerifyWithOptions_def Let_def skew DefaultDigits_def DefaultPeriod_def
      assms(2)[symmetric] assms(5)[symmetric] try_candidates_spec[OF gen] found
    using len by auto
qed

lemma sample_secret: "decodeSecret id id ''GEZDGNBVGY3TQOJQ'' = Inr ''1234567890''"
proof -
  have e: "b32_encode ''1234567890'' = ''GEZDGNBVGY3TQOJQ''" by code_simp
  have "5 dvd length ''1234567890''" "length ''GEZDGNBVGY3TQOJQ'' mod 8 = 0" by code_simp+
  then show ?thesis
    by (rule decodeSecret_encode[of "''1234567890''" id id, unfolded e])
qed

section \<open>Properties\<close>

text \<open>
  A generated secret is readable. What \<open>NewSecret\<close> returns are 32 base32 characters without
  padding that decode, in either case of the letters being upper and whatever the Unicode tables
  say, to exactly the 20 random bytes drawn.
\<close>

theorem NewSecret_decodes:
  assumes "NewSecret rand = Inr secret"
  shows "decodeSecret uu us secret = Inr (take 20 rand) \<and> length secret = 32"
proof -
  from assms have s: "secret = b32_encode (take 20 rand)" and l: "length (take 20 rand) = 5 * 4"
    by (auto simp: NewSecret_def SecretBytes_def split: if_splits)
  from length_b32_encode[OF l] have len: "length secret = 32" by (simp add: s)
  moreover have "decodeSecret uu us secret = Inr (take 20 rand)"
    unfolding s by (rule decodeSecret_encode) (use l len s in simp_all)
  ultimately show ?thesis by simp
qed

lemma NewSecret_decodes_witness:
  "decodeSecret id id ''GEZDGNBVGY3TQOJQGEZDGNBVGY3TQOJQ'' = Inr ''12345678901234567890''"
proof -
  have "b32_encode ''12345678901234567890'' = ''GEZDGNBVGY3TQOJQGEZDGNBVGY3TQOJQ''" by code_simp
  then have "NewSecret ''12345678901234567890'' = Inr ''GEZDGNBVGY3TQOJQGEZDGNBVGY3TQOJQ''"
    by (simp add: NewSecret_def SecretBytes_def)
  from NewSecret_decodes[OF this, of id id] show ?thesis by simp
qed



lemma counterFor_word:
  assumes "0 \<le> time_Unix t"
  shows "counterFor t 30 = word_of_int (time_Unix t div 30)"
proof -
  have r: "time_Unix t < 2 ^ 63" "in_int64 (time_Unix t)"
    using in_int64_wrap64 by (auto simp: time_Unix_def) (simp add: int64_defs)
  have "uint (word_of_int (time_Unix t) :: 64 word) = time_Unix t"
    using assms r by (simp add: uint_word_of_int)
  then show ?thesis
    by (simp add: counterFor_def word_eq_iff_unsigned uint_div_distrib) (simp add: word_div_def)
qed

text \<open>
  A fresh code is accepted. A code generated at time \<open>t\<close> verifies with the default options
  at every time in the same or a neighbouring 30-second step; it has six decimal digits.
\<close>

theorem generated_code_verifies:
  assumes "GenerateAt impl uu us secret t = Ret (Inr code)"
    and "0 \<le> time_Unix t" "0 \<le> time_Unix now" "\<bar>time_Unix now div 30 - time_Unix t div 30\<bar> \<le> 1"
  shows "otp_Verify impl uu us now secret code = Ret (True, None) \<and> length code = 6 \<and> list_all is_digit code"
proof -
  obtain key where key: "decodeSecret uu us secret = Inr key"
    using assms(1) by (auto simp: GenerateAt_def generateHOTP_def split: sum.splits)
  then have code: "code = hotp key (counterFor t 30) 6"
    using assms(1) generateHOTP_hotp[OF key, of 6] by (simp add: GenerateAt_def DefaultDigits_def DefaultPeriod_def)
  have trim: "TrimSpace us code = code"
    unfolding code by (rule TrimSpace_digits[OF hotp_digits])
  let ?i = "time_Unix t div 30 - time_Unix now div 30"
  have "counterFor t 30 = counterFor now 30 + word_of_int ?i"
    unfolding counterFor_word[OF assms(2)] counterFor_word[OF assms(3)] by (simp flip: of_int_add)
  moreover have "- 1 \<le> ?i" "?i \<le> 1" using assms(4) by linarith+
  ultimately have "\<exists>i. - 1 \<le> i \<and> i \<le> 1 \<and> TrimSpace us code = hotp key (counterFor now 30 + word_of_int i) 6"
    using code trim by metis
  then show ?thesis
    using VerifyWithOptions_spec[OF key, of 6 "\<lparr>Digits = 0, Period = 0, Skew = 0\<rparr>" 30 1 impl now code]
    by (simp add: otp_Verify_def code length_hotp hotp_digits)
qed

lemma generated_code_verifies_witness:
  "\<exists>code. GenerateAt (\<lambda>_. 0) id id ''GEZDGNBVGY3TQOJQ'' (59 * Second) = Ret (Inr code) \<and>
     otp_Verify (\<lambda>_. 0) id id (89 * Second) ''GEZDGNBVGY3TQOJQ'' code = Ret (True, None)"
proof -
  note s = sample_secret
  obtain code where g: "GenerateAt (\<lambda>_. 0) id id ''GEZDGNBVGY3TQOJQ'' (59 * Second) = Ret (Inr code)"
    using generateHOTP_hotp[OF s, of 6] by (simp add: GenerateAt_def DefaultDigits_def)
  have u: "time_Unix (59 * Second) = 59" "time_Unix (89 * Second) = 89"
    by (simp_all add: time_Unix_def duration_defs int64_defs)
  from generated_code_verifies[OF g, of "89 * Second"] g show ?thesis by (simp add: u)
qed

end
