(* ===== verification/PasswdPolicy.thy ===== *)
theory PasswdPolicy
  imports Float64 Runes
begin

text \<open>
  The package \<open>passwdpolicy\<close>. Passwords are byte strings, decoded to runes as Go does. The Unicode
  character classes beyond ASCII, the case functions on strings that are not ASCII, \<open>math.Log2\<close>
  at a pool size and the \<open>%.0f\<close> format are fields of the parameter \<open>env\<close>.
\<close>

section \<open>The environment\<close>

record unicode =
  uni_IsUpper :: "nat \<Rightarrow> bool"
  uni_IsLower :: "nat \<Rightarrow> bool"
  uni_IsDigit :: "nat \<Rightarrow> bool"
  uni_IsPunct :: "nat \<Rightarrow> bool"
  uni_IsSymbol :: "nat \<Rightarrow> bool"
  uni_ToLower :: "string \<Rightarrow> string"
  uni_EqualFold :: "string \<Rightarrow> string \<Rightarrow> bool"
  math_Log2 :: "nat \<Rightarrow> rat"
  fmt_0f :: "rat \<Rightarrow> string"

definition IsUpper :: "unicode \<Rightarrow> nat \<Rightarrow> bool" where
  "IsUpper env r = (if r < 128 then 65 \<le> r \<and> r \<le> 90 else uni_IsUpper env r)"

definition IsLower :: "unicode \<Rightarrow> nat \<Rightarrow> bool" where
  "IsLower env r = (if r < 128 then 97 \<le> r \<and> r \<le> 122 else uni_IsLower env r)"

definition IsDigit :: "unicode \<Rightarrow> nat \<Rightarrow> bool" where
  "IsDigit env r = (if r < 128 then 48 \<le> r \<and> r \<le> 57 else uni_IsDigit env r)"

definition IsPunctOrSymbol :: "unicode \<Rightarrow> nat \<Rightarrow> bool" where
  "IsPunctOrSymbol env r =
     (if r < 128 then 33 \<le> r \<and> r \<le> 126 \<and> \<not> (48 \<le> r \<and> r \<le> 57) \<and> \<not> (65 \<le> r \<and> r \<le> 90) \<and> \<not> (97 \<le> r \<and> r \<le> 122)
      else uni_IsPunct env r \<or> uni_IsSymbol env r)"

section \<open>Character classes and entropy\<close>

record classes =
  hasUpper :: bool
  hasLower :: bool
  hasDigit :: bool
  hasSpecial :: bool

text \<open>The loop over the runes; the cases of the switch exclude each other.\<close>

definition add_class :: "unicode \<Rightarrow> nat \<Rightarrow> classes \<Rightarrow> classes" where
  "add_class env r c =
     (if IsUpper env r then c\<lparr>hasUpper := True\<rparr>
      else if IsLower env r then c\<lparr>hasLower := True\<rparr>
      else if IsDigit env r then c\<lparr>hasDigit := True\<rparr>
      else if IsPunctOrSymbol env r then c\<lparr>hasSpecial := True\<rparr>
      else c)"

fun scan :: "unicode \<Rightarrow> nat list \<Rightarrow> classes \<Rightarrow> classes" where
  "scan env [] c = c"
| "scan env (r # rs) c = scan env rs (add_class env r c)"

definition no_classes :: classes where
  "no_classes = \<lparr>hasUpper = False, hasLower = False, hasDigit = False, hasSpecial = False\<rparr>"

definition pool :: "classes \<Rightarrow> nat" where
  "pool c = (if hasLower c then 26 else 0) + (if hasUpper c then 26 else 0) +
     (if hasDigit c then 10 else 0) + (if hasSpecial c then 32 else 0)"

definition estimateEntropy :: "unicode \<Rightarrow> nat list \<Rightarrow> classes \<Rightarrow> rat" where
  "estimateEntropy env rs c =
     (if pool c = 0 then 0 else fl (fl (of_nat (length rs)) * math_Log2 env (pool c)))"

section \<open>Policies\<close>

record passwd_Policy =
  MinLength :: int
  MaxLength :: int
  RequireUpper :: bool
  RequireLower :: bool
  RequireDigit :: bool
  RequireSpecial :: bool
  MinEntropy :: rat
  DisallowCommon :: bool
  Blocklist :: "string list"

record Violation =
  Violation_Rule :: string
  Violation_Message :: string

definition Violation_Error :: "Violation \<Rightarrow> string" where
  "Violation_Error v = Violation_Rule v @ '': '' @ Violation_Message v"

definition OWASP :: passwd_Policy where
  "OWASP = \<lparr>MinLength = 8, MaxLength = 0, RequireUpper = False, RequireLower = False, RequireDigit = False,
     RequireSpecial = False, MinEntropy = 28, DisallowCommon = True, Blocklist = []\<rparr>"

definition passwd_Strict :: passwd_Policy where
  "passwd_Strict = \<lparr>MinLength = 12, MaxLength = 0, RequireUpper = True, RequireLower = True, RequireDigit = True,
     RequireSpecial = True, MinEntropy = 50, DisallowCommon = True, Blocklist = []\<rparr>"

definition applyDefaults :: "passwd_Policy \<Rightarrow> passwd_Policy" where
  "applyDefaults p = (if MinLength p = 0 then p\<lparr>MinLength := 8\<rparr> else p)"

definition commonPasswords :: "string list" where
  "commonPasswords =
     [''password'', ''123456'', ''12345678'', ''qwerty'', ''abc123'', ''monkey'', ''1234567'', ''letmein'',
      ''trustno1'', ''dragon'', ''baseball'', ''iloveyou'', ''master'', ''sunshine'', ''ashley'', ''bailey'',
      ''passw0rd'', ''shadow'', ''123123'', ''654321'', ''superman'', ''qazwsx'', ''michael'', ''football'',
      ''password1'', ''password123'', ''welcome'', ''login'', ''admin'', ''admin123'', ''root'', ''toor'',
      ''pass'', ''test'', ''guest'', ''qwerty123'', ''1q2w3e'', ''1q2w3e4r'', ''1q2w3e4r5t'', ''zxcvbnm'',
      ''asdfghjkl'', ''qwertyuiop'', ''111111'', ''000000'', ''1111111'', ''11111111'', ''12345'',
      ''123456789'', ''1234567890'', ''princess'', ''starwars'', ''cheese'', ''summer'', ''flower'',
      ''playboy'', ''soccer'', ''hockey'', ''ranger'', ''batman'', ''hannah'', ''jessica'', ''george'',
      ''jordan'', ''harley'', ''ranger1'', ''daniel'', ''hunter'', ''hunter2'', ''buster'', ''robert'',
      ''thomas'', ''charlie'', ''andrew'', ''andrea'', ''joshua'', ''jonathan'', ''nicholas'']"

text \<open>Appending a violation when a check fails.\<close>

definition add_if :: "bool \<Rightarrow> string \<Rightarrow> string \<Rightarrow> Violation list \<Rightarrow> Violation list" where
  "add_if failed rule msg vs = (if failed then vs @ [\<lparr>Violation_Rule = rule, Violation_Message = msg\<rparr>] else vs)"

fun blocked :: "unicode \<Rightarrow> string \<Rightarrow> string list \<Rightarrow> bool" where
  "blocked env password [] = False"
| "blocked env password (b # bs) =
     (if EqualFold (uni_EqualFold env) password b then True else blocked env password bs)"

definition Validate :: "unicode \<Rightarrow> passwd_Policy \<Rightarrow> string \<Rightarrow> Violation list" where
  "Validate env policy password =
     (let p = applyDefaults policy;
          rs = runes_of password;
          len = int (length rs);
          vs = add_if (len < MinLength p) ''min_length''
                 (''must be at least '' @ FormatInt (MinLength p) @ '' characters long'') [];
          vs = add_if (0 < MaxLength p \<and> MaxLength p < len) ''max_length''
                 (''must be at most '' @ FormatInt (MaxLength p) @ '' characters long'') vs;
          c = scan env rs no_classes;
          vs = add_if (RequireUpper p \<and> \<not> hasUpper c) ''require_upper''
                 ''must contain at least one uppercase letter'' vs;
          vs = add_if (RequireLower p \<and> \<not> hasLower c) ''require_lower''
                 ''must contain at least one lowercase letter'' vs;
          vs = add_if (RequireDigit p \<and> \<not> hasDigit c) ''require_digit''
                 ''must contain at least one digit'' vs;
          vs = add_if (RequireSpecial p \<and> \<not> hasSpecial c) ''require_special''
                 ''must contain at least one special character'' vs;
          entropy = estimateEntropy env rs c;
          vs = add_if (0 < MinEntropy p \<and> entropy < MinEntropy p) ''min_entropy''
                 (''password is too weak (estimated '' @ fmt_0f env entropy @ '' bits, need '' @
                  fmt_0f env (MinEntropy p) @ '')'') vs;
          lower = ToLower (uni_ToLower env) password;
          vs = add_if (DisallowCommon p \<and> lower \<in> set commonPasswords) ''common_password''
                 ''this password is too common; choose a more unique password'' vs
      in add_if (blocked env password (Blocklist p)) ''blocklist'' ''this password is not allowed'' vs)"

definition IsValid :: "unicode \<Rightarrow> passwd_Policy \<Rightarrow> string \<Rightarrow> bool" where
  "IsValid env p password \<longleftrightarrow> length (Validate env p password) = 0"

section \<open>Strength\<close>

datatype Strength = StrengthVeryWeak | StrengthWeak | StrengthFair | StrengthStrong | StrengthVeryStrong

text \<open>
  The declared constants, and the integer each stands for: they are numbered in order, which
  gives the order of Go's \<open><\<close>.
\<close>

fun Strength_int :: "Strength \<Rightarrow> int" where
  "Strength_int StrengthVeryWeak = 0"
| "Strength_int StrengthWeak = 1"
| "Strength_int StrengthFair = 2"
| "Strength_int StrengthStrong = 3"
| "Strength_int StrengthVeryStrong = 4"

text \<open>
  \<open>String\<close> is defined on every value of the integer type; the declared constants are the ones
  with a name.
\<close>

definition Strength_String :: "int \<Rightarrow> string" where
  "Strength_String s =
     (if s = Strength_int StrengthVeryWeak then ''very weak''
      else if s = Strength_int StrengthWeak then ''weak''
      else if s = Strength_int StrengthFair then ''fair''
      else if s = Strength_int StrengthStrong then ''strong''
      else if s = Strength_int StrengthVeryStrong then ''very strong''
      else ''unknown'')"

instantiation Strength :: linorder
begin

definition less_eq_Strength :: "Strength \<Rightarrow> Strength \<Rightarrow> bool" where
  "less_eq_Strength s t \<longleftrightarrow> Strength_int s \<le> Strength_int t"

definition less_Strength :: "Strength \<Rightarrow> Strength \<Rightarrow> bool" where
  "less_Strength s t \<longleftrightarrow> Strength_int s < Strength_int t"

instance
proof
  fix s t u :: Strength
  show "s \<le> t \<Longrightarrow> t \<le> s \<Longrightarrow> s = t"
    by (cases s; cases t) (simp_all add: less_eq_Strength_def)
qed (auto simp: less_eq_Strength_def less_Strength_def)

end

definition strength_of_entropy :: "rat \<Rightarrow> Strength" where
  "strength_of_entropy entropy =
     (if entropy < 28 then StrengthVeryWeak
      else if entropy < 36 then StrengthWeak
      else if entropy < 50 then StrengthFair
      else if entropy < 65 then StrengthStrong
      else StrengthVeryStrong)"

definition EstimateStrength :: "unicode \<Rightarrow> string \<Rightarrow> Strength" where
  "EstimateStrength env password =
     (let rs = runes_of password in strength_of_entropy (estimateEntropy env rs (scan env rs no_classes)))"

section \<open>Lemmas\<close>

lemma add_if_Nil [simp]: "add_if failed rule msg vs = [] \<longleftrightarrow> \<not> failed \<and> vs = []"
  by (simp add: add_if_def)

lemma rules_add_if [simp]:
  "map Violation_Rule (add_if failed rule msg vs) = map Violation_Rule vs @ (if failed then [rule] else [])"
  by (simp add: add_if_def)

datatype rune_class = Upper | Lower | Digit | Special | Unclassified

definition class_of :: "unicode \<Rightarrow> nat \<Rightarrow> rune_class" where
  "class_of env r =
     (if IsUpper env r then Upper else if IsLower env r then Lower else if IsDigit env r then Digit
      else if IsPunctOrSymbol env r then Special else Unclassified)"

lemma add_class_spec:
  "hasUpper (add_class env r c) \<longleftrightarrow> hasUpper c \<or> class_of env r = Upper"
  "hasLower (add_class env r c) \<longleftrightarrow> hasLower c \<or> class_of env r = Lower"
  "hasDigit (add_class env r c) \<longleftrightarrow> hasDigit c \<or> class_of env r = Digit"
  "hasSpecial (add_class env r c) \<longleftrightarrow> hasSpecial c \<or> class_of env r = Special"
  by (cases "IsUpper env r"; cases "IsLower env r"; cases "IsDigit env r"; cases "IsPunctOrSymbol env r";
      simp add: add_class_def class_of_def)+

lemma scan_spec:
  "hasUpper (scan env rs c) \<longleftrightarrow> hasUpper c \<or> (\<exists>r \<in> set rs. class_of env r = Upper)"
  "hasLower (scan env rs c) \<longleftrightarrow> hasLower c \<or> (\<exists>r \<in> set rs. class_of env r = Lower)"
  "hasDigit (scan env rs c) \<longleftrightarrow> hasDigit c \<or> (\<exists>r \<in> set rs. class_of env r = Digit)"
  "hasSpecial (scan env rs c) \<longleftrightarrow> hasSpecial c \<or> (\<exists>r \<in> set rs. class_of env r = Special)"
  by (induction rs arbitrary: c) (auto simp: add_class_spec)

text \<open>What a policy asks for, rule by rule.\<close>

definition has_class :: "unicode \<Rightarrow> rune_class \<Rightarrow> string \<Rightarrow> bool" where
  "has_class env cls password \<longleftrightarrow> (\<exists>r \<in> set (runes_of password). class_of env r = cls)"

definition password_entropy :: "unicode \<Rightarrow> string \<Rightarrow> rat" where
  "password_entropy env password =
     estimateEntropy env (runes_of password) (scan env (runes_of password) no_classes)"

definition failed_rules :: "unicode \<Rightarrow> passwd_Policy \<Rightarrow> string \<Rightarrow> (bool \<times> string) list" where
  "failed_rules env p password =
     [(int (length (runes_of password)) < (if MinLength p = 0 then 8 else MinLength p), ''min_length''),
      (0 < MaxLength p \<and> MaxLength p < int (length (runes_of password)), ''max_length''),
      (RequireUpper p \<and> \<not> has_class env Upper password, ''require_upper''),
      (RequireLower p \<and> \<not> has_class env Lower password, ''require_lower''),
      (RequireDigit p \<and> \<not> has_class env Digit password, ''require_digit''),
      (RequireSpecial p \<and> \<not> has_class env Special password, ''require_special''),
      (0 < MinEntropy p \<and> password_entropy env password < MinEntropy p, ''min_entropy''),
      (DisallowCommon p \<and> ToLower (uni_ToLower env) password \<in> set commonPasswords, ''common_password''),
      (\<exists>b \<in> set (Blocklist p). EqualFold (uni_EqualFold env) password b, ''blocklist'')]"

lemma blocked_iff: "blocked env password bs \<longleftrightarrow> (\<exists>b \<in> set bs. EqualFold (uni_EqualFold env) password b)"
  by (induction bs) auto

lemma scan_no_classes:
  "hasUpper (scan env (runes_of password) no_classes) = has_class env Upper password"
  "hasLower (scan env (runes_of password) no_classes) = has_class env Lower password"
  "hasDigit (scan env (runes_of password) no_classes) = has_class env Digit password"
  "hasSpecial (scan env (runes_of password) no_classes) = has_class env Special password"
  by (simp_all add: scan_spec has_class_def no_classes_def)

lemma applyDefaults_simps:
  "MinLength (applyDefaults p) = (if MinLength p = 0 then 8 else MinLength p)"
  "MaxLength (applyDefaults p) = MaxLength p" "RequireUpper (applyDefaults p) = RequireUpper p"
  "RequireLower (applyDefaults p) = RequireLower p" "RequireDigit (applyDefaults p) = RequireDigit p"
  "RequireSpecial (applyDefaults p) = RequireSpecial p" "MinEntropy (applyDefaults p) = MinEntropy p"
  "DisallowCommon (applyDefaults p) = DisallowCommon p" "Blocklist (applyDefaults p) = Blocklist p"
  by (simp_all add: applyDefaults_def)

lemma failed_Nil: "map snd (filter fst []) = []"
  by simp

lemma failed_Cons: "map snd (filter fst ((b, x) # xs)) = (if b then [x] else []) @ map snd (filter fst xs)"
  by simp

lemma Validate_rules:
  "map Violation_Rule (Validate env p password) = map snd (filter fst (failed_rules env p password))"
  unfolding Validate_def Let_def rules_add_if applyDefaults_simps scan_no_classes blocked_iff
    password_entropy_def[symmetric] failed_rules_def
  by (simp only: failed_Cons failed_Nil append_Nil append_Nil2 append_assoc list.map)

lemma IsValid_iff: "IsValid env p password \<longleftrightarrow> list_all (\<lambda>x. \<not> fst x) (failed_rules env p password)"
proof -
  have "IsValid env p password \<longleftrightarrow> map Violation_Rule (Validate env p password) = []"
    by (simp add: IsValid_def)
  then show ?thesis by (simp add: Validate_rules filter_empty_conv list_all_iff)
qed

lemma strength_of_entropy_mono: "x \<le> y \<Longrightarrow> strength_of_entropy x \<le> strength_of_entropy y"
  by (auto simp: strength_of_entropy_def less_eq_Strength_def)


text \<open>Appending to an ASCII string appends the runes.\<close>

lemma runes_ascii_append: "list_all (\<lambda>b. b < 128) bs \<Longrightarrow> runes (bs @ cs) = bs @ runes cs"
proof (induction bs)
  case (Cons b bs)
  then have "decode_rune (b # bs @ cs) = (b, 1)"
    by (simp add: decode_rune_def Let_def)
  with Cons show ?case by (subst runes.simps) simp
qed simp

lemma runes_of_append: "list_all ascii s \<Longrightarrow> runes_of (s @ t) = runes_of s @ runes_of t"
proof -
  assume "list_all ascii s"
  then have "list_all (\<lambda>b. b < 128) (map of_char s :: nat list)"
    by (auto simp: list_all_iff ascii_def)
  from runes_ascii_append[OF this, of "map of_char t"] runes_ascii_append[OF this, of "[]"] show ?thesis
    by (simp add: runes_of_def runes.simps[of "[]"])
qed

lemma scan_append: "scan env (xs @ ys) c = scan env ys (scan env xs c)"
  by (induction xs arbitrary: c) simp_all

declare scan.simps [simp del]

lemma pool_mono: "pool c \<le> pool (scan env rs c)"
  by (simp add: pool_def scan_spec)

definition log2_monotone :: "unicode \<Rightarrow> bool" where
  "log2_monotone env \<longleftrightarrow> (\<forall>m n. 1 \<le> m \<longrightarrow> m \<le> n \<longrightarrow> 0 \<le> math_Log2 env m \<and> math_Log2 env m \<le> math_Log2 env n)"

lemma estimateEntropy_mono:
  assumes "log2_monotone env"
  shows "estimateEntropy env xs c \<le> estimateEntropy env (xs @ ys) (scan env ys c)"
proof (cases "pool c = 0")
  case False
  let ?p = "pool (scan env ys c)"
  have p: "1 \<le> pool c" "pool c \<le> ?p" using False pool_mono[of c env ys] by auto
  then have l: "0 \<le> math_Log2 env (pool c)" "math_Log2 env (pool c) \<le> math_Log2 env ?p"
    using assms unfolding log2_monotone_def by blast+
  have n: "0 \<le> fl (of_nat (length xs))" "fl (of_nat (length xs)) \<le> fl (of_nat (length (xs @ ys)))"
    using fl_mono[of 0 "of_nat (length xs)"] fl_mono[of "of_nat (length xs)" "of_nat (length (xs @ ys))"] by simp_all
  have "fl (of_nat (length xs)) * math_Log2 env (pool c) \<le> fl (of_nat (length (xs @ ys))) * math_Log2 env ?p"
    by (rule mult_mono) (use l n in auto)
  from fl_mono[OF this] p show ?thesis by (simp add: estimateEntropy_def)
next
  case True
  show ?thesis
  proof (cases "pool (scan env ys c) = 0")
    case False
    then have "0 \<le> math_Log2 env (pool (scan env ys c))"
      using assms unfolding log2_monotone_def by (metis One_nat_def Suc_leI gr0I order_refl)
    then have "0 \<le> fl (of_nat (length (xs @ ys))) * math_Log2 env (pool (scan env ys c))"
      using fl_mono[of 0 "of_nat (length (xs @ ys))"] by simp
    from fl_mono[OF this] True False show ?thesis by (simp add: estimateEntropy_def)
  qed (use True in \<open>simp add: estimateEntropy_def\<close>)
qed

section \<open>Properties\<close>


lemma OWASP_strength: "IsValid env OWASP password \<Longrightarrow> StrengthWeak \<le> EstimateStrength env password"
  by (auto simp: IsValid_iff failed_rules_def OWASP_def EstimateStrength_def password_entropy_def
      strength_of_entropy_def less_eq_Strength_def Let_def)

lemma Strict_strength: "IsValid env passwd_Strict password \<Longrightarrow> StrengthStrong \<le> EstimateStrength env password"
  by (auto simp: IsValid_iff failed_rules_def passwd_Strict_def EstimateStrength_def password_entropy_def
      strength_of_entropy_def less_eq_Strength_def Let_def)

lemma Strict_OWASP: "IsValid env passwd_Strict password \<Longrightarrow> IsValid env OWASP password"
  by (auto simp: IsValid_iff failed_rules_def passwd_Strict_def OWASP_def)

text \<open>
  The presets are ordered and agree with the strength meter. A password that satisfies
  \<open>Strict\<close> satisfies \<open>OWASP\<close> and is rated strong at least; one that satisfies \<open>OWASP\<close> is not
  rated very weak.
\<close>

theorem Strict_is_stronger_than_OWASP:
  assumes "IsValid env passwd_Strict password"
  shows "IsValid env OWASP password \<and> StrengthStrong \<le> EstimateStrength env password"
  using Strict_OWASP[OF assms] Strict_strength[OF assms] by simp

text \<open>An environment in which nothing beyond ASCII has a class and every pool counts six bits.\<close>

definition plain_env :: unicode where
  "plain_env = \<lparr>uni_IsUpper = (\<lambda>_. False), uni_IsLower = (\<lambda>_. False), uni_IsDigit = (\<lambda>_. False),
     uni_IsPunct = (\<lambda>_. False), uni_IsSymbol = (\<lambda>_. False), uni_ToLower = id, uni_EqualFold = (=),
     math_Log2 = (\<lambda>_. 6), fmt_0f = (\<lambda>_. '''')\<rparr>"

lemma sample_runes: "runes_of ''Tr0ub4dor&3xy'' = [84, 114, 48, 117, 98, 52, 100, 111, 114, 38, 51, 120, 121]"
  by code_simp

lemma sample_classes:
  "has_class env Upper ''Tr0ub4dor&3xy''" "has_class env Lower ''Tr0ub4dor&3xy''"
  "has_class env Digit ''Tr0ub4dor&3xy''" "has_class env Special ''Tr0ub4dor&3xy''"
  by (simp_all add: has_class_def sample_runes class_of_def IsUpper_def IsLower_def IsDigit_def IsPunctOrSymbol_def)

lemma Strict_is_stronger_than_OWASP_witness:
  "IsValid plain_env passwd_Strict ''Tr0ub4dor&3xy'' \<and> IsValid plain_env OWASP ''Tr0ub4dor&3xy'' \<and>
   StrengthStrong \<le> EstimateStrength plain_env ''Tr0ub4dor&3xy''"
proof -
  let ?pw = "''Tr0ub4dor&3xy''"
  have "pool (scan plain_env (runes_of ?pw) no_classes) = 94"
    by (simp add: pool_def scan_no_classes sample_classes)
  moreover have "math_Log2 plain_env 94 = 6" by (simp add: plain_env_def)
  moreover have "length (runes_of ?pw) = 13" by (simp add: sample_runes)
  ultimately have e: "password_entropy plain_env ?pw = 78"
    using fl_int[of 13] fl_int[of 78] by (simp add: password_entropy_def estimateEntropy_def)
  have "ToLower (uni_ToLower plain_env) ?pw \<notin> set commonPasswords" by code_simp
  then have v: "IsValid plain_env passwd_Strict ?pw"
    unfolding IsValid_iff failed_rules_def e by (simp add: passwd_Strict_def sample_classes sample_runes)
  with Strict_is_stronger_than_OWASP[OF v] show ?thesis by simp
qed

text \<open>
  A longer password is never rated lower. Appending anything to an ASCII password keeps or
  raises its strength, provided the logarithm is not negative and monotone on the pool sizes.
\<close>

theorem longer_password_is_not_weaker:
  assumes "list_all ascii password" and "log2_monotone env"
  shows "EstimateStrength env password \<le> EstimateStrength env (password @ extra)"
  using estimateEntropy_mono[OF assms(2), of "runes_of password" "scan env (runes_of password) no_classes" "runes_of extra"]
  by (simp add: EstimateStrength_def runes_of_append[OF assms(1)] scan_append strength_of_entropy_mono Let_def)

lemma longer_password_is_not_weaker_witness:
  "EstimateStrength plain_env ''abc'' \<le> EstimateStrength plain_env (''abc'' @ ''DEF1'')"
proof (rule longer_password_is_not_weaker)
  show "list_all ascii ''abc''" by code_simp
  show "log2_monotone plain_env" by (simp add: log2_monotone_def plain_env_def)
qed

end
