(* ===== verification/Base64.thy ===== *)
theory Base64
  imports Http
begin

text \<open>
  The part of \<open>encoding/base64\<close> and \<open>strings.Split\<close> that the packages \<open>crypto\<close> and
  \<open>auth/jwks\<close> use: the two encodings without padding, given by their alphabets. As in Go,
  the decoder skips line ends anywhere and does not check that the unused low bits of a last
  incomplete group are zero. A locale holds what is proved for any alphabet; it is interpreted on
  both.
\<close>

section \<open>Encoding and decoding\<close>

definition base64_std :: string where
  "base64_std = ''ABCDEFGHIJKLMNOPQRSTUVWXYZabcdefghijklmnopqrstuvwxyz0123456789+/''"

definition base64_url :: string where
  "base64_url = ''ABCDEFGHIJKLMNOPQRSTUVWXYZabcdefghijklmnopqrstuvwxyz0123456789-_''"

text \<open>The six-bit groups of three bytes; the rest of an incomplete group is dropped.\<close>

fun b64_groups :: "nat list \<Rightarrow> nat list" where
  "b64_groups [] = []"
| "b64_groups [a] = [a div 4, (a mod 4) * 16]"
| "b64_groups [a, b] = [a div 4, (a mod 4) * 16 + b div 16, (b mod 16) * 4]"
| "b64_groups (a # b # c # rs) =
     [a div 4, (a mod 4) * 16 + b div 16, (b mod 16) * 4 + c div 64, c mod 64] @ b64_groups rs"

definition RawEncodeToString :: "string \<Rightarrow> string \<Rightarrow> string" where
  "RawEncodeToString alphabet s = map ((!) alphabet) (b64_groups (map of_char s))"

text \<open>A group of one character is corrupt input.\<close>

fun b64_bytes :: "nat list \<Rightarrow> nat list option" where
  "b64_bytes [] = Some []"
| "b64_bytes [p] = None"
| "b64_bytes [p, q] = Some [p * 4 + q div 16]"
| "b64_bytes [p, q, r] = Some [p * 4 + q div 16, (q mod 16) * 16 + r div 4]"
| "b64_bytes (p # q # r # s # rs) =
     map_option ((@) [p * 4 + q div 16, (q mod 16) * 16 + r div 4, (r mod 4) * 64 + s]) (b64_bytes rs)"

fun b64_values :: "string \<Rightarrow> string \<Rightarrow> nat list option" where
  "b64_values alphabet [] = Some []"
| "b64_values alphabet (c # cs) =
     (if c = CHR 0x0D \<or> c = CHR 0x0A then b64_values alphabet cs
      else case index_of c alphabet of
             None \<Rightarrow> None
           | Some v \<Rightarrow> map_option ((#) v) (b64_values alphabet cs))"

definition RawDecodeString :: "string \<Rightarrow> string \<Rightarrow> string option" where
  "RawDecodeString alphabet s =
     (case b64_values alphabet s of
        None \<Rightarrow> None
      | Some vs \<Rightarrow> map_option (map char_of) (b64_bytes vs))"

section \<open>Splitting at a character\<close>

fun Split :: "char \<Rightarrow> string \<Rightarrow> string list" where
  "Split sep [] = [[]]"
| "Split sep (c # cs) =
     (if c = sep then [] # Split sep cs
      else case Split sep cs of
             [] \<Rightarrow> [[c]]
           | p # ps \<Rightarrow> (c # p) # ps)"

lemma Split_not_Nil [simp]: "Split sep s \<noteq> []"
  by (cases s) (auto split: list.splits)

lemma Split_last: "sep \<notin> set s \<Longrightarrow> Split sep s = [s]"
  by (induction s) auto

lemma Split_append: "sep \<notin> set s \<Longrightarrow> Split sep (s @ sep # t) = s # Split sep t"
  by (induction s) auto

section \<open>Round trip\<close>

lemma b64_groups_range: "list_all (\<lambda>b. b < 256) bs \<Longrightarrow> list_all (\<lambda>v. v < 64) (b64_groups bs)"
proof (induction bs rule: b64_groups.induct)
  case (2 a)
  then show ?case using mod_less_divisor[of 4 a] by (simp add: less_mult_imp_div_less; linarith)
next
  case (3 a b)
  then have "a div 4 < 64" "b div 16 < 16" by (simp_all add: less_mult_imp_div_less)
  then show ?case using mod_less_divisor[of 4 a] mod_less_divisor[of 16 b] by (simp; linarith)
next
  case (4 a b c rs)
  then have "a div 4 < 64" "b div 16 < 16" "c div 64 < 4" by (simp_all add: less_mult_imp_div_less)
  then show ?case using 4 mod_less_divisor[of 4 a] mod_less_divisor[of 16 b] mod_less_divisor[of 64 c]
    by (simp; linarith)
qed simp

lemma b64_bytes_groups: "list_all (\<lambda>b. b < 256) bs \<Longrightarrow> b64_bytes (b64_groups bs) = Some bs"
proof (induction bs rule: b64_groups.induct)
  case (2 a)
  then show ?case by simp
next
  case (3 a b)
  then have "b div 16 < 16" by (simp add: less_mult_imp_div_less)
  then show ?case by simp
next
  case (4 a b c rs)
  then have "b div 16 < 16" "c div 64 < 4" by (simp_all add: less_mult_imp_div_less)
  with 4 show ?case by simp
qed simp

lemma length_b64_groups: "length (b64_groups bs) = (4 * length bs + 2) div 3"
  by (induction bs rule: b64_groups.induct) simp_all

lemma length_RawEncodeToString: "length (RawEncodeToString alphabet s) = (4 * length s + 2) div 3"
  by (simp add: RawEncodeToString_def length_b64_groups)

lemma index_of_nth: "distinct xs \<Longrightarrow> i < length xs \<Longrightarrow> index_of (xs ! i) xs = Some i"
proof (induction xs arbitrary: i)
  case (Cons x xs)
  then show ?case by (cases i) auto
qed simp

lemma index_of_bound: "index_of c xs = Some i \<Longrightarrow> i < length xs"
  by (induction xs arbitrary: i) (auto split: if_splits)

locale base64_alphabet =
  fixes alphabet :: string
  assumes alphabet_size: "length alphabet = 64"
    and alphabet_distinct: "distinct alphabet"
    and no_line_ends: "CHR 0x0D \<notin> set alphabet" "CHR 0x0A \<notin> set alphabet"
begin

lemma digit_in: "v < 64 \<Longrightarrow> alphabet ! v \<in> set alphabet"
  using alphabet_size by (metis nth_mem)

lemma values_digits: "list_all (\<lambda>v. v < 64) vs \<Longrightarrow> b64_values alphabet (map ((!) alphabet) vs) = Some vs"
proof (induction vs)
  case (Cons v vs)
  then have "alphabet ! v \<in> set alphabet" "index_of (alphabet ! v) alphabet = Some v"
    using digit_in index_of_nth[OF alphabet_distinct] alphabet_size by simp_all
  with no_line_ends have "alphabet ! v \<noteq> CHR 0x0D" "alphabet ! v \<noteq> CHR 0x0A"
    "index_of (alphabet ! v) alphabet = Some v" by metis+
  with Cons show ?case by simp
qed simp

lemma bytes_of_string: "list_all (\<lambda>b. b < 256) (map of_char s :: nat list)"
  by (simp add: list_all_iff)

lemma decode_encode: "RawDecodeString alphabet (RawEncodeToString alphabet s) = Some s"
  using b64_bytes_groups[OF bytes_of_string] values_digits[OF b64_groups_range[OF bytes_of_string]]
  by (simp add: RawDecodeString_def RawEncodeToString_def comp_def)

lemma encode_inj: "RawEncodeToString alphabet s = RawEncodeToString alphabet t \<Longrightarrow> s = t"
  using decode_encode by (metis option.inject)

lemma set_encode: "set (RawEncodeToString alphabet s) \<subseteq> set alphabet"
  using b64_groups_range[OF bytes_of_string, of s] digit_in by (auto simp: RawEncodeToString_def list_all_iff)

end

lemma base64_std_facts:
  "length base64_std = 64" "distinct base64_std" "CHR 0x0D \<notin> set base64_std" "CHR 0x0A \<notin> set base64_std"
  "CHR ''$'' \<notin> set base64_std"
  by code_simp+

lemma base64_url_facts:
  "length base64_url = 64" "distinct base64_url" "CHR 0x0D \<notin> set base64_url" "CHR 0x0A \<notin> set base64_url"
  by code_simp+

interpretation b64std: base64_alphabet base64_std
  by unfold_locales (fact base64_std_facts)+

interpretation b64url: base64_alphabet base64_url
  by unfold_locales (fact base64_url_facts)+

end
