(* ===== verification/Jwks.thy ===== *)
theory Jwks
  imports Base64
begin

text \<open>
  The package \<open>auth/jwks\<close>: a source of public keys that fetches a JSON Web Key Set over HTTP,
  caches it, and is asked by the JWT service for the key of a token. An HTTP client is a function
  of the time of the request and the URL, so that the endpoint may change its answer; the JSON
  decoder is the parameter \<open>json\<close> and the client made by default \<open>http_Client\<close>. Every reading of
  the clock is an argument. The key map has no order: the argument \<open>ord\<close> lists key identifiers in
  the order in which a range over the map would meet them.
\<close>

section \<open>Keys\<close>

datatype public_key = RSA_PublicKey nat int64 | ECDSA_PublicKey curve nat nat

datatype jwks_error =
    ErrKIDNotFound string
  | ErrUnsupportedKeyType
  | ErrRefusingToRefresh duration duration
  | ErrFetchFailed string
  | ErrServerReturned int string
  | ErrDecodeResponse string
  | ErrInvalidComponent string
  | ErrUnsupportedCurve string

record rawJWK =
  Kty :: string
  Kid :: string
  Use :: string
  JWK_Alg :: string
  JWK_N :: string
  JWK_E :: string
  Crv :: string
  JWK_X :: string
  JWK_Y :: string

text \<open>\<open>big.Int.SetBytes\<close>: big-endian. \<open>Int64\<close> keeps the low 64 bits.\<close>

definition SetBytes :: "string \<Rightarrow> nat" where
  "SetBytes s = foldl (\<lambda>n c. 256 * n + of_char c) 0 s"

definition toRSA :: "rawJWK \<Rightarrow> jwks_error + public_key" where
  "toRSA r =
     (case RawDecodeString base64_url (JWK_N r) of
        None \<Rightarrow> Inl (ErrInvalidComponent ''RSA modulus'')
      | Some nBytes \<Rightarrow>
          (case RawDecodeString base64_url (JWK_E r) of
             None \<Rightarrow> Inl (ErrInvalidComponent ''RSA exponent'')
           | Some eBytes \<Rightarrow> Inr (RSA_PublicKey (SetBytes nBytes) (wrap64 (int (SetBytes eBytes))))))"

definition jwk_curve :: "string \<Rightarrow> curve option" where
  "jwk_curve crv =
     (if crv = ''P-256'' then Some P256
      else if crv = ''P-384'' then Some P384
      else if crv = ''P-521'' then Some P521
      else None)"

definition toECDSA :: "rawJWK \<Rightarrow> jwks_error + public_key" where
  "toECDSA r =
     (case jwk_curve (Crv r) of
        None \<Rightarrow> Inl (ErrUnsupportedCurve (Crv r))
      | Some curve \<Rightarrow>
          (case RawDecodeString base64_url (JWK_X r) of
             None \<Rightarrow> Inl (ErrInvalidComponent ''EC x'')
           | Some xBytes \<Rightarrow>
               (case RawDecodeString base64_url (JWK_Y r) of
                  None \<Rightarrow> Inl (ErrInvalidComponent ''EC y'')
                | Some yBytes \<Rightarrow> Inr (ECDSA_PublicKey curve (SetBytes xBytes) (SetBytes yBytes)))))"

definition toPublicKey :: "rawJWK \<Rightarrow> jwks_error + public_key" where
  "toPublicKey r =
     (if Kty r = ''RSA'' then toRSA r
      else if Kty r = ''EC'' then toECDSA r
      else Inl ErrUnsupportedKeyType)"

section \<open>The source and its options\<close>

type_synonym key_map = "string \<rightharpoonup> public_key"
type_synonym http_client = "time \<Rightarrow> string \<Rightarrow> string + int \<times> string"
type_synonym json_decoder = "string \<Rightarrow> string + rawJWK list"

record Source =
  src_url :: string
  src_keys :: key_map
  fetchAt :: time
  cacheTTL :: duration
  minRefreshDelay :: duration
  lastRefreshAt :: time
  httpClient :: http_client

definition defaultCacheTTL :: duration where "defaultCacheTTL = 15 * Minute"
definition defaultMinRefreshDelay :: duration where "defaultMinRefreshDelay = 30 * Second"
definition defaultHTTPTimeout :: duration where "defaultHTTPTimeout = 10 * Second"

type_synonym jwks_Option = "Source \<Rightarrow> Source"

definition WithCacheTTL :: "duration \<Rightarrow> jwks_Option" where
  "WithCacheTTL d s = s\<lparr>cacheTTL := d\<rparr>"

definition WithHTTPClient :: "http_client \<Rightarrow> jwks_Option" where
  "WithHTTPClient c s = s\<lparr>httpClient := c\<rparr>"

definition WithMinRefreshDelay :: "duration \<Rightarrow> jwks_Option" where
  "WithMinRefreshDelay d s = s\<lparr>minRefreshDelay := d\<rparr>"

definition NewSource :: "(duration \<Rightarrow> http_client) \<Rightarrow> string \<Rightarrow> jwks_Option list \<Rightarrow> Source" where
  "NewSource http_Client jwksURL opts =
     fold (\<lambda>o' s. o' s) opts
       \<lparr>src_url = jwksURL, src_keys = Map.empty, fetchAt = zero_time, cacheTTL = defaultCacheTTL,
        minRefreshDelay = defaultMinRefreshDelay, lastRefreshAt = zero_time,
        httpClient = http_Client defaultHTTPTimeout\<rparr>"

definition TrimRight :: "string \<Rightarrow> char \<Rightarrow> string" where
  "TrimRight s c = rev (dropWhile (\<lambda>x. x = c) (rev s))"

definition Auth0 :: "(duration \<Rightarrow> http_client) \<Rightarrow> string \<Rightarrow> jwks_Option list \<Rightarrow> Source" where
  "Auth0 http_Client domain opts =
     (let domain = TrimPrefix domain ''https://'';
          domain = TrimPrefix domain ''http://'';
          domain = TrimRight domain (CHR ''/'')
      in NewSource http_Client (''https://'' @ domain @ ''/.well-known/jwks.json'') opts)"

section \<open>Fetching\<close>

fun collect_keys :: "rawJWK list \<Rightarrow> key_map \<Rightarrow> key_map" where
  "collect_keys [] newKeys = newKeys"
| "collect_keys (raw # raws) newKeys =
     (if Use raw \<noteq> '''' \<and> Use raw \<noteq> ''sig'' then collect_keys raws newKeys
      else case toPublicKey raw of
             Inl err \<Rightarrow> collect_keys raws newKeys
           | Inr key \<Rightarrow> collect_keys raws (newKeys(Kid raw \<mapsto> key)))"

text \<open>The part of \<open>fetch\<close> before the lock: the request at time \<open>t\<close>, and the new map.\<close>

definition download :: "json_decoder \<Rightarrow> Source \<Rightarrow> time \<Rightarrow> jwks_error + key_map" where
  "download json s t =
     (case httpClient s t (src_url s) of
        Inl err \<Rightarrow> Inl (ErrFetchFailed err)
      | Inr (status, body) \<Rightarrow>
          if status \<noteq> 200 then Inl (ErrServerReturned status (src_url s))
          else (case json body of
                  Inl err \<Rightarrow> Inl (ErrDecodeResponse err)
                | Inr raws \<Rightarrow> Inr (collect_keys raws Map.empty)))"

text \<open>The part under the lock, with its two readings of the clock.\<close>

definition store_keys :: "key_map \<Rightarrow> time \<Rightarrow> time \<Rightarrow> Source \<Rightarrow> Source" where
  "store_keys newKeys now now' s = s\<lparr>src_keys := newKeys, fetchAt := now, lastRefreshAt := now'\<rparr>"

text \<open>
  The readings of the clock in one call of \<open>KeyFunc\<close>, by the order of the code: the first look into
  the cache, the guard, the request, the two time stamps, the second look.
\<close>

record clock =
  at_lookup :: time
  at_guard :: time
  at_request :: time
  at_fetched :: time
  at_refreshed :: time
  at_retry :: time

definition fetch :: "json_decoder \<Rightarrow> clock \<Rightarrow> Source \<Rightarrow> Source \<times> jwks_error option" where
  "fetch json clk s =
     (case download json s (at_request clk) of
        Inl err \<Rightarrow> (s, Some err)
      | Inr newKeys \<Rightarrow> (store_keys newKeys (at_fetched clk) (at_refreshed clk) s, None))"

definition Preload :: "json_decoder \<Rightarrow> clock \<Rightarrow> Source \<Rightarrow> Source \<times> jwks_error option" where
  "Preload json clk s = fetch json clk s"

section \<open>Looking up\<close>

definition cachedKey :: "Source \<Rightarrow> time \<Rightarrow> string list \<Rightarrow> string \<Rightarrow> public_key option" where
  "cachedKey s now ord kid =
     (if cacheTTL s < time_Sub now (fetchAt s) then None
      else if kid = '''' then
        (case find (\<lambda>k. src_keys s k \<noteq> None) ord of None \<Rightarrow> None | Some k \<Rightarrow> src_keys s k)
      else src_keys s kid)"

definition refresh_allowed :: "Source \<Rightarrow> time \<Rightarrow> jwks_error option" where
  "refresh_allowed s now =
     (let since = time_Sub now (lastRefreshAt s) in
      if since < minRefreshDelay s then Some (ErrRefusingToRefresh since (minRefreshDelay s)) else None)"

definition refreshIfAllowed :: "json_decoder \<Rightarrow> clock \<Rightarrow> Source \<Rightarrow> Source \<times> jwks_error option" where
  "refreshIfAllowed json clk s =
     (case refresh_allowed s (at_guard clk) of
        Some err \<Rightarrow> (s, Some err)
      | None \<Rightarrow> fetch json clk s)"

definition token_kid :: "Token \<Rightarrow> string" where
  "token_kid t = string_or_empty (attr (Token_Header t) ''kid'')"

text \<open>\<open>ord\<close> and \<open>ord'\<close> are the iteration orders of the two looks into the cache.\<close>

definition lookup_key ::
  "json_decoder \<Rightarrow> clock \<Rightarrow> string list \<Rightarrow> string list \<Rightarrow> string \<Rightarrow> Source \<Rightarrow> Source \<times> (jwks_error + public_key)" where
  "lookup_key json clk ord ord' kid s =
     (case cachedKey s (at_lookup clk) ord kid of
        Some key \<Rightarrow> (s, Inr key)
      | None \<Rightarrow>
          (case refreshIfAllowed json clk s of
             (s', Some err) \<Rightarrow> (s', Inl err)
           | (s', None) \<Rightarrow>
               (case cachedKey s' (at_retry clk) ord' kid of
                  Some key \<Rightarrow> (s', Inr key)
                | None \<Rightarrow> (s', Inl (ErrKIDNotFound kid)))))"

definition KeyFunc ::
  "json_decoder \<Rightarrow> clock \<Rightarrow> string list \<Rightarrow> string list \<Rightarrow> Token \<Rightarrow> Source \<Rightarrow> Source \<times> (jwks_error + public_key)" where
  "KeyFunc json clk ord ord' token s = lookup_key json clk ord ord' (token_kid token) s"

section \<open>Concurrent calls\<close>

text \<open>
  \<open>KeyFunc\<close> and \<open>Preload\<close> hold the mutex only while they look up, read \<open>lastRefreshAt\<close>, or store;
  calls of several goroutines interleave between these points. A call is in one of the following
  phases; \<open>None\<close> stands for a call of \<open>Preload\<close>. One atomic step happens at time \<open>now\<close>; \<open>now'\<close> is the
  second time stamp of a store.
\<close>

datatype phase =
    Lookup string
  | Guard string
  | Request "string option"
  | Store "string option" key_map
  | Retry string
  | Finished "jwks_error + public_key"
  | Preloaded "jwks_error option"

fun phase_step :: "json_decoder \<Rightarrow> time \<Rightarrow> time \<Rightarrow> string list \<Rightarrow> Source \<Rightarrow> phase \<Rightarrow> Source \<times> phase" where
  "phase_step json now now' ord s (Lookup kid) =
     (s, case cachedKey s now ord kid of Some key \<Rightarrow> Finished (Inr key) | None \<Rightarrow> Guard kid)"
| "phase_step json now now' ord s (Guard kid) =
     (s, case refresh_allowed s now of Some err \<Rightarrow> Finished (Inl err) | None \<Rightarrow> Request (Some kid))"
| "phase_step json now now' ord s (Request c) =
     (s, case download json s now of
           Inr newKeys \<Rightarrow> Store c newKeys
         | Inl err \<Rightarrow> (case c of Some kid \<Rightarrow> Finished (Inl err) | None \<Rightarrow> Preloaded (Some err)))"
| "phase_step json now now' ord s (Store c newKeys) =
     (store_keys newKeys now now' s, case c of Some kid \<Rightarrow> Retry kid | None \<Rightarrow> Preloaded None)"
| "phase_step json now now' ord s (Retry kid) =
     (s, case cachedKey s now ord kid of
           Some key \<Rightarrow> Finished (Inr key) | None \<Rightarrow> Finished (Inl (ErrKIDNotFound kid)))"
| "phase_step json now now' ord s (Finished r) = (s, Finished r)"
| "phase_step json now now' ord s (Preloaded r) = (s, Preloaded r)"

fun returned :: "phase \<Rightarrow> bool" where
  "returned (Finished r) = True"
| "returned (Preloaded r) = True"
| "returned _ = False"

text \<open>The shared source, the current time and the calls under way.\<close>

record jwks_config =
  shared :: Source
  now_at :: time
  calls :: "phase list"

inductive jwks_step :: "json_decoder \<Rightarrow> jwks_config \<Rightarrow> jwks_config \<Rightarrow> bool" for json where
  jwks_stepI:
    "i < length (calls c) \<Longrightarrow> \<not> returned (calls c ! i) \<Longrightarrow> now_at c \<le> now \<Longrightarrow> now \<le> now' \<Longrightarrow>
     phase_step json now now' ord (shared c) (calls c ! i) = (s', p') \<Longrightarrow>
     jwks_step json c \<lparr>shared = s', now_at = now', calls = (calls c)[i := p']\<rparr>"

inductive_cases jwks_stepE: "jwks_step json c c'"

inductive jwks_steps :: "json_decoder \<Rightarrow> nat \<Rightarrow> jwks_config \<Rightarrow> jwks_config \<Rightarrow> bool" for json where
  jwks_steps_0: "jwks_steps json 0 c c"
| jwks_steps_Suc: "jwks_steps json n c c' \<Longrightarrow> jwks_step json c' c'' \<Longrightarrow> jwks_steps json (Suc n) c c''"

section \<open>Lemmas\<close>

lemma store_keys_simps [simp]:
  "src_url (store_keys m t t' s) = src_url s" "httpClient (store_keys m t t' s) = httpClient s"
  "cacheTTL (store_keys m t t' s) = cacheTTL s" "minRefreshDelay (store_keys m t t' s) = minRefreshDelay s"
  "src_keys (store_keys m t t' s) = m" "fetchAt (store_keys m t t' s) = t" "lastRefreshAt (store_keys m t t' s) = t'"
  by (simp_all add: store_keys_def)

lemma cachedKey_in_map: "cachedKey s now ord kid = Some key \<Longrightarrow> key \<in> ran (src_keys s)"
  by (auto simp: cachedKey_def ran_def split: if_splits option.splits)

lemma download_cong:
  "httpClient s' = httpClient s \<Longrightarrow> src_url s' = src_url s \<Longrightarrow> download json s' = download json s"
  by (rule ext) (simp add: download_def split: sum.split)

lemma download_store_keys [simp]: "download json (store_keys m t t' s) = download json s"
  by (rule download_cong) simp_all

text \<open>The map \<open>m\<close> was published by the endpoint of \<open>s\<close> at some time up to \<open>t\<close>.\<close>

definition published :: "json_decoder \<Rightarrow> Source \<Rightarrow> time \<Rightarrow> key_map \<Rightarrow> bool" where
  "published json s t m \<longleftrightarrow> (\<exists>t' \<le> t. download json s t' = Inr m)"

lemma published_mono: "published json s t m \<Longrightarrow> t \<le> u \<Longrightarrow> published json s u m"
  by (auto simp: published_def intro: order_trans)

lemma published_store_keys [simp]: "published json (store_keys m t t' s) = published json s"
  by (simp add: published_def fun_eq_iff)

fun phase_ok :: "json_decoder \<Rightarrow> Source \<Rightarrow> time \<Rightarrow> phase \<Rightarrow> bool" where
  "phase_ok json s t (Store c m) = published json s t m"
| "phase_ok json s t (Finished (Inr key)) = (\<exists>m. published json s t m \<and> key \<in> ran m)"
| "phase_ok json s t _ = True"

definition jwks_inv :: "json_decoder \<Rightarrow> jwks_config \<Rightarrow> bool" where
  "jwks_inv json c \<longleftrightarrow>
     (src_keys (shared c) = Map.empty \<or> published json (shared c) (now_at c) (src_keys (shared c))) \<and>
     (\<forall>p \<in> set (calls c). phase_ok json (shared c) (now_at c) p)"

lemma phase_ok_mono: "phase_ok json s t p \<Longrightarrow> t \<le> u \<Longrightarrow> phase_ok json s u p"
  by (cases "(json, s, t, p)" rule: phase_ok.cases) (auto dest: published_mono)

lemma phase_ok_store_keys [simp]: "phase_ok json (store_keys m t t' s) u p = phase_ok json s u p"
  by (cases "(json, s, u, p)" rule: phase_ok.cases) simp_all

lemma phase_step_source:
  assumes "phase_step json now now' ord s p = (s', p')"
  shows "s' = s \<or> (\<exists>c m. p = Store c m \<and> s' = store_keys m now now' s)"
  using assms by (cases p) auto

lemma phase_step_ok:
  assumes step: "phase_step json now now' ord s p = (s', p')"
    and keys: "src_keys s = Map.empty \<or> published json s now (src_keys s)"
    and ok: "phase_ok json s now p" and le: "now \<le> now'"
  shows "phase_ok json s now' p' \<and> (src_keys s' = Map.empty \<or> published json s now' (src_keys s'))"
proof -
  have served: "phase_ok json s now' (Finished (Inr key))" if "cachedKey s now ord kid = Some key" for kid key
  proof -
    from cachedKey_in_map[OF that] keys have "published json s now (src_keys s)" "key \<in> ran (src_keys s)"
      by auto
    then show ?thesis using published_mono[OF _ le] by auto
  qed
  show ?thesis
  proof (cases p)
    case (Request c)
    with step keys le show ?thesis
      by (auto simp: published_def split: sum.splits option.splits intro: order_trans)
  next
    case (Store c m)
    with step ok le show ?thesis
      by (auto split: option.splits dest: published_mono)
  qed (use step keys ok served le in \<open>auto split: option.splits dest: published_mono phase_ok_mono\<close>)
qed

lemma jwks_inv_step: "jwks_step json c c' \<Longrightarrow> jwks_inv json c \<Longrightarrow> jwks_inv json c'"
proof (erule jwks_stepE)
  fix i now now' ord s' p'
  assume inv: "jwks_inv json c" and i: "i < length (calls c)" and t: "now_at c \<le> now" "now \<le> now'"
    and step: "phase_step json now now' ord (shared c) (calls c ! i) = (s', p')"
    and c': "c' = \<lparr>shared = s', now_at = now', calls = (calls c)[i := p']\<rparr>"
  from inv i have ok: "phase_ok json (shared c) now (calls c ! i)"
    using t(1) by (auto simp: jwks_inv_def intro: phase_ok_mono)
  from inv t(1) have keys: "src_keys (shared c) = Map.empty \<or> published json (shared c) now (src_keys (shared c))"
    by (auto simp: jwks_inv_def dest: published_mono)
  note after = phase_step_ok[OF step keys ok t(2)]
  have same: "published json s' = published json (shared c)" "phase_ok json s' = phase_ok json (shared c)"
    using phase_step_source[OF step] by (auto simp: fun_eq_iff)
  have rest: "phase_ok json (shared c) now' p" if "p \<in> set (calls c)" for p
  proof -
    from that inv have "phase_ok json (shared c) (now_at c) p" by (simp add: jwks_inv_def)
    then show ?thesis by (rule phase_ok_mono) (use t in simp)
  qed
  show "jwks_inv json c'"
    unfolding jwks_inv_def c' using after rest same by (auto dest: set_update_subset_insert[THEN subsetD])
qed

lemma jwks_inv_steps: "jwks_steps json n c c' \<Longrightarrow> jwks_inv json c \<Longrightarrow> jwks_inv json c'"
  by (induction rule: jwks_steps.induct) (auto dest: jwks_inv_step)

lemma jwks_step_source:
  assumes "jwks_step json c c'"
  shows "published json (shared c') = published json (shared c)"
  using assms by (rule jwks_stepE) (auto dest!: phase_step_source)

lemma jwks_steps_source: "jwks_steps json n c c' \<Longrightarrow> published json (shared c') = published json (shared c)"
  by (induction rule: jwks_steps.induct) (auto dest: jwks_step_source)

text \<open>How many steps a call has left.\<close>

fun rank :: "phase \<Rightarrow> nat" where
  "rank (Lookup kid) = 5"
| "rank (Guard kid) = 4"
| "rank (Request c) = 3"
| "rank (Store c m) = 2"
| "rank (Retry kid) = 1"
| "rank (Finished r) = 0"
| "rank (Preloaded r) = 0"

lemma rank_step: "phase_step json now now' ord s p = (s', p') \<Longrightarrow> \<not> returned p \<Longrightarrow> Suc (rank p') \<le> rank p"
  by (cases p) (auto split: option.splits sum.splits)

lemma sum_list_update_less:
  fixes f :: "'a \<Rightarrow> nat"
  assumes "i < length xs" "Suc (f y) \<le> f (xs ! i)"
  shows "Suc (sum_list (map f (xs[i := y]))) \<le> sum_list (map f xs)"
  using assms
proof (induction xs arbitrary: i)
  case (Cons x xs)
  then show ?case by (cases i) fastforce+
qed simp

lemma jwks_step_rank:
  "jwks_step json c c' \<Longrightarrow> Suc (sum_list (map rank (calls c'))) \<le> sum_list (map rank (calls c))"
  by (erule jwks_stepE) (auto intro!: sum_list_update_less dest: rank_step)

lemma jwks_steps_rank:
  "jwks_steps json n c c' \<Longrightarrow> n + sum_list (map rank (calls c')) \<le> sum_list (map rank (calls c))"
  by (induction rule: jwks_steps.induct) (auto dest!: jwks_step_rank)

lemma rank_bound: "sum_list (map rank ps) \<le> 5 * length ps"
proof (induction ps)
  case (Cons p ps)
  have "rank p \<le> 5" by (cases p) simp_all
  with Cons show ?case by simp
qed simp

lemma jwks_progress: "p \<in> set (calls c) \<Longrightarrow> \<not> returned p \<Longrightarrow> \<exists>c'. jwks_step json c c'"
proof -
  assume "p \<in> set (calls c)" "\<not> returned p"
  then obtain i where i: "i < length (calls c)" "\<not> returned (calls c ! i)"
    by (auto simp: in_set_conv_nth)
  obtain s' p' where "phase_step json (now_at c) (now_at c) [] (shared c) (calls c ! i) = (s', p')"
    by (metis surj_pair)
  from jwks_stepI[OF i order_refl order_refl this] show ?thesis by blast
qed

lemma collect_keys_Some:
  "collect_keys raws m kid = Some key \<Longrightarrow>
     m kid = Some key \<or> (\<exists>raw \<in> set raws. Kid raw = kid \<and> (Use raw = '''' \<or> Use raw = ''sig'') \<and> toPublicKey raw = Inr key)"
proof (induction raws arbitrary: m)
  case (Cons raw raws)
  show ?case
  proof (cases "Use raw \<noteq> '''' \<and> Use raw \<noteq> ''sig''")
    case False
    then show ?thesis
    proof (cases "toPublicKey raw")
      case (Inr k)
      then have "collect_keys (raw # raws) m = collect_keys raws (m(Kid raw \<mapsto> k))"
        by (simp only: collect_keys.simps False if_False sum.case)
      with Cons.prems have "collect_keys raws (m(Kid raw \<mapsto> k)) kid = Some key" by simp
      from Cons.IH[OF this] Inr False show ?thesis by (auto split: if_splits)
    qed (use False Cons in auto)
  qed (use Cons in auto)
qed simp

text \<open>A key the endpoint of \<open>s\<close> offered for signatures at time \<open>t\<close>.\<close>

definition offered :: "json_decoder \<Rightarrow> Source \<Rightarrow> time \<Rightarrow> public_key \<Rightarrow> bool" where
  "offered json s t key \<longleftrightarrow> (\<exists>body raws raw.
     httpClient s t (src_url s) = Inr (200, body) \<and> json body = Inr raws \<and> raw \<in> set raws \<and>
     (Use raw = '''' \<or> Use raw = ''sig'') \<and> toPublicKey raw = Inr key)"

lemma download_offered: "download json s t = Inr m \<Longrightarrow> key \<in> ran m \<Longrightarrow> offered json s t key"
  unfolding ran_def offered_def download_def
  by (auto split: sum.splits if_splits dest!: collect_keys_Some)

text \<open>The calls before their first step.\<close>

fun starting :: "phase \<Rightarrow> bool" where
  "starting (Lookup kid) = True"
| "starting (Request None) = True"
| "starting _ = False"

lemma starting_ok: "starting p \<Longrightarrow> phase_ok json s t p"
  by (cases p rule: starting.cases) simp_all

section \<open>Properties\<close>

text \<open>
  C24: only keys the endpoint offered for signatures are ever handed out. Whatever calls of
  \<open>KeyFunc\<close> and \<open>Preload\<close> run concurrently on a fresh source, and however their steps interleave, a
  key that a call returns was in a key set that the source's URL answered with status 200 at some
  earlier time, was marked for signatures or not marked, and is what that entry parses to.
\<close>

theorem handed_out_keys_were_offered:
  assumes "src_keys s = Map.empty" and "list_all starting ps"
    and "jwks_steps json n \<lparr>shared = s, now_at = t, calls = ps\<rparr> c"
    and "Finished (Inr key) \<in> set (calls c)"
  shows "\<exists>t' \<le> now_at c. offered json s t' key"
proof -
  let ?c0 = "\<lparr>shared = s, now_at = t, calls = ps\<rparr>"
  have "jwks_inv json ?c0"
    using assms(1,2) by (simp add: jwks_inv_def list_all_iff starting_ok)
  then have "jwks_inv json c" by (rule jwks_inv_steps[OF assms(3)])
  with assms(4) have "phase_ok json (shared c) (now_at c) (Finished (Inr key))"
    unfolding jwks_inv_def by blast
  then obtain m where "published json s (now_at c) m" "key \<in> ran m"
    using jwks_steps_source[OF assms(3)] by auto
  then show ?thesis by (auto simp: published_def dest: download_offered)
qed


section \<open>A sample endpoint\<close>

definition sample_jwk :: "string \<Rightarrow> rawJWK" where
  "sample_jwk kid = \<lparr>Kty = ''RSA'', Kid = kid, Use = ''sig'', JWK_Alg = ''RS256'', JWK_N = ''Dw'', JWK_E = ''Aw'',
     Crv = '''', JWK_X = '''', JWK_Y = ''''\<rparr>"

text \<open>Down for the first hour, then it offers one key for signatures and one for encryption.\<close>

definition sample_client :: http_client where
  "sample_client t url = (if t < Hour then Inl ''down'' else Inr (200, ''jwks''))"

definition sample_json :: json_decoder where
  "sample_json body = Inr [sample_jwk ''k1'', (sample_jwk ''k2'')\<lparr>Use := ''enc''\<rparr>]"

definition sample_source :: Source where
  "sample_source = NewSource (\<lambda>_. sample_client) ''https://idp/jwks'' []"

definition sample_clock :: "time \<Rightarrow> clock" where
  "sample_clock t = \<lparr>at_lookup = t, at_guard = t, at_request = t, at_fetched = t, at_refreshed = t, at_retry = t\<rparr>"

lemma sample_key: "toPublicKey (sample_jwk kid) = Inr (RSA_PublicKey 15 3)"
proof -
  have "RawDecodeString base64_url ''Dw'' = Some [CHR 0x0F]" "RawDecodeString base64_url ''Aw'' = Some [CHR 0x03]"
    by code_simp+
  then show ?thesis by (simp add: toPublicKey_def toRSA_def sample_jwk_def SetBytes_def int64_defs)
qed

lemma sample_keys:
  "collect_keys [sample_jwk ''k1'', (sample_jwk ''k2'')\<lparr>Use := ''enc''\<rparr>] Map.empty = [''k1'' \<mapsto> RSA_PublicKey 15 3]"
proof -
  have use: "Use (sample_jwk kid) = ''sig''" "Kid (sample_jwk kid) = kid" for kid by (simp_all add: sample_jwk_def)
  show ?thesis by (simp add: use sample_key)
qed

lemma sample_source_simps:
  "src_keys sample_source = Map.empty" "httpClient sample_source = sample_client"
  "lastRefreshAt sample_source = zero_time" "fetchAt sample_source = zero_time"
  "minRefreshDelay sample_source = 30 * Second" "cacheTTL sample_source = 15 * Minute"
  by (simp_all add: sample_source_def NewSource_def defaultMinRefreshDelay_def defaultCacheTTL_def)

lemma sample_download: "Hour \<le> t \<Longrightarrow> download sample_json sample_source t = Inr [''k1'' \<mapsto> RSA_PublicKey 15 3]"
  by (simp add: download_def sample_source_simps sample_client_def sample_json_def sample_keys del: collect_keys.simps)

lemma sample_down: "t < Hour \<Longrightarrow> download sample_json sample_source t = Inl (ErrFetchFailed ''down'')"
  by (simp add: download_def sample_source_simps sample_client_def)

lemma sample_expired: "0 \<le> t \<Longrightarrow> cachedKey sample_source t ord kid = None"
  by (simp add: cachedKey_def sample_source_simps time_Sub_def sat64_def max_int64_def min_int64_def duration_defs zero_time_def)

lemma sample_allowed: "0 \<le> t \<Longrightarrow> refresh_allowed sample_source t = None"
  by (simp add: refresh_allowed_def sample_source_simps time_Sub_def sat64_def max_int64_def min_int64_def duration_defs
      zero_time_def Let_def)

section \<open>Sequential calls as schedules\<close>

text \<open>The readings of one call come in the order of the code.\<close>

definition clock_ordered :: "clock \<Rightarrow> bool" where
  "clock_ordered clk \<longleftrightarrow> at_lookup clk \<le> at_guard clk \<and> at_guard clk \<le> at_request clk \<and>
     at_request clk \<le> at_fetched clk \<and> at_fetched clk \<le> at_refreshed clk \<and> at_refreshed clk \<le> at_retry clk"

lemma single_step:
  assumes "jwks_steps json n c0 \<lparr>shared = s, now_at = t, calls = [p]\<rparr>" and "\<not> returned p"
    and "phase_step json now now' ord s p = (s', p')" and "t \<le> now" "now \<le> now'"
  shows "jwks_steps json (Suc n) c0 \<lparr>shared = s', now_at = now', calls = [p']\<rparr>"
proof (rule jwks_steps_Suc[OF assms(1)])
  show "jwks_step json \<lparr>shared = s, now_at = t, calls = [p]\<rparr> \<lparr>shared = s', now_at = now', calls = [p']\<rparr>"
    using jwks_stepI[of 0 "\<lparr>shared = s, now_at = t, calls = [p]\<rparr>" now now' json ord s' p'] assms by simp
qed

lemma lookup_key_schedule:
  assumes "clock_ordered clk" and "t \<le> at_lookup clk"
    and "lookup_key json clk ord ord' kid s = (s', r)"
  obtains n t' where "jwks_steps json n \<lparr>shared = s, now_at = t, calls = [Lookup kid]\<rparr>
    \<lparr>shared = s', now_at = t', calls = [Finished r]\<rparr>"
proof -
  let ?c0 = "\<lparr>shared = s, now_at = t, calls = [Lookup kid]\<rparr>"
  note order = assms(1)[unfolded clock_ordered_def] assms(2)
  note start = jwks_steps_0[of json ?c0]
  show ?thesis
  proof (cases "cachedKey s (at_lookup clk) ord kid")
    case (Some key)
    with assms(3) that[OF single_step[OF start, of "at_lookup clk" "at_lookup clk" ord]] order show ?thesis
      by (simp add: lookup_key_def)
  next
    case None
    then have guard: "jwks_steps json 1 ?c0 \<lparr>shared = s, now_at = at_lookup clk, calls = [Guard kid]\<rparr>"
      using single_step[OF start, of "at_lookup clk" "at_lookup clk" ord] order by simp
    show ?thesis
    proof (cases "refresh_allowed s (at_guard clk)")
      case (Some err)
      with None assms(3) that[OF single_step[OF guard, of "at_guard clk" "at_guard clk"]] order show ?thesis
        by (simp add: lookup_key_def refreshIfAllowed_def)
    next
      case allowed: None
      then have request: "jwks_steps json 2 ?c0 \<lparr>shared = s, now_at = at_guard clk, calls = [Request (Some kid)]\<rparr>"
        using single_step[OF guard, of "at_guard clk" "at_guard clk"] order by (simp add: numeral_2_eq_2)
      show ?thesis
      proof (cases "download json s (at_request clk)")
        case (Inl err)
        with None allowed assms(3) that[OF single_step[OF request, of "at_request clk" "at_request clk"]] order
        show ?thesis by (simp add: lookup_key_def refreshIfAllowed_def fetch_def)
      next
        case (Inr m)
        let ?s = "store_keys m (at_fetched clk) (at_refreshed clk) s"
        from Inr have "jwks_steps json 3 ?c0 \<lparr>shared = s, now_at = at_request clk, calls = [Store (Some kid) m]\<rparr>"
          using single_step[OF request, of "at_request clk" "at_request clk"] order by (simp add: numeral_3_eq_3)
        then have retry: "jwks_steps json 4 ?c0 \<lparr>shared = ?s, now_at = at_refreshed clk, calls = [Retry kid]\<rparr>"
          using single_step[of json 3 ?c0 s "at_request clk" _ "at_fetched clk" "at_refreshed clk"] order
          by (simp add: eval_nat_numeral)
        from Inr None allowed assms(3)
        have "phase_step json (at_retry clk) (at_retry clk) ord' ?s (Retry kid) = (s', Finished r)"
          by (simp add: lookup_key_def refreshIfAllowed_def fetch_def split: option.splits)
        from that[OF single_step[OF retry _ this]] order show ?thesis by simp
      qed
    qed
  qed
qed

lemma sample_clock_ordered: "clock_ordered (sample_clock t)"
  by (simp add: clock_ordered_def sample_clock_def)

lemma sample_lookup:
  "lookup_key sample_json (sample_clock Hour) ord ord' ''k1'' sample_source =
     (store_keys [''k1'' \<mapsto> RSA_PublicKey 15 3] Hour Hour sample_source, Inr (RSA_PublicKey 15 3))"
proof -
  have "0 \<le> Hour" by (simp add: duration_defs)
  then show ?thesis
    using sample_expired[of Hour] sample_allowed[of Hour] sample_download[of Hour]
    by (simp add: lookup_key_def refreshIfAllowed_def fetch_def sample_clock_def cachedKey_def sample_source_simps
        time_Sub_def int64_defs duration_defs)
qed

lemma handed_out_keys_were_offered_witness:
  "\<exists>n c. jwks_steps sample_json n \<lparr>shared = sample_source, now_at = 0, calls = [Lookup ''k1'']\<rparr> c \<and>
     Finished (Inr (RSA_PublicKey 15 3)) \<in> set (calls c) \<and>
     (\<exists>t' \<le> now_at c. offered sample_json sample_source t' (RSA_PublicKey 15 3))"
proof -
  have "0 \<le> at_lookup (sample_clock Hour)" by (simp add: sample_clock_def duration_defs)
  then obtain n t' where steps: "jwks_steps sample_json n \<lparr>shared = sample_source, now_at = 0, calls = [Lookup ''k1'']\<rparr>
      \<lparr>shared = store_keys [''k1'' \<mapsto> RSA_PublicKey 15 3] Hour Hour sample_source, now_at = t',
       calls = [Finished (Inr (RSA_PublicKey 15 3))]\<rparr>"
    using lookup_key_schedule[OF sample_clock_ordered _ sample_lookup] by blast
  have "src_keys sample_source = Map.empty" "list_all starting [Lookup ''k1'']"
    by (simp_all add: sample_source_simps)
  from handed_out_keys_were_offered[OF this steps, of "RSA_PublicKey 15 3"] steps show ?thesis
    by (metis jwks_config.select_convs(3) list.set_intros(1))
qed



definition sample_token :: Token where
  "sample_token = \<lparr>Token_Alg = ''RS256'', Token_Header = [''kid'' \<mapsto> AStr ''k1'']\<rparr>"

lemma sample_kid: "token_kid sample_token = ''k1''"
  by (simp add: token_kid_def sample_token_def attr_def)




section \<open>Runs of calls\<close>

type_synonym key_call = "clock \<times> string list \<times> string list \<times> string"

text \<open>Whether a call sends a request, and whether it stores a new key set.\<close>

definition sends_request :: "key_call \<Rightarrow> Source \<Rightarrow> bool" where
  "sends_request call s =
     (case call of (clk, ord, ord', kid) \<Rightarrow>
        cachedKey s (at_lookup clk) ord kid = None \<and> refresh_allowed s (at_guard clk) = None)"

definition stores_keys :: "json_decoder \<Rightarrow> key_call \<Rightarrow> Source \<Rightarrow> bool" where
  "stores_keys json call s \<longleftrightarrow>
     sends_request call s \<and> (\<exists>m. download json s (at_request (fst call)) = Inr m)"

fun run_calls :: "json_decoder \<Rightarrow> key_call list \<Rightarrow> Source \<Rightarrow> Source" where
  "run_calls json [] s = s"
| "run_calls json ((clk, ord, ord', kid) # cs) s =
     run_calls json cs (fst (lookup_key json clk ord ord' kid s))"

fun count_calls :: "(key_call \<Rightarrow> Source \<Rightarrow> bool) \<Rightarrow> json_decoder \<Rightarrow> key_call list \<Rightarrow> Source \<Rightarrow> nat" where
  "count_calls P json [] s = 0"
| "count_calls P json ((clk, ord, ord', kid) # cs) s =
     (if P (clk, ord, ord', kid) s then 1 else 0) +
     count_calls P json cs (fst (lookup_key json clk ord ord' kid s))"

lemma lookup_key_state:
  "fst (lookup_key json clk ord ord' kid s) =
     (if sends_request (clk, ord, ord', kid) s then
        (case download json s (at_request clk) of
           Inl err \<Rightarrow> s
         | Inr m \<Rightarrow> store_keys m (at_fetched clk) (at_refreshed clk) s)
      else s)"
  by (simp add: lookup_key_def refreshIfAllowed_def fetch_def sends_request_def split: option.splits sum.splits prod.splits)

lemma allowed_gap:
  assumes "refresh_allowed s now = None" "0 \<le> minRefreshDelay s" "minRefreshDelay s \<le> max_int64"
  shows "lastRefreshAt s + minRefreshDelay s \<le> now"
  using assms by (simp add: refresh_allowed_def time_Sub_def sat64_def min_int64_def Let_def split: if_splits)

lemma lookup_key_gap:
  assumes "0 \<le> minRefreshDelay s" "minRefreshDelay s \<le> max_int64" "at_guard clk \<le> at_refreshed clk"
  shows "lastRefreshAt s + (if stores_keys json (clk, ord, ord', kid) s then minRefreshDelay s else 0)
      \<le> lastRefreshAt (fst (lookup_key json clk ord ord' kid s))"
    and "minRefreshDelay (fst (lookup_key json clk ord ord' kid s)) = minRefreshDelay s"
proof -
  show "lastRefreshAt s + (if stores_keys json (clk, ord, ord', kid) s then minRefreshDelay s else 0)
      \<le> lastRefreshAt (fst (lookup_key json clk ord ord' kid s))"
  proof (cases "sends_request (clk, ord, ord', kid) s")
    case True
    then have "lastRefreshAt s + minRefreshDelay s \<le> at_guard clk"
      using allowed_gap[OF _ assms(1,2)] by (simp add: sends_request_def)
    with True assms(3) show ?thesis
      by (auto simp: lookup_key_state stores_keys_def split: sum.splits)
  qed (simp add: lookup_key_state stores_keys_def)
  show "minRefreshDelay (fst (lookup_key json clk ord ord' kid s)) = minRefreshDelay s"
    by (simp add: lookup_key_state split: sum.splits)
qed



text \<open>
  Failed fetches are not limited. The delay is counted from the last fetch that succeeded: while
  the endpoint is down and no key is cached, every single call sends a request, however close
  together they are, as long as the last success is the minimum delay ago.
\<close>

theorem failed_fetches_are_not_limited:
  assumes "src_keys s = Map.empty" and "\<forall>t. \<exists>err. download json s t = Inl err"
    and "\<forall>call \<in> set cs. minRefreshDelay s \<le> time_Sub (at_guard (fst call)) (lastRefreshAt s)"
  shows "count_calls sends_request json cs s = length cs \<and> run_calls json cs s = s"
  using assms(3)
proof (induction cs)
  case (Cons call cs)
  obtain clk ord ord' kid where call: "call = (clk, ord, ord', kid)" by (cases call) auto
  have "find (\<lambda>k. src_keys s k \<noteq> None) ord = None"
    by (simp add: assms(1) find_None_iff)
  then have "sends_request call s"
    using Cons.prems call assms(1) by (simp add: sends_request_def cachedKey_def refresh_allowed_def Let_def)
  moreover have "fst (lookup_key json clk ord ord' kid s) = s"
    using assms(2)[rule_format, of "at_request clk"] by (auto simp: lookup_key_state)
  ultimately show ?case using Cons call by simp
qed simp

lemma failed_fetches_are_not_limited_witness:
  "count_calls sends_request sample_json (replicate 1000 (sample_clock Second, [], [], ''x''))
     (sample_source\<lparr>httpClient := \<lambda>t url. Inl ''down''\<rparr>) = 1000"
proof -
  let ?s = "sample_source\<lparr>httpClient := \<lambda>t url. Inl ''down''\<rparr>"
  have "src_keys ?s = Map.empty" by (simp add: sample_source_simps)
  moreover have "\<forall>t. \<exists>err. download sample_json ?s t = Inl err" by (simp add: download_def)
  moreover have "\<forall>call \<in> set (replicate 1000 (sample_clock Second, [], [], ''x'')).
      minRefreshDelay ?s \<le> time_Sub (at_guard (fst call)) (lastRefreshAt ?s)"
    by (simp add: sample_source_simps sample_clock_def time_Sub_def int64_defs duration_defs zero_time_def)
  ultimately have "count_calls sends_request sample_json (replicate 1000 (sample_clock Second, [], [], ''x'')) ?s =
      length (replicate 1000 (sample_clock Second, []::string list, []::string list, ''x''))"
    using failed_fetches_are_not_limited by blast
  then show ?thesis by (simp only: length_replicate)
qed

section \<open>In the JWT service\<close>

text \<open>
  The keys as the key function hands them to the JWT library, and the key function that
  \<open>WithJWKS\<close> is given. \<open>msg\<close> renders an error.
\<close>

fun as_jwt_key :: "public_key \<Rightarrow> jwt_key" where
  "as_jwt_key (RSA_PublicKey n e) = RSAPublic (decimal n @ '','' @ FormatInt e)"
| "as_jwt_key (ECDSA_PublicKey curve x y) = ECDSAPublic curve (decimal x @ '','' @ decimal y)"

definition jwks_keyfunc ::
  "(jwks_error \<Rightarrow> string) \<Rightarrow> json_decoder \<Rightarrow> clock \<Rightarrow> string list \<Rightarrow> string list \<Rightarrow> Source Keyfunc" where
  "jwks_keyfunc msg json clk ord ord' token s =
     (case KeyFunc json clk ord ord' token s of
        (s', Inl err) \<Rightarrow> (s', Inl (OtherError (msg err)))
      | (s', Inr key) \<Rightarrow> (s', Inr (Some (as_jwt_key key))))"

text \<open>
  What is relied on of the JWT library: it changes the state only through the key function, and
  accepts a token only with a key that the function returned, in a state it had then reached, for
  the header of that token.
\<close>

definition library_calls_key :: "'w gojwt \<Rightarrow> (string \<Rightarrow> Token) \<Rightarrow> bool" where
  "library_calls_key lib header \<longleftrightarrow> (\<forall>P now tok kf w w' r.
     (\<forall>t v. P v \<longrightarrow> P (fst (kf t v))) \<longrightarrow> P w \<longrightarrow> ParseWithClaims lib now tok kf w = (w', Inr r) \<longrightarrow>
     (\<exists>v k. P v \<and> snd (kf (header tok) v) = Inr k))"

definition offered_for :: "json_decoder \<Rightarrow> Source \<Rightarrow> time \<Rightarrow> string \<Rightarrow> public_key \<Rightarrow> bool" where
  "offered_for json s t kid key \<longleftrightarrow> (\<exists>body raws raw.
     httpClient s t (src_url s) = Inr (200, body) \<and> json body = Inr raws \<and> raw \<in> set raws \<and> Kid raw = kid \<and>
     (Use raw = '''' \<or> Use raw = ''sig'') \<and> toPublicKey raw = Inr key)"

lemma download_offered_for: "download json s t = Inr m \<Longrightarrow> m kid = Some key \<Longrightarrow> offered_for json s t kid key"
  unfolding offered_for_def download_def
  by (auto split: sum.splits if_splits dest!: collect_keys_Some)

text \<open>Nothing is cached but what the request of this call has brought.\<close>

definition fresh_or_fetched :: "json_decoder \<Rightarrow> clock \<Rightarrow> Source \<Rightarrow> Source \<Rightarrow> bool" where
  "fresh_or_fetched json clk s v \<longleftrightarrow> src_url v = src_url s \<and> httpClient v = httpClient s \<and>
     (src_keys v = Map.empty \<or> download json s (at_request clk) = Inr (src_keys v))"

lemma lookup_key_fetched:
  "fresh_or_fetched json clk s v \<Longrightarrow> fresh_or_fetched json clk s (fst (lookup_key json clk ord ord' kid v))"
  using download_cong[of v s json]
  by (auto simp: fresh_or_fetched_def lookup_key_state split: sum.splits)

lemma lookup_key_result:
  assumes "snd (lookup_key json clk ord ord' kid v) = Inr key" and "kid \<noteq> ''''"
  shows "src_keys (fst (lookup_key json clk ord ord' kid v)) kid = Some key"
  using assms
  by (auto simp: lookup_key_def refreshIfAllowed_def cachedKey_def split: option.splits if_splits prod.splits)

lemma KeyFunc_offered:
  assumes "fresh_or_fetched json clk s v" and "snd (KeyFunc json clk ord ord' token v) = Inr key"
    and "token_kid token \<noteq> ''''"
  shows "offered_for json s (at_request clk) (token_kid token) key"
proof -
  let ?v = "fst (lookup_key json clk ord ord' (token_kid token) v)"
  have "src_keys ?v (token_kid token) = Some key"
    using lookup_key_result[OF _ assms(3)] assms(2) by (simp add: KeyFunc_def)
  moreover from lookup_key_fetched[OF assms(1)] have "src_keys ?v = Map.empty \<or> download json s (at_request clk) = Inr (src_keys ?v)"
    by (simp add: fresh_or_fetched_def)
  ultimately show ?thesis by (auto dest: download_offered_for)
qed

text \<open>
  A service that trusts an identity provider accepts only tokens under that provider's keys. When
  a service made with \<open>WithJWKS\<close>, whose source has nothing cached, accepts a token that names a key
  identifier, the endpoint answered the request of that very call with a key set in which an entry
  with this identifier, meant for signatures, is a key that the token was accepted with.
\<close>

theorem accepted_token_has_offered_key:
  assumes "library_calls_key lib header" and "src_keys s = Map.empty"
    and "token_kid (header tok) \<noteq> ''''"
    and "jwt_Verify lib (jwt_New [WithJWKS (jwks_keyfunc msg json clk ord ord')]) now tok s = (s', Inr claims)"
  shows "\<exists>key v. offered_for json s (at_request clk) (token_kid (header tok)) key \<and>
    snd (jwks_keyfunc msg json clk ord ord' (header tok) v) = Inr (Some (as_jwt_key key))"
proof -
  let ?kf = "jwks_keyfunc msg json clk ord ord'"
  let ?P = "fresh_or_fetched json clk s"
  have kf: "verify_keyfunc (jwt_New [WithJWKS ?kf]) = Some ?kf"
    by (simp add: verify_keyfunc_def jwt_New_def WithJWKS_def)
  then obtain w r where parse: "ParseWithClaims lib now tok ?kf s = (w, Inr r)"
    using assms(4) by (auto simp: jwt_Verify_def split: prod.splits sum.splits)
  have keeps: "\<forall>t v. ?P v \<longrightarrow> ?P (fst (?kf t v))"
    using lookup_key_fetched by (auto simp: jwks_keyfunc_def KeyFunc_def split: prod.splits sum.splits) (metis fst_conv)+
  have "?P s" using assms(2) by (simp add: fresh_or_fetched_def)
  with keeps parse assms(1) obtain v k where v: "?P v" "snd (?kf (header tok) v) = Inr k"
    unfolding library_calls_key_def by blast
  then obtain key where key: "snd (KeyFunc json clk ord ord' (header tok) v) = Inr key" "k = Some (as_jwt_key key)"
    by (auto simp: jwks_keyfunc_def split: prod.splits sum.splits)
  with KeyFunc_offered[OF v(1) key(1) assms(3)] v(2) show ?thesis by blast
qed

text \<open>A library that asks the key function once and accepts what it gets a key for.\<close>

definition trusting_gojwt :: "Source gojwt" where
  "trusting_gojwt = \<lparr>NewNumericDate = id, SignedString = (\<lambda>m c k. Inl ErrInvalidToken),
     ParseWithClaims = (\<lambda>now tok kf w.
       case kf sample_token w of
         (w', Inl err) \<Rightarrow> (w', Inl err)
       | (w', Inr k) \<Rightarrow> (w', Inr (\<lparr>sc_Issuer = '''', sc_Subject = tok, sc_Audience = [], sc_ExpiresAt = None,
           sc_NotBefore = None, sc_IssuedAt = None, sc_Custom = Map.empty\<rparr>, True)))\<rparr>"

lemma trusting_gojwt_law: "library_calls_key trusting_gojwt (\<lambda>_. sample_token)"
  by (auto simp: library_calls_key_def trusting_gojwt_def split: prod.splits sum.splits)

lemma accepted_token_has_offered_key_witness:
  "(\<exists>s' claims. jwt_Verify trusting_gojwt
      (jwt_New [WithJWKS (jwks_keyfunc (\<lambda>_. '''') sample_json (sample_clock Hour) [] [])]) Hour ''t'' sample_source = (s', Inr claims)) \<and>
   (\<exists>key v. offered_for sample_json sample_source (at_request (sample_clock Hour)) (token_kid sample_token) key \<and>
      snd (jwks_keyfunc (\<lambda>_. '''') sample_json (sample_clock Hour) [] [] sample_token v) = Inr (Some (as_jwt_key key)))"
proof -
  let ?kf = "jwks_keyfunc (\<lambda>_. '''') sample_json (sample_clock Hour) [] []"
  obtain v k where "?kf sample_token sample_source = (v, Inr k)"
    by (simp add: jwks_keyfunc_def KeyFunc_def sample_kid sample_lookup)
  then obtain s' claims where a: "jwt_Verify trusting_gojwt (jwt_New [WithJWKS ?kf]) Hour ''t'' sample_source = (s', Inr claims)"
    by (simp add: jwt_Verify_def verify_keyfunc_def jwt_New_def WithJWKS_def trusting_gojwt_def check_revoked_def
        defaultOptions_def)
  have "src_keys sample_source = Map.empty" "token_kid sample_token \<noteq> ''''"
    by (simp_all add: sample_source_simps sample_kid)
  from accepted_token_has_offered_key[OF trusting_gojwt_law this a] a show ?thesis by blast
qed

section \<open>Publishing keys\<close>

text \<open>The fewest big-endian bytes of a number, as \<open>big.Int.Bytes\<close> gives them, and a published key.\<close>

fun nat_bytes :: "nat \<Rightarrow> string" where
  "nat_bytes n = (if n = 0 then [] else nat_bytes (n div 256) @ [char_of (n mod 256)])"

declare nat_bytes.simps [simp del]

fun jwk_of :: "string \<Rightarrow> public_key \<Rightarrow> rawJWK" where
  "jwk_of kid (RSA_PublicKey n e) = \<lparr>Kty = ''RSA'', Kid = kid, Use = ''sig'', JWK_Alg = '''',
     JWK_N = RawEncodeToString base64_url (nat_bytes n), JWK_E = RawEncodeToString base64_url (nat_bytes (nat e)),
     Crv = '''', JWK_X = '''', JWK_Y = ''''\<rparr>"
| "jwk_of kid (ECDSA_PublicKey curve x y) = \<lparr>Kty = ''EC'', Kid = kid, Use = ''sig'', JWK_Alg = '''',
     JWK_N = '''', JWK_E = '''',
     Crv = (case curve of P224 \<Rightarrow> ''P-224'' | P256 \<Rightarrow> ''P-256'' | P384 \<Rightarrow> ''P-384'' | P521 \<Rightarrow> ''P-521''),
     JWK_X = RawEncodeToString base64_url (nat_bytes x), JWK_Y = RawEncodeToString base64_url (nat_bytes y)\<rparr>"

lemma SetBytes_nat_bytes: "SetBytes (nat_bytes n) = n"
proof (induction n rule: nat_bytes.induct)
  case (1 n)
  show ?case
  proof (cases "n = 0")
    case True
    then show ?thesis by (subst nat_bytes.simps) (simp add: SetBytes_def)
  next
    case False
    with 1 have "SetBytes (nat_bytes (n div 256)) = n div 256" by simp
    with False show ?thesis by (subst nat_bytes.simps) (simp add: SetBytes_def)
  qed
qed

lemma jwk_of_parses:
  "(\<forall>n e. key = RSA_PublicKey n e \<longrightarrow> 0 \<le> e \<and> e \<le> max_int64) \<Longrightarrow> (\<forall>x y. key \<noteq> ECDSA_PublicKey P224 x y) \<Longrightarrow>
     toPublicKey (jwk_of kid key) = Inr key"
proof (cases key)
  case (RSA_PublicKey n e)
  assume "\<forall>n e. key = RSA_PublicKey n e \<longrightarrow> 0 \<le> e \<and> e \<le> max_int64"
  then have e: "in_int64 e" "0 \<le> e" using RSA_PublicKey by (auto simp: in_int64_def min_int64_def)
  then show ?thesis
    by (simp add: RSA_PublicKey toPublicKey_def toRSA_def b64url.decode_encode SetBytes_nat_bytes)
next
  case (ECDSA_PublicKey curve x y)
  assume "\<forall>x y. key \<noteq> ECDSA_PublicKey P224 x y"
  with ECDSA_PublicKey show ?thesis
    by (cases curve) (simp_all add: toPublicKey_def toECDSA_def jwk_curve_def b64url.decode_encode SetBytes_nat_bytes)
qed

text \<open>
  A published key is understood. An RSA key, or an ECDSA key on one of the three supported curves,
  written as a key set entry with its numbers in unpadded base64url, big-endian, is parsed to
  exactly that key, and fetching a key set makes it available under its identifier when no later
  entry for signatures has the same identifier.
\<close>

theorem published_key_is_understood:
  assumes "\<forall>n e. key = RSA_PublicKey n e \<longrightarrow> 0 \<le> e \<and> e \<le> max_int64"
    and "\<forall>x y. key \<noteq> ECDSA_PublicKey P224 x y"
    and "\<forall>raw \<in> set raws. Kid raw \<noteq> kid"
  shows "toPublicKey (jwk_of kid key) = Inr key \<and> collect_keys (jwk_of kid key # raws) m kid = Some key"
proof -
  have parse: "toPublicKey (jwk_of kid key) = Inr key" by (rule jwk_of_parses[OF assms(1,2)])
  have entry: "Use (jwk_of kid key) = ''sig''" "Kid (jwk_of kid key) = kid" by (cases key; simp)+
  have later: "collect_keys raws m' kid = m' kid" for m'
    using assms(3) by (induction raws arbitrary: m') (auto split: sum.splits)
  have "collect_keys (jwk_of kid key # raws) m = collect_keys raws (m(kid \<mapsto> key))"
    by (simp add: parse entry)
  with parse later show ?thesis by simp
qed

lemma published_key_is_understood_witness:
  "toPublicKey (jwk_of ''k'' (ECDSA_PublicKey P384 7 9)) = Inr (ECDSA_PublicKey P384 7 9) \<and>
   collect_keys [jwk_of ''k'' (ECDSA_PublicKey P384 7 9)] Map.empty ''k'' = Some (ECDSA_PublicKey P384 7 9)"
  by (rule published_key_is_understood) simp_all

end
