(* ===== verification/Passwords.thy ===== *)
theory Passwords
  imports Base64
begin

text \<open>
  The password and token part of the package \<open>crypto\<close>: Argon2id hashes in PHC format
  (\<open>crypto/password.go\<close>), the bcrypt wrappers (\<open>crypto/bcrypt.go\<close>) and random tokens
  (\<open>crypto/token.go\<close>). The packages \<open>argon2\<close> and \<open>bcrypt\<close> are not part of the repository: they
  are the records \<open>argon2\<close> and \<open>bcrypt\<close>. Randomness is the finite list of bytes the reader
  still delivers, an error when it is exhausted. Constant-time comparison is equality.
\<close>

section \<open>Scanning\<close>

text \<open>
  \<open>fmt.Sscanf\<close> for formats made of literal characters that are not spaces and of \<open>%d\<close>. Before a
  number, spaces are skipped, in which a line feed is an error; the input that is left over at the
  end of the format is ignored. \<open>None\<close> is an error.
\<close>

definition unicode_spaces :: "nat list list" where
  "unicode_spaces =
     [[0xC2, 0x85], [0xC2, 0xA0], [0xE1, 0x9A, 0x80], [0xE2, 0x80, 0xA8], [0xE2, 0x80, 0xA9],
      [0xE2, 0x80, 0xAF], [0xE2, 0x81, 0x9F], [0xE3, 0x80, 0x80]] @
     map (\<lambda>i. [0xE2, 0x80, i]) [0x80..<0x8B]"

definition multibyte_space :: "string \<Rightarrow> nat option" where
  "multibyte_space s =
     (case filter (\<lambda>p. take (length p) (map of_char s) = p) unicode_spaces of
        [] \<Rightarrow> None
      | p # _ \<Rightarrow> Some (length p))"

lemma multibyte_space_Nil: "multibyte_space [] = None"
  by code_simp

function SkipSpace :: "string \<Rightarrow> string option" where
  "SkipSpace s =
     (case s of
        [] \<Rightarrow> Some []
      | c # cs \<Rightarrow>
          if c = CHR 0x0A then None
          else if is_space c then SkipSpace cs
          else case multibyte_space s of
                 None \<Rightarrow> Some s
               | Some n \<Rightarrow> SkipSpace (drop (n - 1) cs))"
  by pat_completeness auto
termination by (relation "measure length") auto

declare SkipSpace.simps [simp del]

definition scan_literal :: "string \<Rightarrow> string \<Rightarrow> string option" where
  "scan_literal lit s = (if HasPrefix s lit then Some (drop (length lit) s) else None)"

definition scan_digits :: "string \<Rightarrow> (nat \<times> string) option" where
  "scan_digits s =
     (case parse_nat (takeWhile is_digit s) of
        None \<Rightarrow> None
      | Some n \<Rightarrow> Some (n, dropWhile is_digit s))"

definition scan_uint :: "nat \<Rightarrow> string \<Rightarrow> (nat \<times> string) option" where
  "scan_uint bits s =
     (case SkipSpace s of
        None \<Rightarrow> None
      | Some s' \<Rightarrow>
          (case scan_digits s' of
             None \<Rightarrow> None
           | Some (n, rs) \<Rightarrow> if n < 2 ^ bits then Some (n, rs) else None))"

definition scan_int64 :: "string \<Rightarrow> (int64 \<times> string) option" where
  "scan_int64 s =
     (case SkipSpace s of
        None \<Rightarrow> None
      | Some s' \<Rightarrow>
          (let neg = HasPrefix s' ''-'';
               t = (if neg \<or> HasPrefix s' ''+'' then drop 1 s' else s')
           in case scan_digits t of
                None \<Rightarrow> None
              | Some (n, rs) \<Rightarrow>
                  (let i = (if neg then - int n else int n)
                   in if in_int64 i then Some (i, rs) else None)))"

section \<open>Argon2id hashes\<close>

datatype crypto_error =
    ErrSalt
  | ErrInvalidHash
  | ErrBcrypt string
  | ErrToken
  | ErrPEM string
  | ErrX509 string

record PasswordConfig =
  Memory :: "32 word"
  Iterations :: "32 word"
  Parallelism :: "8 word"
  SaltLength :: "32 word"
  KeyLength :: "32 word"

definition DefaultPasswordConfig :: PasswordConfig where
  "DefaultPasswordConfig =
     \<lparr>Memory = 64 * 1024, Iterations = 3, Parallelism = 2, SaltLength = 16, KeyLength = 32\<rparr>"

text \<open>\<open>argon2.IDKey(password, salt, time, memory, threads, keyLen)\<close>, which may panic.\<close>

record argon2 =
  argon2_Version :: "64 word"
  argon2_IDKey :: "string \<Rightarrow> string \<Rightarrow> 32 word \<Rightarrow> 32 word \<Rightarrow> 8 word \<Rightarrow> 32 word \<Rightarrow> string outcome"

definition encodeHash :: "argon2 \<Rightarrow> string \<Rightarrow> string \<Rightarrow> PasswordConfig \<Rightarrow> string" where
  "encodeHash lib hash salt cfg =
     ''$argon2id$v='' @ FormatInt (sint (argon2_Version lib)) @
     ''$m='' @ FormatInt (uint (Memory cfg)) @
     '',t='' @ FormatInt (uint (Iterations cfg)) @
     '',p='' @ FormatInt (uint (Parallelism cfg)) @
     ''$'' @ RawEncodeToString base64_std salt @
     ''$'' @ RawEncodeToString base64_std hash"

definition HashPasswordWithConfig ::
  "argon2 \<Rightarrow> string \<Rightarrow> PasswordConfig \<Rightarrow> string \<Rightarrow> (crypto_error + string) outcome" where
  "HashPasswordWithConfig lib password cfg rand =
     (if length rand < unat (SaltLength cfg) then Ret (Inl ErrSalt)
      else let salt = take (unat (SaltLength cfg)) rand in
           bind_outcome
             (argon2_IDKey lib password salt (Iterations cfg) (Memory cfg) (Parallelism cfg) (KeyLength cfg))
             (\<lambda>hash. Ret (Inr (encodeHash lib hash salt cfg))))"

definition HashPassword :: "argon2 \<Rightarrow> string \<Rightarrow> string \<Rightarrow> (crypto_error + string) outcome" where
  "HashPassword lib password rand = HashPasswordWithConfig lib password DefaultPasswordConfig rand"

text \<open>The two calls of \<open>Sscanf\<close>.\<close>

definition scan_version :: "string \<Rightarrow> int64 option" where
  "scan_version s = (case scan_literal ''v='' s of None \<Rightarrow> None | Some s1 \<Rightarrow> map_option fst (scan_int64 s1))"

definition scan_param :: "string \<Rightarrow> nat \<Rightarrow> string \<Rightarrow> (nat \<times> string) option" where
  "scan_param lit bits s = (case scan_literal lit s of None \<Rightarrow> None | Some s1 \<Rightarrow> scan_uint bits s1)"

definition scan_params :: "string \<Rightarrow> (nat \<times> nat \<times> nat) option" where
  "scan_params s =
     (case scan_param ''m='' 32 s of
        None \<Rightarrow> None
      | Some (m, s1) \<Rightarrow>
          (case scan_param '',t='' 32 s1 of
             None \<Rightarrow> None
           | Some (t, s2) \<Rightarrow>
               (case scan_param '',p='' 8 s2 of
                  None \<Rightarrow> None
                | Some (p, s3) \<Rightarrow> Some (m, t, p))))"

definition decodeHash :: "string \<Rightarrow> crypto_error + PasswordConfig \<times> string \<times> string" where
  "decodeHash encoded =
     (let parts = Split (CHR ''$'') encoded in
      if length parts \<noteq> 6 then Inl ErrInvalidHash
      else if parts ! 1 \<noteq> ''argon2id'' then Inl ErrInvalidHash
      else case scan_version (parts ! 2) of
        None \<Rightarrow> Inl ErrInvalidHash
      | Some version \<Rightarrow>
          (case scan_params (parts ! 3) of
             None \<Rightarrow> Inl ErrInvalidHash
           | Some (m, t, p) \<Rightarrow>
               (case RawDecodeString base64_std (parts ! 4) of
                  None \<Rightarrow> Inl ErrInvalidHash
                | Some salt \<Rightarrow>
                    (case RawDecodeString base64_std (parts ! 5) of
                       None \<Rightarrow> Inl ErrInvalidHash
                     | Some hash \<Rightarrow>
                         Inr (\<lparr>Memory = of_nat m, Iterations = of_nat t, Parallelism = of_nat p,
                               SaltLength = of_nat (length salt), KeyLength = of_nat (length hash)\<rparr>,
                              salt, hash)))))"

definition VerifyPassword :: "argon2 \<Rightarrow> string \<Rightarrow> string \<Rightarrow> (crypto_error + bool) outcome" where
  "VerifyPassword lib password encoded =
     (case decodeHash encoded of
        Inl err \<Rightarrow> Ret (Inl err)
      | Inr (cfg, salt, hash) \<Rightarrow>
          bind_outcome
            (argon2_IDKey lib password salt (Iterations cfg) (Memory cfg) (Parallelism cfg) (KeyLength cfg))
            (\<lambda>candidate. Ret (Inr (hash = candidate))))"

section \<open>Bcrypt\<close>

datatype bcrypt_error = ErrMismatchedHashAndPassword | BcryptOther string

record bcrypt =
  bcrypt_DefaultCost :: int
  GenerateFromPassword :: "string \<Rightarrow> int \<Rightarrow> string \<Rightarrow> bcrypt_error + string"
  CompareHashAndPassword :: "string \<Rightarrow> string \<Rightarrow> bcrypt_error option"
  bcrypt_Cost :: "string \<Rightarrow> bcrypt_error + int"

fun bcrypt_message :: "bcrypt_error \<Rightarrow> crypto_error" where
  "bcrypt_message ErrMismatchedHashAndPassword = ErrBcrypt ''mismatch''"
| "bcrypt_message (BcryptOther msg) = ErrBcrypt msg"

definition HashPasswordBcrypt :: "bcrypt \<Rightarrow> string \<Rightarrow> int \<Rightarrow> string \<Rightarrow> crypto_error + string" where
  "HashPasswordBcrypt lib password cost rand =
     (let cost = (if cost \<le> 0 then bcrypt_DefaultCost lib else cost) in
      case GenerateFromPassword lib password cost rand of
        Inl err \<Rightarrow> Inl (bcrypt_message err)
      | Inr hash \<Rightarrow> Inr hash)"

definition VerifyPasswordBcrypt :: "bcrypt \<Rightarrow> string \<Rightarrow> string \<Rightarrow> crypto_error + bool" where
  "VerifyPasswordBcrypt lib password hash =
     (case CompareHashAndPassword lib hash password of
        None \<Rightarrow> Inr True
      | Some err \<Rightarrow>
          if err = ErrMismatchedHashAndPassword then Inr False else Inl (bcrypt_message err))"

definition BcryptCost :: "bcrypt \<Rightarrow> string \<Rightarrow> crypto_error + int" where
  "BcryptCost lib hash =
     (case bcrypt_Cost lib hash of Inl err \<Rightarrow> Inl (bcrypt_message err) | Inr cost \<Rightarrow> Inr cost)"

section \<open>Tokens\<close>

text \<open>Making a slice of negative length panics.\<close>

definition GenerateToken :: "int \<Rightarrow> string \<Rightarrow> (crypto_error + string) outcome" where
  "GenerateToken len rand =
     (if len < 0 then Panic
      else if length rand < nat len then Ret (Inl ErrToken)
      else Ret (Inr (RawEncodeToString base64_url (take (nat len) rand))))"

definition MustGenerateToken :: "int \<Rightarrow> string \<Rightarrow> string outcome" where
  "MustGenerateToken len rand =
     bind_outcome (GenerateToken len rand) (\<lambda>x. case x of Inl err \<Rightarrow> Panic | Inr t \<Rightarrow> Ret t)"

section \<open>Lemmas on scanning\<close>

text \<open>What may follow a number.\<close>

definition ends_number :: "string \<Rightarrow> bool" where
  "ends_number s \<longleftrightarrow> (case s of [] \<Rightarrow> True | c # _ \<Rightarrow> \<not> is_digit c)"

lemma ends_number_simps [simp]: "ends_number []" "ends_number (c # s) \<longleftrightarrow> \<not> is_digit c"
  by (simp_all add: ends_number_def)

lemma scan_literal_append [simp]: "scan_literal lit (lit @ s) = Some s"
  by (simp add: scan_literal_def)

lemma takeWhile_digits: "list_all is_digit ds \<Longrightarrow> ends_number s \<Longrightarrow> takeWhile is_digit (ds @ s) = ds"
  by (induction ds) (auto simp: ends_number_def split: list.splits)

lemma dropWhile_digits: "list_all is_digit ds \<Longrightarrow> ends_number s \<Longrightarrow> dropWhile is_digit (ds @ s) = s"
  by (induction ds) (auto simp: ends_number_def split: list.splits)

lemma scan_digits_decimal: "ends_number s \<Longrightarrow> scan_digits (decimal n @ s) = Some (n, s)"
  by (simp add: scan_digits_def takeWhile_digits dropWhile_digits decimal_digits)

lemma multibyte_spaces_high: "list_all (\<lambda>p. p \<noteq> [] \<and> 128 \<le> hd p) unicode_spaces"
  by code_simp

lemma no_multibyte_space: "ascii c \<Longrightarrow> multibyte_space (c # s) = None"
proof -
  assume c: "ascii c"
  have "take (length p) (map of_char (c # s)) \<noteq> p" if "p \<in> set unicode_spaces" for p
  proof -
    from that multibyte_spaces_high have "p \<noteq> [] \<and> 128 \<le> hd p" by (auto simp: list_all_iff)
    with c show ?thesis by (cases p) (auto simp: ascii_def)
  qed
  then have "filter (\<lambda>p. take (length p) (map of_char (c # s)) = p) unicode_spaces = []"
    by (simp add: filter_empty_conv)
  then show ?thesis by (simp add: multibyte_space_def)
qed

lemma SkipSpace_visible:
  "ascii c \<Longrightarrow> \<not> is_space c \<Longrightarrow> c \<noteq> CHR 0x0A \<Longrightarrow> SkipSpace (c # s) = Some (c # s)"
  by (simp add: SkipSpace.simps no_multibyte_space)

lemma digit_visible:
  assumes "is_digit c"
  shows "ascii c" "\<not> is_space c" "c \<noteq> CHR 0x0A" "c \<noteq> CHR ''-''" "c \<noteq> CHR ''+''"
proof -
  show "ascii c" "\<not> is_space c"
    using assms by (auto simp: is_digit_def digit_value_def ascii_def is_space_def Let_def split: if_splits)
  show "c \<noteq> CHR 0x0A" "c \<noteq> CHR ''-''" "c \<noteq> CHR ''+''"
    using assms sign_not_digit by metis+
qed

lemma decimal_ConsE:
  obtains c cs where "decimal n = c # cs" "is_digit c"
  using decimal_not_Nil[of n] decimal_digits[of n] by (cases "decimal n") auto

lemma SkipSpace_decimal: "SkipSpace (decimal n @ s) = Some (decimal n @ s)"
proof -
  obtain c cs where "decimal n = c # cs" "is_digit c" by (rule decimal_ConsE)
  then show ?thesis using digit_visible SkipSpace_visible by simp
qed

lemma scan_uint_decimal: "n < 2 ^ bits \<Longrightarrow> ends_number s \<Longrightarrow> scan_uint bits (decimal n @ s) = Some (n, s)"
  by (simp add: scan_uint_def SkipSpace_decimal scan_digits_decimal)

lemma scan_int64_FormatInt: "in_int64 i \<Longrightarrow> ends_number s \<Longrightarrow> scan_int64 (FormatInt i @ s) = Some (i, s)"
proof (cases "i < 0")
  case True
  assume "in_int64 i" "ends_number s"
  moreover have "SkipSpace (CHR ''-'' # decimal (nat (- i)) @ s) = Some (CHR ''-'' # decimal (nat (- i)) @ s)"
    by (rule SkipSpace_visible) (simp_all add: ascii_def is_space_def)
  ultimately show ?thesis
    using True by (simp add: scan_int64_def FormatInt_def HasPrefix_def scan_digits_decimal)
next
  case False
  assume a: "in_int64 i" "ends_number s"
  obtain c cs where "decimal (nat i) = c # cs" "is_digit c" by (rule decimal_ConsE)
  then have "\<not> HasPrefix (decimal (nat i) @ s) ''-''" "\<not> HasPrefix (decimal (nat i) @ s) ''+''"
    using digit_visible by (simp_all add: HasPrefix_def)
  with False a show ?thesis
    by (simp add: scan_int64_def FormatInt_def SkipSpace_decimal scan_digits_decimal)
qed

lemma scan_param_uint:
  "uint w < 2 ^ bits \<Longrightarrow> ends_number s \<Longrightarrow>
     scan_param lit bits (lit @ FormatInt (uint w) @ s) = Some (unat w, s)"
proof -
  assume "uint w < 2 ^ bits" and e: "ends_number s"
  then have "int (unat w) < int (2 ^ bits)" by simp
  then have "unat w < 2 ^ bits" by (simp only: of_nat_less_iff)
  with e show ?thesis by (simp add: scan_param_def FormatInt_def scan_uint_decimal)
qed

section \<open>Lemmas on the PHC format\<close>

definition phc_params :: "PasswordConfig \<Rightarrow> string" where
  "phc_params cfg =
     ''m='' @ FormatInt (uint (Memory cfg)) @ '',t='' @ FormatInt (uint (Iterations cfg)) @
     '',p='' @ FormatInt (uint (Parallelism cfg))"

lemma scan_params_phc:
  "scan_params (phc_params cfg) = Some (unat (Memory cfg), unat (Iterations cfg), unat (Parallelism cfg))"
proof -
  have sep: "ends_number ('',t='' @ s)" "ends_number ('',p='' @ s)" for s
    by (simp_all add: is_digit_def digit_value_def)
  have bounds: "uint (w :: 32 word) < 2 ^ 32" "uint (v :: 8 word) < 2 ^ 8" for w v
    using uint_lt2p[of w] uint_lt2p[of v] by simp_all
  have end_: "scan_param '',p='' 8 ('',p='' @ FormatInt (uint (Parallelism cfg))) = Some (unat (Parallelism cfg), [])"
    using scan_param_uint[OF bounds(2), of "[]" "'',p=''" "Parallelism cfg"] by simp
  show ?thesis
    unfolding scan_params_def phc_params_def
    by (simp only: scan_param_uint[OF bounds(1) sep(1)] scan_param_uint[OF bounds(1) sep(2)] end_
        option.case prod.case)
qed

definition phc :: "string \<Rightarrow> string \<Rightarrow> string \<Rightarrow> string \<Rightarrow> string" where
  "phc version params salt hash =
     CHR ''$'' # ''argon2id'' @ CHR ''$'' # version @ CHR ''$'' # params @
     CHR ''$'' # RawEncodeToString base64_std salt @ CHR ''$'' # RawEncodeToString base64_std hash"

lemma encodeHash_phc:
  "encodeHash lib hash salt cfg = phc (''v='' @ FormatInt (sint (argon2_Version lib))) (phc_params cfg) salt hash"
  by (simp add: encodeHash_def phc_def phc_params_def)

lemma base64_no_dollar: "CHR ''$'' \<notin> set (RawEncodeToString base64_std s)"
  using b64std.set_encode[of s] base64_std_facts(5) by blast

lemma Split_phc:
  assumes "CHR ''$'' \<notin> set version" "CHR ''$'' \<notin> set params"
  shows "Split (CHR ''$'') (phc version params salt hash) =
     [[], ''argon2id'', version, params, RawEncodeToString base64_std salt, RawEncodeToString base64_std hash]"
proof -
  have first: "Split (CHR ''$'') (CHR ''$'' # s) = [] # Split (CHR ''$'') s" for s by simp
  have tag: "CHR ''$'' \<notin> set ''argon2id''" by simp
  show ?thesis
    unfolding phc_def first Split_append[OF tag] Split_append[OF assms(1)] Split_append[OF assms(2)]
      Split_append[OF base64_no_dollar] Split_last[OF base64_no_dollar] by (rule refl)
qed

lemma FormatInt_no_dollar [simp]: "CHR ''$'' \<notin> set (FormatInt i)"
  using FormatInt_chars[of "CHR ''$''" i] by (auto simp: is_digit_def digit_value_def)

lemma phc_params_no_dollar: "CHR ''$'' \<notin> set (phc_params cfg)"
  by (simp add: phc_params_def)

definition decoded_config :: "PasswordConfig \<Rightarrow> string \<Rightarrow> string \<Rightarrow> PasswordConfig" where
  "decoded_config cfg salt hash =
     cfg\<lparr>SaltLength := of_nat (length salt), KeyLength := of_nat (length hash)\<rparr>"

lemma decodeHash_phc:
  assumes "scan_version version \<noteq> None" "CHR ''$'' \<notin> set version"
  shows "decodeHash (phc version (phc_params cfg) salt hash) = Inr (decoded_config cfg salt hash, salt, hash)"
proof -
  obtain v where "scan_version version = Some v" using assms(1) by blast
  then show ?thesis
    by (simp add: decodeHash_def Split_phc[OF assms(2) phc_params_no_dollar] scan_params_phc
        b64std.decode_encode decoded_config_def)
qed

lemma scan_version_FormatInt: "in_int64 i \<Longrightarrow> scan_version (''v='' @ FormatInt i) = Some i"
  using scan_int64_FormatInt[of i "[]"] by (simp only: scan_version_def scan_literal_append) simp

lemma decodeHash_version:
  "in_int64 i \<Longrightarrow> decodeHash (phc (''v='' @ FormatInt i) (phc_params cfg) salt hash) =
     Inr (decoded_config cfg salt hash, salt, hash)"
  by (rule decodeHash_phc) (simp_all add: scan_version_FormatInt del: append_Cons)

lemma decodeHash_encodeHash:
  "decodeHash (encodeHash lib hash salt cfg) = Inr (decoded_config cfg salt hash, salt, hash)"
proof -
  have "in_int64 (sint (argon2_Version lib))"
    using sint_ge[of "argon2_Version lib"] sint_lt[of "argon2_Version lib"] by (simp add: int64_defs)
  then show ?thesis unfolding encodeHash_phc by (rule decodeHash_version)
qed

section \<open>Properties\<close>

text \<open>What the documentation of \<open>argon2.IDKey\<close> promises: a key of the length asked for.\<close>

definition key_length_law :: "argon2 \<Rightarrow> bool" where
  "key_length_law lib \<longleftrightarrow> (\<forall>password salt t m p n k.
     argon2_IDKey lib password salt t m p n = Ret k \<longrightarrow> length k = unat n)"

definition derive :: "argon2 \<Rightarrow> PasswordConfig \<Rightarrow> string \<Rightarrow> string \<Rightarrow> string outcome" where
  "derive lib cfg salt password =
     argon2_IDKey lib password salt (Iterations cfg) (Memory cfg) (Parallelism cfg) (KeyLength cfg)"

lemma HashPassword_cases:
  assumes "HashPasswordWithConfig lib password cfg rand = Ret (Inr encoded)"
  obtains hash where "derive lib cfg (take (unat (SaltLength cfg)) rand) password = Ret hash"
    "encoded = encodeHash lib hash (take (unat (SaltLength cfg)) rand) cfg"
    "unat (SaltLength cfg) \<le> length rand"
  using assms by (auto simp: HashPasswordWithConfig_def derive_def Let_def split: if_splits)

lemma VerifyPassword_hashed:
  assumes "HashPasswordWithConfig lib password cfg rand = Ret (Inr encoded)" and "key_length_law lib"
  shows "VerifyPassword lib password encoded = Ret (Inr True)"
    and "VerifyPassword lib attempt encoded =
      (let key = derive lib cfg (take (unat (SaltLength cfg)) rand) in
       bind_outcome (key attempt) (\<lambda>k. Ret (Inr (key password = Ret k))))"
proof -
  let ?salt = "take (unat (SaltLength cfg)) rand"
  obtain hash where h: "derive lib cfg ?salt password = Ret hash" "encoded = encodeHash lib hash ?salt cfg"
    using assms(1) by (rule HashPassword_cases)
  then have "length hash = unat (KeyLength cfg)"
    using assms(2) by (auto simp: key_length_law_def derive_def)
  then have "derive lib (decoded_config cfg ?salt hash) ?salt pw = derive lib cfg ?salt pw" for pw
    by (simp add: derive_def decoded_config_def)
  then have "VerifyPassword lib pw encoded = bind_outcome (derive lib cfg ?salt pw) (\<lambda>k. Ret (Inr (hash = k)))" for pw
    by (simp add: VerifyPassword_def h(2) decodeHash_encodeHash derive_def[symmetric])
  with h(1) show "VerifyPassword lib password encoded = Ret (Inr True)"
    "VerifyPassword lib attempt encoded =
      (let key = derive lib cfg ?salt in bind_outcome (key attempt) (\<lambda>k. Ret (Inr (key password = Ret k))))"
    by (simp_all add: Let_def)
qed

text \<open>
  A stored hash can be read back. Decoding an encoded hash gives exactly the salt, the hash and
  the cost parameters it was made of, for every configuration and every salt and hash, the lengths
  being those of the decoded byte strings.
\<close>

theorem decodeHash_inverts_encodeHash:
  "decodeHash (encodeHash lib hash salt cfg) =
     Inr (\<lparr>Memory = Memory cfg, Iterations = Iterations cfg, Parallelism = Parallelism cfg,
           SaltLength = of_nat (length salt), KeyLength = of_nat (length hash)\<rparr>, salt, hash)"
  by (cases cfg) (simp add: decodeHash_encodeHash decoded_config_def)

text \<open>
  C28: password verification compares derived keys. A hash made from a password with any
  configuration accepts that password; any other password gets the verdict whether the key derived
  from it with the same salt and parameters is the same key, and no error (a panic of the
  derivation apart).
\<close>

theorem verification_of_hashed_password:
  assumes "HashPasswordWithConfig lib password cfg rand = Ret (Inr encoded)" and "key_length_law lib"
  shows "VerifyPassword lib password encoded = Ret (Inr True) \<and>
    VerifyPassword lib attempt encoded =
      (let key = derive lib cfg (take (unat (SaltLength cfg)) rand) in
       bind_outcome (key attempt) (\<lambda>k. Ret (Inr (key password = Ret k))))"
  using VerifyPassword_hashed[OF assms] by blast

text \<open>A derivation function that is the password itself, filled up to the length.\<close>

definition padding_argon2 :: argon2 where
  "padding_argon2 = \<lparr>argon2_Version = 19,
     argon2_IDKey = (\<lambda>password salt t m p n. Ret (take (unat n) (password @ replicate (unat n) (CHR ''x''))))\<rparr>"

lemma verification_of_hashed_password_witness:
  "\<exists>encoded. HashPasswordWithConfig padding_argon2 ''pw'' DefaultPasswordConfig (replicate 16 (CHR ''s'')) = Ret (Inr encoded) \<and>
     VerifyPassword padding_argon2 ''pw'' encoded = Ret (Inr True) \<and>
     VerifyPassword padding_argon2 ''PW'' encoded = Ret (Inr False)"
proof -
  obtain encoded where e:
    "HashPasswordWithConfig padding_argon2 ''pw'' DefaultPasswordConfig (replicate 16 (CHR ''s'')) = Ret (Inr encoded)"
    by (simp add: HashPasswordWithConfig_def padding_argon2_def DefaultPasswordConfig_def)
  have law: "key_length_law padding_argon2" by (auto simp: key_length_law_def padding_argon2_def)
  from verification_of_hashed_password[OF e law, of "''PW''"] e show ?thesis
    by (simp add: derive_def padding_argon2_def DefaultPasswordConfig_def)
qed

text \<open>
  Tokens carry all their random bytes. A generated token has four characters for every three
  bytes, only characters that are safe in a URL, and decodes to the bytes it was drawn from, so
  that different random bytes give different tokens; \<open>MustGenerateToken\<close> returns the same one.
\<close>

theorem token_carries_randomness:
  assumes "GenerateToken len rand = Ret (Inr token)"
  shows "length token = (4 * nat len + 2) div 3 \<and> set token \<subseteq> set base64_url \<and>
    RawDecodeString base64_url token = Some (take (nat len) rand) \<and>
    MustGenerateToken len rand = Ret token"
proof -
  from assms have "nat len \<le> length rand" "token = RawEncodeToString base64_url (take (nat len) rand)"
    by (auto simp: GenerateToken_def split: if_splits)
  with assms show ?thesis
    using b64url.set_encode by (simp add: length_RawEncodeToString b64url.decode_encode MustGenerateToken_def)
qed

lemma token_carries_randomness_witness:
  "GenerateToken 4 ''wxyz!'' = Ret (Inr ''d3h5eg'') \<and> RawDecodeString base64_url ''d3h5eg'' = Some (take 4 ''wxyz!'')"
proof -
  have g: "GenerateToken 4 ''wxyz!'' = Ret (Inr ''d3h5eg'')" by code_simp
  have "nat 4 = 4" by simp
  with g token_carries_randomness[OF g] show ?thesis by metis
qed

text \<open>The wrappers of bcrypt change nothing but the default cost and the form of a mismatch.\<close>

lemma bcrypt_roundtrip:
  assumes "\<And>h. GenerateFromPassword lib password (if cost \<le> 0 then bcrypt_DefaultCost lib else cost) rand = Inr h \<Longrightarrow>
      CompareHashAndPassword lib h password = None \<and> CompareHashAndPassword lib h other = Some ErrMismatchedHashAndPassword"
    and "HashPasswordBcrypt lib password cost rand = Inr hash"
  shows "VerifyPasswordBcrypt lib password hash = Inr True \<and> VerifyPasswordBcrypt lib other hash = Inr False"
proof -
  from assms(2) have "GenerateFromPassword lib password (if cost \<le> 0 then bcrypt_DefaultCost lib else cost) rand = Inr hash"
    by (auto simp: HashPasswordBcrypt_def Let_def split: sum.splits)
  from assms(1)[OF this] show ?thesis by (simp add: VerifyPasswordBcrypt_def)
qed


text \<open>What the documentation of \<open>argon2.IDKey\<close> says of its costs: it panics when one is zero.\<close>

definition zero_cost_panics :: "argon2 \<Rightarrow> bool" where
  "zero_cost_panics lib \<longleftrightarrow> (\<forall>password salt t m p n. t = 0 \<or> p = 0 \<longrightarrow> argon2_IDKey lib password salt t m p n = Panic)"

lemma length_Split: "length (Split sep s) = Suc (length (filter (\<lambda>c. c = sep) s))"
proof (induction s)
  case (Cons c cs)
  then show ?case by (cases "Split sep cs") auto
qed simp

text \<open>
  C29: what happens to stored hashes that are broken. A string without exactly five dollar signs is
  refused as invalid, and no other error than that is ever returned. But the costs are not checked:
  a hash that names zero iterations or zero threads makes the verification panic instead; and the
  version is not looked at: hashes that differ in it only get the same verdict.
\<close>

theorem broken_hashes:
  assumes "zero_cost_panics lib"
  shows "(length (filter (\<lambda>c. c = CHR ''$'') encoded) \<noteq> 5 \<longrightarrow>
      VerifyPassword lib password encoded = Ret (Inl ErrInvalidHash)) \<and>
    (VerifyPassword lib password encoded = Ret (Inl err) \<longrightarrow> err = ErrInvalidHash) \<and>
    (Iterations cfg = 0 \<or> Parallelism cfg = 0 \<longrightarrow>
      VerifyPassword lib password (encodeHash lib hash salt cfg) = Panic) \<and>
    (in_int64 v \<and> in_int64 v' \<longrightarrow>
      VerifyPassword lib password (phc (''v='' @ FormatInt v) (phc_params cfg) salt hash) =
      VerifyPassword lib password (phc (''v='' @ FormatInt v') (phc_params cfg) salt hash))"
proof (intro conjI impI)
  assume "length (filter (\<lambda>c. c = CHR ''$'') encoded) \<noteq> 5"
  then have "length (Split (CHR ''$'') encoded) \<noteq> 6" by (simp add: length_Split)
  then show "VerifyPassword lib password encoded = Ret (Inl ErrInvalidHash)"
    by (simp add: VerifyPassword_def decodeHash_def Let_def)
next
  assume e: "VerifyPassword lib password encoded = Ret (Inl err)"
  show "err = ErrInvalidHash"
  proof (cases "decodeHash encoded")
    case (Inl e')
    then have "e' = ErrInvalidHash" by (auto simp: decodeHash_def Let_def split: if_splits option.splits)
    with Inl e show ?thesis by (simp add: VerifyPassword_def)
  next
    case (Inr x)
    obtain cfg' salt' hash' where x: "x = (cfg', salt', hash')" by (cases x) auto
    with Inr e show ?thesis
      by (cases "argon2_IDKey lib password salt' (Iterations cfg') (Memory cfg') (Parallelism cfg') (KeyLength cfg')")
        (simp_all add: VerifyPassword_def)
  qed
next
  assume "Iterations cfg = 0 \<or> Parallelism cfg = 0"
  with assms show "VerifyPassword lib password (encodeHash lib hash salt cfg) = Panic"
    by (auto simp: VerifyPassword_def decodeHash_encodeHash decoded_config_def zero_cost_panics_def)
next
  assume "in_int64 v \<and> in_int64 v'"
  then show "VerifyPassword lib password (phc (''v='' @ FormatInt v) (phc_params cfg) salt hash) =
      VerifyPassword lib password (phc (''v='' @ FormatInt v') (phc_params cfg) salt hash)"
    unfolding VerifyPassword_def by (simp only: decodeHash_version)
qed

text \<open>The derivation of the example, with the panics.\<close>

definition strict_argon2 :: argon2 where
  "strict_argon2 = padding_argon2\<lparr>argon2_IDKey := (\<lambda>password salt t m p n.
     if t = 0 \<or> p = 0 then Panic else argon2_IDKey padding_argon2 password salt t m p n)\<rparr>"

definition free_config :: PasswordConfig where
  "free_config = \<lparr>Memory = 8, Iterations = 0, Parallelism = 1, SaltLength = 3, KeyLength = 3\<rparr>"

lemma broken_hashes_witness:
  "VerifyPassword strict_argon2 ''pw'' ''plaintext'' = Ret (Inl ErrInvalidHash) \<and>
   encodeHash strict_argon2 ''kkk'' ''sss'' free_config =
     ''$argon2id$v=19$m=8,t=0,p=1$c3Nz$a2tr'' \<and>
   VerifyPassword strict_argon2 ''pw'' ''$argon2id$v=19$m=8,t=0,p=1$c3Nz$a2tr'' = Panic"
proof -
  have law: "zero_cost_panics strict_argon2" by (auto simp: zero_cost_panics_def strict_argon2_def)
  have e: "encodeHash strict_argon2 ''kkk'' ''sss'' free_config =
      ''$argon2id$v=19$m=8,t=0,p=1$c3Nz$a2tr''"
    by code_simp
  have "length (filter (\<lambda>c. c = CHR ''$'') ''plaintext'') \<noteq> 5" by simp
  moreover have "Iterations free_config = 0" by (simp add: free_config_def)
  ultimately show ?thesis
    using broken_hashes[OF law, of "''plaintext''" "''pw''"]
      broken_hashes[OF law, where cfg = free_config and hash = "''kkk''"
        and salt = "''sss''" and password = "''pw''"] e by metis
qed

end
