(* ===== verification/CryptoKeys.thy ===== *)
theory CryptoKeys
  imports Passwords
begin

text \<open>
  Key pairs and their PEM form (\<open>crypto/keys.go\<close>). The packages \<open>crypto/rsa\<close>, \<open>crypto/ecdsa\<close>,
  \<open>crypto/x509\<close> and \<open>encoding/pem\<close> do the work; what the functions call of them is the record
  \<open>keylib\<close>. Keys are opaque, an ECDSA key with its curve, as in \<open>Jwt\<close>; the pointers handed to the
  functions are not nil.
\<close>

datatype x509_private_key = RSA_private string | ECDSA_private "curve \<times> string" | Other_private string
datatype x509_public_key = RSA_public string | ECDSA_public "curve \<times> string" | Other_public string

record pem_Block =
  Block_Type :: string
  Block_Bytes :: string

text \<open>Generating a key returns the private key, or fails; its field \<open>PublicKey\<close> is the public one.\<close>

record keylib =
  rsa_GenerateKey :: "int \<Rightarrow> string \<Rightarrow> string + string"
  rsa_PublicKey :: "string \<Rightarrow> string"
  ecdsa_GenerateKey :: "curve \<Rightarrow> string \<Rightarrow> string + (curve \<times> string)"
  ecdsa_PublicKey :: "curve \<times> string \<Rightarrow> curve \<times> string"
  MarshalPKCS8PrivateKey :: "x509_private_key \<Rightarrow> string + string"
  MarshalPKIXPublicKey :: "x509_public_key \<Rightarrow> string + string"
  ParsePKCS8PrivateKey :: "string \<Rightarrow> string + x509_private_key"
  ParsePKIXPublicKey :: "string \<Rightarrow> string + x509_public_key"
  EncodeToMemory :: "pem_Block \<Rightarrow> string"
  pem_Decode :: "string \<Rightarrow> pem_Block option"

definition GenerateRSAKeyPair :: "keylib \<Rightarrow> int \<Rightarrow> string \<Rightarrow> crypto_error + string \<times> string" where
  "GenerateRSAKeyPair lib bits rand =
     (case rsa_GenerateKey lib bits rand of
        Inl err \<Rightarrow> Inl (ErrX509 err)
      | Inr priv \<Rightarrow> Inr (priv, rsa_PublicKey lib priv))"

definition GenerateECDSAKeyPair ::
  "keylib \<Rightarrow> curve \<Rightarrow> string \<Rightarrow> crypto_error + (curve \<times> string) \<times> (curve \<times> string)" where
  "GenerateECDSAKeyPair lib curve rand =
     (case ecdsa_GenerateKey lib curve rand of
        Inl err \<Rightarrow> Inl (ErrX509 err)
      | Inr priv \<Rightarrow> Inr (priv, ecdsa_PublicKey lib priv))"

section \<open>Export\<close>

definition RSAPrivateKeyToPEM :: "keylib \<Rightarrow> string \<Rightarrow> crypto_error + string" where
  "RSAPrivateKeyToPEM lib key =
     (case MarshalPKCS8PrivateKey lib (RSA_private key) of
        Inl err \<Rightarrow> Inl (ErrX509 err)
      | Inr der \<Rightarrow> Inr (EncodeToMemory lib \<lparr>Block_Type = ''PRIVATE KEY'', Block_Bytes = der\<rparr>))"

definition RSAPublicKeyToPEM :: "keylib \<Rightarrow> string \<Rightarrow> crypto_error + string" where
  "RSAPublicKeyToPEM lib key =
     (case MarshalPKIXPublicKey lib (RSA_public key) of
        Inl err \<Rightarrow> Inl (ErrX509 err)
      | Inr der \<Rightarrow> Inr (EncodeToMemory lib \<lparr>Block_Type = ''PUBLIC KEY'', Block_Bytes = der\<rparr>))"

definition ECDSAPrivateKeyToPEM :: "keylib \<Rightarrow> curve \<times> string \<Rightarrow> crypto_error + string" where
  "ECDSAPrivateKeyToPEM lib key =
     (case MarshalPKCS8PrivateKey lib (ECDSA_private key) of
        Inl err \<Rightarrow> Inl (ErrX509 err)
      | Inr der \<Rightarrow> Inr (EncodeToMemory lib \<lparr>Block_Type = ''PRIVATE KEY'', Block_Bytes = der\<rparr>))"

definition ECDSAPublicKeyToPEM :: "keylib \<Rightarrow> curve \<times> string \<Rightarrow> crypto_error + string" where
  "ECDSAPublicKeyToPEM lib key =
     (case MarshalPKIXPublicKey lib (ECDSA_public key) of
        Inl err \<Rightarrow> Inl (ErrX509 err)
      | Inr der \<Rightarrow> Inr (EncodeToMemory lib \<lparr>Block_Type = ''PUBLIC KEY'', Block_Bytes = der\<rparr>))"

section \<open>Import\<close>

definition ParseRSAPrivateKeyPEM :: "keylib \<Rightarrow> string \<Rightarrow> crypto_error + string" where
  "ParseRSAPrivateKeyPEM lib data =
     (case pem_Decode lib data of
        None \<Rightarrow> Inl (ErrPEM ''crypto: failed to decode PEM block'')
      | Some block \<Rightarrow>
          (case ParsePKCS8PrivateKey lib (Block_Bytes block) of
             Inl err \<Rightarrow> Inl (ErrX509 err)
           | Inr key \<Rightarrow>
               (case key of
                  RSA_private rsaKey \<Rightarrow> Inr rsaKey
                | _ \<Rightarrow> Inl (ErrPEM ''crypto: PEM block does not contain an RSA private key''))))"

definition ParseRSAPublicKeyPEM :: "keylib \<Rightarrow> string \<Rightarrow> crypto_error + string" where
  "ParseRSAPublicKeyPEM lib data =
     (case pem_Decode lib data of
        None \<Rightarrow> Inl (ErrPEM ''crypto: failed to decode PEM block'')
      | Some block \<Rightarrow>
          (case ParsePKIXPublicKey lib (Block_Bytes block) of
             Inl err \<Rightarrow> Inl (ErrX509 err)
           | Inr key \<Rightarrow>
               (case key of
                  RSA_public rsaKey \<Rightarrow> Inr rsaKey
                | _ \<Rightarrow> Inl (ErrPEM ''crypto: PEM block does not contain an RSA public key''))))"

definition ParseECDSAPrivateKeyPEM :: "keylib \<Rightarrow> string \<Rightarrow> crypto_error + (curve \<times> string)" where
  "ParseECDSAPrivateKeyPEM lib data =
     (case pem_Decode lib data of
        None \<Rightarrow> Inl (ErrPEM ''crypto: failed to decode PEM block'')
      | Some block \<Rightarrow>
          (case ParsePKCS8PrivateKey lib (Block_Bytes block) of
             Inl err \<Rightarrow> Inl (ErrX509 err)
           | Inr key \<Rightarrow>
               (case key of
                  ECDSA_private ecKey \<Rightarrow> Inr ecKey
                | _ \<Rightarrow> Inl (ErrPEM ''crypto: PEM block does not contain an ECDSA private key''))))"

definition ParseECDSAPublicKeyPEM :: "keylib \<Rightarrow> string \<Rightarrow> crypto_error + (curve \<times> string)" where
  "ParseECDSAPublicKeyPEM lib data =
     (case pem_Decode lib data of
        None \<Rightarrow> Inl (ErrPEM ''crypto: failed to decode PEM block'')
      | Some block \<Rightarrow>
          (case ParsePKIXPublicKey lib (Block_Bytes block) of
             Inl err \<Rightarrow> Inl (ErrX509 err)
           | Inr key \<Rightarrow>
               (case key of
                  ECDSA_public ecKey \<Rightarrow> Inr ecKey
                | _ \<Rightarrow> Inl (ErrPEM ''crypto: PEM block does not contain an ECDSA public key''))))"

section \<open>Round trip\<close>

text \<open>What the documentation of the two libraries promises: encoding can be undone.\<close>

definition keylib_laws :: "keylib \<Rightarrow> bool" where
  "keylib_laws lib \<longleftrightarrow>
     (\<forall>b. pem_Decode lib (EncodeToMemory lib b) = Some b) \<and>
     (\<forall>k der. MarshalPKCS8PrivateKey lib k = Inr der \<longrightarrow> ParsePKCS8PrivateKey lib der = Inr k) \<and>
     (\<forall>k der. MarshalPKIXPublicKey lib k = Inr der \<longrightarrow> ParsePKIXPublicKey lib der = Inr k)"

lemmas pem_defs =
  RSAPrivateKeyToPEM_def RSAPublicKeyToPEM_def ECDSAPrivateKeyToPEM_def ECDSAPublicKeyToPEM_def
  ParseRSAPrivateKeyPEM_def ParseRSAPublicKeyPEM_def ParseECDSAPrivateKeyPEM_def ParseECDSAPublicKeyPEM_def

lemma RSA_private_pem:
  assumes "keylib_laws lib" "RSAPrivateKeyToPEM lib key = Inr pem"
  shows "ParseRSAPrivateKeyPEM lib pem = Inr key"
    "\<exists>msg. ParseECDSAPrivateKeyPEM lib pem = Inl (ErrPEM msg)"
  using assms by (auto simp: keylib_laws_def pem_defs split: sum.splits)

lemma RSA_public_pem:
  assumes "keylib_laws lib" "RSAPublicKeyToPEM lib key = Inr pem"
  shows "ParseRSAPublicKeyPEM lib pem = Inr key"
    "\<exists>msg. ParseECDSAPublicKeyPEM lib pem = Inl (ErrPEM msg)"
  using assms by (auto simp: keylib_laws_def pem_defs split: sum.splits)

lemma ECDSA_private_pem:
  assumes "keylib_laws lib" "ECDSAPrivateKeyToPEM lib key = Inr pem"
  shows "ParseECDSAPrivateKeyPEM lib pem = Inr key"
    "\<exists>msg. ParseRSAPrivateKeyPEM lib pem = Inl (ErrPEM msg)"
  using assms by (auto simp: keylib_laws_def pem_defs split: sum.splits)

lemma ECDSA_public_pem:
  assumes "keylib_laws lib" "ECDSAPublicKeyToPEM lib key = Inr pem"
  shows "ParseECDSAPublicKeyPEM lib pem = Inr key"
    "\<exists>msg. ParseRSAPublicKeyPEM lib pem = Inl (ErrPEM msg)"
  using assms by (auto simp: keylib_laws_def pem_defs split: sum.splits)


text \<open>A library with a readable encoding: a tag, and the length of the type in unary.\<close>

fun curve_tag :: "curve \<Rightarrow> char" where
  "curve_tag P224 = CHR ''1''"
| "curve_tag P256 = CHR ''2''"
| "curve_tag P384 = CHR ''3''"
| "curve_tag P521 = CHR ''5''"

definition tag_curve :: "char \<Rightarrow> curve" where
  "tag_curve c = (if c = CHR ''1'' then P224 else if c = CHR ''2'' then P256 else if c = CHR ''3'' then P384 else P521)"

lemma tag_curve_tag: "tag_curve (curve_tag c) = c"
  by (cases c) (simp_all add: tag_curve_def)

fun plain_private :: "x509_private_key \<Rightarrow> string + string" where
  "plain_private (RSA_private s) = Inr (CHR ''R'' # s)"
| "plain_private (ECDSA_private (c, s)) = Inr (CHR ''E'' # curve_tag c # s)"
| "plain_private (Other_private s) = Inl ''unknown key type''"

fun plain_public :: "x509_public_key \<Rightarrow> string + string" where
  "plain_public (RSA_public s) = Inr (CHR ''R'' # s)"
| "plain_public (ECDSA_public (c, s)) = Inr (CHR ''E'' # curve_tag c # s)"
| "plain_public (Other_public s) = Inl ''unknown key type''"

definition parse_plain :: "(string \<Rightarrow> 'k) \<Rightarrow> (curve \<times> string \<Rightarrow> 'k) \<Rightarrow> string \<Rightarrow> string + 'k" where
  "parse_plain rsa ec s =
     (case s of
        [] \<Rightarrow> Inl ''empty''
      | t # r \<Rightarrow>
          if t = CHR ''R'' then Inr (rsa r)
          else (case r of [] \<Rightarrow> Inl ''truncated'' | c # r' \<Rightarrow> Inr (ec (tag_curve c, r'))))"

definition plain_pem :: "pem_Block \<Rightarrow> string" where
  "plain_pem b = replicate (length (Block_Type b)) (CHR ''-'') @ CHR '' '' # Block_Type b @ Block_Bytes b"

definition parse_plain_pem :: "string \<Rightarrow> pem_Block option" where
  "parse_plain_pem s =
     (let n = length (takeWhile (\<lambda>c. c = CHR ''-'') s); r = drop (Suc n) s in
      if length s < Suc (n + n) then None else Some \<lparr>Block_Type = take n r, Block_Bytes = drop n r\<rparr>)"

definition plain_keylib :: keylib where
  "plain_keylib = \<lparr>rsa_GenerateKey = (\<lambda>bits rand. Inr rand), rsa_PublicKey = id,
     ecdsa_GenerateKey = (\<lambda>c rand. Inr (c, rand)), ecdsa_PublicKey = id,
     MarshalPKCS8PrivateKey = plain_private, MarshalPKIXPublicKey = plain_public,
     ParsePKCS8PrivateKey = parse_plain RSA_private ECDSA_private,
     ParsePKIXPublicKey = parse_plain RSA_public ECDSA_public,
     EncodeToMemory = plain_pem, pem_Decode = parse_plain_pem\<rparr>"

lemma takeWhile_replicate_stop: "x \<noteq> y \<Longrightarrow> takeWhile (\<lambda>c. c = x) (replicate n x @ y # s) = replicate n x"
  by (induction n) simp_all

lemma plain_keylib_laws: "keylib_laws plain_keylib"
proof -
  have "parse_plain_pem (plain_pem b) = Some b" for b
    by (cases b) (simp add: parse_plain_pem_def plain_pem_def takeWhile_replicate_stop Let_def)
  moreover have "parse_plain RSA_private ECDSA_private der = Inr k" if "plain_private k = Inr der" for k der
    using that by (cases k rule: plain_private.cases) (auto simp: parse_plain_def tag_curve_tag)
  moreover have "parse_plain RSA_public ECDSA_public der = Inr k" if "plain_public k = Inr der" for k der
    using that by (cases k rule: plain_public.cases) (auto simp: parse_plain_def tag_curve_tag)
  ultimately show ?thesis by (simp add: keylib_laws_def plain_keylib_def)
qed


end
