(* ===== verification/Json.thy ===== *)
theory Json
  imports Runes "HOL-Library.List_Lexorder" "HOL-Library.Char_ord"
begin

text \<open>
  What the audit log uses of Go's \<open>encoding/json\<close>: the text of a value, with the escaping of strings,
  and a reader that takes such texts apart again. The reader follows the grammar of JSON without
  white space; a number is kept as its literal.
\<close>

section \<open>Values and their text\<close>

datatype json =
    JNull
  | JBool bool
  | JNum string
  | JStr string
  | JArr "json list"
  | JObj "(string \<times> json) list"

definition hex_digit :: "nat \<Rightarrow> char" where
  "hex_digit n = (if n < 10 then char_of (48 + n) else char_of (87 + n))"

text \<open>
  A byte below 128 inside a string. \<open>html\<close> is the encoder's option to escape \<open><\<close>, \<open>>\<close> and \<open>&\<close> too.
\<close>

definition escape_ascii :: "bool \<Rightarrow> char \<Rightarrow> string" where
  "escape_ascii html c =
     (let b = of_char c :: nat in
      if c = CHR 0x22 \<or> c = CHR 0x5C then [CHR 0x5C, c]
      else if 32 \<le> b \<and> \<not> (html \<and> c \<in> {CHR ''<'', CHR ''>'', CHR ''&''}) then [c]
      else if b = 8 then [CHR 0x5C, CHR ''b'']
      else if b = 12 then [CHR 0x5C, CHR ''f'']
      else if b = 10 then [CHR 0x5C, CHR ''n'']
      else if b = 13 then [CHR 0x5C, CHR ''r'']
      else if b = 9 then [CHR 0x5C, CHR ''t'']
      else CHR 0x5C # ''u00'' @ [hex_digit (b div 16), hex_digit (b mod 16)])"

text \<open>
  The rune at the head of a string that does not begin with an ASCII byte, and the number of its
  bytes: an ill-formed byte becomes U+FFFD, the two line separators are escaped.
\<close>

definition escape_rune :: "string \<Rightarrow> string \<times> nat" where
  "escape_rune s =
     (case decode_rune (map of_char s) of
        (r, n) \<Rightarrow>
          if r = 0xFFFD \<and> n = 1 then (CHR 0x5C # ''ufffd'', 1)
          else if r = 0x2028 \<or> r = 0x2029 then (CHR 0x5C # ''u202'' @ [hex_digit (r mod 16)], n)
          else (take n s, n))"

lemma escape_rune_width: "0 < snd (escape_rune s)"
  using decode_rune_width[of "map of_char s"] by (auto simp: escape_rune_def split: prod.split)

function escape :: "bool \<Rightarrow> string \<Rightarrow> string" where
  "escape html [] = []"
| "escape html (c # cs) =
     (if ascii c then escape_ascii html c @ escape html cs
      else fst (escape_rune (c # cs)) @ escape html (drop (snd (escape_rune (c # cs))) (c # cs)))"
  by pat_completeness auto
termination
  by (relation "measure (length \<circ> snd)") (auto simp: escape_rune_width)

definition string_text :: "bool \<Rightarrow> string \<Rightarrow> string" where
  "string_text html s = CHR 0x22 # escape html s @ [CHR 0x22]"

fun json_text :: "bool \<Rightarrow> json \<Rightarrow> string" where
  "json_text html JNull = ''null''"
| "json_text html (JBool b) = (if b then ''true'' else ''false'')"
| "json_text html (JNum lit) = lit"
| "json_text html (JStr s) = string_text html s"
| "json_text html (JArr js) = ''['' @ join '','' (map (json_text html) js) @ '']''"
| "json_text html (JObj kvs) =
     [CHR 0x7B] @ join '','' (map (\<lambda>(k, v). string_text html k @ '':'' @ json_text html v) kvs) @ [CHR 0x7D]"

section \<open>Reading back\<close>

definition hex_value :: "char \<Rightarrow> nat option" where
  "hex_value c =
     (let n = of_char c in
      if 48 \<le> n \<and> n \<le> 57 then Some (n - 48)
      else if 97 \<le> n \<and> n \<le> 102 then Some (n - 87)
      else if 65 \<le> n \<and> n \<le> 70 then Some (n - 55)
      else None)"

fun hex4 :: "string \<Rightarrow> (nat \<times> string) option" where
  "hex4 (a # b # c # d # cs) =
     (case (hex_value a, hex_value b, hex_value c, hex_value d) of
        (Some x, Some y, Some z, Some w) \<Rightarrow> Some (((x * 16 + y) * 16 + z) * 16 + w, cs)
      | _ \<Rightarrow> None)"
| "hex4 _ = None"

lemma hex4_length: "hex4 s = Some (n, r) \<Longrightarrow> length r < length s"
  by (induction s rule: hex4.induct) (auto split: option.splits)

text \<open>UTF-8 of a code below 65536; a surrogate on its own is the replacement character.\<close>

definition utf8 :: "nat \<Rightarrow> string" where
  "utf8 r =
     (let r = (if 0xD800 \<le> r \<and> r \<le> 0xDFFF then 0xFFFD else r) in
      if r < 0x80 then [char_of r]
      else if r < 0x800 then [char_of (0xC0 + r div 64), char_of (0x80 + r mod 64)]
      else [char_of (0xE0 + r div 4096), char_of (0x80 + r div 64 mod 64), char_of (0x80 + r mod 64)])"

definition unescape :: "char \<Rightarrow> char option" where
  "unescape e =
     (if e \<in> {CHR 0x22, CHR 0x5C, CHR ''/''} then Some e
      else if e = CHR ''b'' then Some (CHR 0x08)
      else if e = CHR ''f'' then Some (CHR 0x0C)
      else if e = CHR ''n'' then Some (CHR 0x0A)
      else if e = CHR ''r'' then Some (CHR 0x0D)
      else if e = CHR ''t'' then Some (CHR 0x09)
      else None)"

definition prepend :: "string \<Rightarrow> (string \<times> string) option \<Rightarrow> (string \<times> string) option" where
  "prepend x = map_option (\<lambda>(s, r). (x @ s, r))"

text \<open>The inside of a string, up to its closing quote.\<close>

function read_chars :: "string \<Rightarrow> (string \<times> string) option" where
  "read_chars [] = None"
| "read_chars (c # cs) =
     (if c = CHR 0x22 then Some ([], cs)
      else if c = CHR 0x5C then
        (case cs of
           [] \<Rightarrow> None
         | e # cs' \<Rightarrow>
             if e = CHR ''u'' then
               (case hex4 cs' of None \<Rightarrow> None | Some (n, r) \<Rightarrow> prepend (utf8 n) (read_chars r))
             else (case unescape e of None \<Rightarrow> None | Some c' \<Rightarrow> prepend [c'] (read_chars cs')))
      else if of_char c < (32 :: nat) then None
      else prepend [c] (read_chars cs))"
  by pat_completeness auto
termination
  by (relation "measure length") (auto dest: hex4_length)

definition number_char :: "char \<Rightarrow> bool" where
  "number_char c \<longleftrightarrow> is_digit c \<or> c \<in> set ''+-.eE''"

definition literal :: "string \<Rightarrow> json \<Rightarrow> string \<Rightarrow> (json \<times> string) option" where
  "literal word j s = (if take (length word) s = word then Some (j, drop (length word) s) else None)"

text \<open>Values, the rest of an array and the rest of an object; the fuel is the length of the text.\<close>

fun read_value :: "nat \<Rightarrow> string \<Rightarrow> (json \<times> string) option"
and read_items :: "nat \<Rightarrow> string \<Rightarrow> (json list \<times> string) option"
and read_members :: "nat \<Rightarrow> string \<Rightarrow> ((string \<times> json) list \<times> string) option" where
  "read_value 0 s = None"
| "read_value (Suc n) s =
     (case s of
        [] \<Rightarrow> None
      | c # cs \<Rightarrow>
          if c = CHR 0x22 then map_option (\<lambda>(x, r). (JStr x, r)) (read_chars cs)
          else if c = CHR ''['' then
            (if take 1 cs = '']'' then Some (JArr [], drop 1 cs)
             else map_option (\<lambda>(js, r). (JArr js, r)) (read_items n cs))
          else if c = CHR 0x7B then
            (if take 1 cs = [CHR 0x7D] then Some (JObj [], drop 1 cs)
             else map_option (\<lambda>(kvs, r). (JObj kvs, r)) (read_members n cs))
          else if c = CHR ''n'' then literal ''null'' JNull s
          else if c = CHR ''t'' then literal ''true'' (JBool True) s
          else if c = CHR ''f'' then literal ''false'' (JBool False) s
          else if number_char c then Some (JNum (takeWhile number_char s), dropWhile number_char s)
          else None)"
| "read_items 0 s = None"
| "read_items (Suc n) s =
     (case read_value n s of
        Some (j, c # r) \<Rightarrow>
          if c = CHR '']'' then Some ([j], r)
          else if c = CHR '','' then map_option (\<lambda>(js, r'). (j # js, r')) (read_items n r)
          else None
      | _ \<Rightarrow> None)"
| "read_members 0 s = None"
| "read_members (Suc n) s =
     (case s of
        [] \<Rightarrow> None
      | q # s' \<Rightarrow>
          if q \<noteq> CHR 0x22 then None
          else (case read_chars s' of
             Some (k, q' # t) \<Rightarrow>
               if q' \<noteq> CHR '':'' then None
               else (case read_value n t of
                  Some (j, c # r) \<Rightarrow>
                    if c = CHR 0x7D then Some ([(k, j)], r)
                    else if c = CHR '','' then map_option (\<lambda>(kvs, r'). ((k, j) # kvs, r')) (read_members n r)
                    else None
                | _ \<Rightarrow> None)
           | _ \<Rightarrow> None))"

definition read_json :: "string \<Rightarrow> json option" where
  "read_json s = (case read_value (length s) s of Some (j, []) \<Rightarrow> Some j | _ \<Rightarrow> None)"

section \<open>Strings come back\<close>

text \<open>The string with every ill-formed byte replaced by U+FFFD; a well-formed one is unchanged.\<close>

definition clean_rune :: "string \<Rightarrow> string" where
  "clean_rune s =
     (case decode_rune (map of_char s) of (r, n) \<Rightarrow> if r = 0xFFFD \<and> n = 1 then utf8 0xFFFD else take n s)"

function clean :: "string \<Rightarrow> string" where
  "clean [] = []"
| "clean (c # cs) =
     (if ascii c then c # clean cs
      else clean_rune (c # cs) @ clean (drop (snd (escape_rune (c # cs))) (c # cs)))"
  by pat_completeness auto
termination
  by (relation "measure length") (auto simp: escape_rune_width)

declare escape.simps(2) [simp del] clean.simps(2) [simp del]

lemma escape_ascii_string: "list_all ascii s \<Longrightarrow> escape html s = concat (map (escape_ascii html) s)"
  by (induction s) (simp_all add: escape.simps)

lemma clean_ascii: "list_all ascii s \<Longrightarrow> clean s = s"
  by (induction s) (simp_all add: clean.simps)

lemma prepend_Some [simp]: "prepend x (Some (s, r)) = Some (x @ s, r)"
  by (simp add: prepend_def)

lemma prepend_prepend [simp]: "prepend x (prepend y p) = prepend (x @ y) p"
  by (simp add: prepend_def option.map_comp comp_def split_def)

lemma prepend_Nil [simp]: "prepend [] p = p"
  by (cases p) (auto simp: prepend_def)

lemma hex_value_digit [simp]: "n < 16 \<Longrightarrow> hex_value (hex_digit n) = Some n"
  by (auto simp: hex_value_def hex_digit_def of_char_of)

lemma utf8_byte: "n < 128 \<Longrightarrow> utf8 n = [char_of n]"
  by (simp add: utf8_def)

lemma read_plain: "c \<noteq> CHR 0x22 \<Longrightarrow> c \<noteq> CHR 0x5C \<Longrightarrow> 32 \<le> (of_char c :: nat) \<Longrightarrow>
    read_chars (c # t) = prepend [c] (read_chars t)"
  by simp

lemma char_of_control:
  "char_of (8 :: nat) = CHR 0x08" "char_of (9 :: nat) = CHR 0x09" "char_of (10 :: nat) = CHR 0x0A"
  "char_of (12 :: nat) = CHR 0x0C" "char_of (13 :: nat) = CHR 0x0D"
  by code_simp+

lemma control_chars:
  "of_char c = (8 :: nat) \<Longrightarrow> c = CHR 0x08" "of_char c = (9 :: nat) \<Longrightarrow> c = CHR 0x09"
  "of_char c = (10 :: nat) \<Longrightarrow> c = CHR 0x0A" "of_char c = (12 :: nat) \<Longrightarrow> c = CHR 0x0C"
  "of_char c = (13 :: nat) \<Longrightarrow> c = CHR 0x0D"
  by (drule arg_cong[where f = char_of], simp add: char_of_control)+

lemma escape_ascii_cases:
  "(c = CHR 0x22 \<or> c = CHR 0x5C) \<or>
   (c \<noteq> CHR 0x22 \<and> c \<noteq> CHR 0x5C \<and> 32 \<le> (of_char c :: nat) \<and> escape_ascii html c = [c]) \<or>
   c \<in> {CHR 0x08, CHR 0x0C, CHR 0x0A, CHR 0x0D, CHR 0x09} \<or>
   escape_ascii html c = CHR 0x5C # ''u00'' @ [hex_digit (of_char c div 16), hex_digit (of_char c mod 16)]"
proof (cases "c = CHR 0x22 \<or> c = CHR 0x5C")
  case False
  note q = this
  show ?thesis
  proof (cases "32 \<le> (of_char c :: nat) \<and> \<not> (html \<and> c \<in> {CHR ''<'', CHR ''>'', CHR ''&''})")
    case True
    have "escape_ascii html c = [c]"
      unfolding escape_ascii_def Let_def if_not_P[OF q] if_P[OF True] by (rule refl)
    with q True show ?thesis by blast
  next
    case False
    show ?thesis
    proof (cases "of_char c \<in> {8, 9, 10, 12, 13 :: nat}")
      case True
      then show ?thesis using control_chars[of c] by blast
    next
      case no: False
      then have n: "(of_char c :: nat) \<noteq> 8" "(of_char c :: nat) \<noteq> 9" "(of_char c :: nat) \<noteq> 10"
        "(of_char c :: nat) \<noteq> 12" "(of_char c :: nat) \<noteq> 13" by auto
      have "escape_ascii html c = CHR 0x5C # ''u00'' @ [hex_digit (of_char c div 16), hex_digit (of_char c mod 16)]"
        unfolding escape_ascii_def Let_def if_not_P[OF q] if_not_P[OF False]
        by (simp only: n if_False)
      then show ?thesis by blast
    qed
  qed
qed blast

lemma read_escape_ascii:
  assumes "ascii c"
  shows "read_chars (escape_ascii html c @ t) = prepend [c] (read_chars t)"
proof -
  let ?b = "of_char c :: nat"
  have b: "?b < 128" using assms by (simp add: ascii_def)
  have c: "c = char_of ?b" by simp
  consider "c = CHR 0x22 \<or> c = CHR 0x5C"
    | "c \<noteq> CHR 0x22" "c \<noteq> CHR 0x5C" "32 \<le> ?b" "escape_ascii html c = [c]"
    | "c \<in> {CHR 0x08, CHR 0x0C, CHR 0x0A, CHR 0x0D, CHR 0x09}"
    | "escape_ascii html c = CHR 0x5C # ''u00'' @ [hex_digit (?b div 16), hex_digit (?b mod 16)]"
    using escape_ascii_cases[of c html] by blast
  then show ?thesis
  proof cases
    case 1
    then show ?thesis by (auto simp: escape_ascii_def unescape_def)
  next
    case 2
    then show ?thesis using read_plain[of c t] by simp
  next
    case 3
    then show ?thesis by (auto simp: escape_ascii_def unescape_def)
  next
    case 4
    have "hex4 (''00'' @ [hex_digit (?b div 16), hex_digit (?b mod 16)] @ t) = Some (?b, t)"
      using b by (simp add: hex_value_def[of "CHR ''0''"])
    then show ?thesis using 4 b c by (simp add: utf8_byte)
  qed
qed

text \<open>The other runes: their bytes are not ASCII, so they can be no quote, backslash or control character.\<close>

lemma continuation_index:
  "continuation (if i < length bs then bs ! i else 0) \<longleftrightarrow> i < length bs \<and> continuation (bs ! i)"
  by (simp add: continuation_def)

lemma decode_rune_cases:
  assumes "bs \<noteq> []" "128 \<le> bs ! 0" "decode_rune bs = (r, n)"
  shows "(r, n) = (0xFFFD, 1) \<or>
    n = 2 \<and> 1 < length bs \<and> r = (bs ! 0 - 0xC0) * 64 + (bs ! 1 - 0x80) \<and> bs ! 0 \<le> 0xDF \<and> continuation (bs ! 1) \<or>
    n = 3 \<and> 2 < length bs \<and> r = (bs ! 0 - 0xE0) * 4096 + (bs ! 1 - 0x80) * 64 + (bs ! 2 - 0x80) \<and>
      0xE0 \<le> bs ! 0 \<and> continuation (bs ! 1) \<and> continuation (bs ! 2) \<or>
    n = 4 \<and> 3 < length bs \<and>
      r = (bs ! 0 - 0xF0) * 262144 + (bs ! 1 - 0x80) * 4096 + (bs ! 2 - 0x80) * 64 + (bs ! 3 - 0x80) \<and>
      0xF0 \<le> bs ! 0 \<and> continuation (bs ! 1) \<and> continuation (bs ! 2) \<and> continuation (bs ! 3) \<and>
      (bs ! 0 = 0xF0 \<longrightarrow> 0x90 \<le> bs ! 1)"
  using assms unfolding decode_rune_def Let_def continuation_index
  by (simp split: if_split_asm)

lemma take_one: "take (Suc 0) bs = (if bs = [] then [] else [bs ! 0])"
  by (cases bs) simp_all

lemma take_cases:
  "1 < length bs \<Longrightarrow> take 2 bs = [bs ! 0, bs ! 1]"
  "2 < length bs \<Longrightarrow> take 3 bs = [bs ! 0, bs ! 1, bs ! 2]"
  "3 < length bs \<Longrightarrow> take 4 bs = [bs ! 0, bs ! 1, bs ! 2, bs ! 3]"
  using take_Suc_conv_app_nth[of 1 bs] take_Suc_conv_app_nth[of 2 bs] take_Suc_conv_app_nth[of 3 bs] take_one[of bs]
  by (auto simp: eval_nat_numeral)

lemma decode_rune_bytes:
  assumes "bs \<noteq> []" "128 \<le> bs ! 0" "decode_rune bs = (r, n)"
  shows "\<forall>b \<in> set (take n bs). 128 \<le> b"
    and "r = 0x2028 \<or> r = 0x2029 \<Longrightarrow> take n bs = [0xE2, 0x80, 0x80 + r mod 64]"
proof -
  note cases = decode_rune_cases[OF assms]
  show "\<forall>b \<in> set (take n bs). 128 \<le> b"
    using cases assms(1,2) by (elim disjE conjE) (auto simp: take_one take_cases continuation_def)
  show "take n bs = [0xE2, 0x80, 0x80 + r mod 64]" if r: "r = 0x2028 \<or> r = 0x2029"
    using cases
  proof (elim disjE conjE, goal_cases)
    case 1
    with r show ?case by simp
  next
    case 2
    then have "bs ! 0 - 0xC0 \<le> 31" "bs ! 1 - 0x80 \<le> 63" by (auto simp: continuation_def)
    with 2(3) have "r \<le> 31 * 64 + 63" by linarith
    with r show ?case by simp
  next
    case 3
    then obtain x y z where xyz: "bs ! 0 = 0xE0 + x" "bs ! 1 = 0x80 + y" "bs ! 2 = 0x80 + z"
      by (auto simp: continuation_def dest!: le_Suc_ex)
    with 3 have rz: "r = x * 4096 + y * 64 + z" "y < 64" "z < 64" by (simp_all add: continuation_def)
    with r have x: "x = 2" by linarith
    with rz r have y: "y = 0" by linarith
    with x rz r have "z = 40 \<or> z = 41" "r = 8192 + z" by linarith+
    then have "z = r mod 64" by auto
    note xyz = xyz[unfolded x y this]
    with xyz 3(1) take_cases(2)[OF 3(2)] show ?case by simp
  next
    case 4
    then have "0x10000 \<le> r"
      by (cases "bs ! 0 = 0xF0") (auto simp: continuation_def)
    with r show ?case by simp
  qed
qed

lemma read_high: "list_all (\<lambda>c. \<not> ascii c) x \<Longrightarrow> read_chars (x @ t) = prepend x (read_chars t)"
proof (induction x)
  case (Cons c x)
  then have "\<not> ascii c" by simp
  then have "c \<noteq> CHR 0x22" "c \<noteq> CHR 0x5C" "32 \<le> (of_char c :: nat)" by (auto simp: ascii_def)
  with Cons read_plain[of c "x @ t"] show ?case by simp
qed simp

lemma read_escape_rune:
  assumes "\<not> ascii c"
  shows "read_chars (fst (escape_rune (c # cs)) @ t) = prepend (clean_rune (c # cs)) (read_chars t)"
proof -
  let ?s = "c # cs"
  obtain r n where d: "decode_rune (map of_char ?s) = (r, n)" by fastforce
  have high: "(128 :: nat) \<le> map of_char ?s ! 0" using assms by (simp add: ascii_def)
  consider "r = 0xFFFD \<and> n = 1" | "r = 0x2028 \<or> r = 0x2029"
    | "\<not> (r = 0xFFFD \<and> n = 1)" "\<not> (r = 0x2028 \<or> r = 0x2029)" by blast
  then show ?thesis
  proof cases
    case 1
    have "hex4 (''fffd'' @ t) = Some (0xFFFD, t)" by (simp add: hex_value_def)
    with 1 d show ?thesis by (auto simp: escape_rune_def clean_rune_def simp del: hex4.simps)
  next
    case 2
    then have "map of_char (take n ?s) = [0xE2, 0x80, 0x80 + r mod 64 :: nat]"
      using decode_rune_bytes(2)[OF _ high d] unfolding take_map[symmetric] by blast
    then have "map (char_of :: nat \<Rightarrow> char) (map of_char (take n ?s)) = utf8 r"
      using 2 by (auto simp: utf8_def)
    then have "take n ?s = utf8 r" by (simp add: comp_def)
    moreover have "hex4 (''202'' @ [hex_digit (r mod 16)] @ t) = Some (r, t)"
      using 2 by (auto simp: hex_value_def hex_digit_def)
    ultimately show ?thesis using 2 d by (auto simp: escape_rune_def clean_rune_def simp del: hex4.simps)
  next
    case 3
    have "\<forall>b \<in> set (take n (map of_char ?s)). 128 \<le> (b :: nat)"
      by (rule decode_rune_bytes(1)[OF _ high d]) simp
    then have "list_all (\<lambda>c. \<not> ascii c) (take n ?s)"
      unfolding take_map by (auto simp: list_all_iff ascii_def not_less simp del: list.map)
    then show ?thesis
      unfolding escape_rune_def clean_rune_def d prod.case if_not_P[OF 3(1)] if_not_P[OF 3(2)] fst_conv
      by (rule read_high)
  qed
qed

theorem read_escape: "read_chars (escape html s @ CHR 0x22 # t) = Some (clean s, t)"
proof (induction html s rule: escape.induct)
  case (1 html)
  then show ?case by simp
next
  case (2 html c cs)
  show ?case
  proof (cases "ascii c")
    case True
    with 2(1) show ?thesis by (simp add: escape.simps clean.simps read_escape_ascii)
  next
    case False
    with 2(2) show ?thesis by (simp add: escape.simps clean.simps read_escape_rune)
  qed
qed

section \<open>Values come back\<close>

fun clean_json :: "json \<Rightarrow> json" where
  "clean_json (JStr s) = JStr (clean s)"
| "clean_json (JArr js) = JArr (map clean_json js)"
| "clean_json (JObj kvs) = JObj (map (\<lambda>(k, v). (clean k, clean_json v)) kvs)"
| "clean_json j = j"

text \<open>Number literals are what they should be.\<close>

fun numbers_ok :: "json \<Rightarrow> bool" where
  "numbers_ok (JNum lit) \<longleftrightarrow> lit \<noteq> [] \<and> list_all number_char lit"
| "numbers_ok (JArr js) \<longleftrightarrow> list_all numbers_ok js"
| "numbers_ok (JObj kvs) \<longleftrightarrow> list_all (\<lambda>(k, v). numbers_ok v) kvs"
| "numbers_ok j \<longleftrightarrow> True"

fun items_fuel :: "nat list \<Rightarrow> nat" where
  "items_fuel [] = 0"
| "items_fuel (n # ns) = Suc (max n (items_fuel ns))"

fun fuel :: "json \<Rightarrow> nat" where
  "fuel (JArr js) = Suc (items_fuel (map fuel js))"
| "fuel (JObj kvs) = Suc (items_fuel (map (\<lambda>(k, v). fuel v) kvs))"
| "fuel j = 1"

definition stops_number :: "string \<Rightarrow> bool" where
  "stops_number s \<longleftrightarrow> (case s of [] \<Rightarrow> True | c # _ \<Rightarrow> \<not> number_char c)"

lemma number_char_facts [simp]:
  "\<not> number_char (CHR '','')" "\<not> number_char (CHR '']'')" "\<not> number_char (CHR 0x7D)"
  "\<not> number_char (CHR 0x22)" "\<not> number_char (CHR ''['')" "\<not> number_char (CHR 0x7B)"
  "\<not> number_char (CHR ''n'')" "\<not> number_char (CHR ''t'')" "\<not> number_char (CHR ''f'')"
  by code_simp+

lemma json_text_head:
  "numbers_ok j \<Longrightarrow> \<exists>c t. json_text html j = c # t \<and> c \<noteq> CHR '']''"
proof (cases j)
  case (JNum lit)
  assume "numbers_ok j"
  with JNum obtain c t where "lit = c # t" "number_char c" by (cases lit) auto
  with JNum number_char_facts(2) show ?thesis by (intro exI[of _ c] exI[of _ t]) auto
qed (simp_all add: string_text_def)

lemma takeWhile_number:
  "list_all number_char lit \<Longrightarrow> stops_number r \<Longrightarrow>
     takeWhile number_char (lit @ r) = lit \<and> dropWhile number_char (lit @ r) = r"
  by (induction lit) (auto simp: stops_number_def split: list.splits)

lemma join_Cons: "join sep (x # xs) = x @ (if xs = [] then [] else sep @ join sep xs)"
  by (cases xs) simp_all

lemma read_items_text:
  assumes "js \<noteq> []" and "items_fuel (map fuel js) \<le> n"
    and "\<And>j m r. j \<in> set js \<Longrightarrow> fuel j \<le> m \<Longrightarrow> stops_number r \<Longrightarrow>
      read_value m (json_text html j @ r) = Some (clean_json j, r)"
  shows "read_items n (join '','' (map (json_text html) js) @ CHR '']'' # r) = Some (map clean_json js, r)"
  using assms
proof (induction js arbitrary: n)
  case (Cons j js)
  then obtain m where n: "n = Suc m" "fuel j \<le> m" "items_fuel (map fuel js) \<le> m" by (cases n) auto
  let ?r = "(if js = [] then [] else '','' @ join '','' (map (json_text html) js)) @ CHR '']'' # r"
  have "read_value m (json_text html j @ ?r) = Some (clean_json j, ?r)"
    using n(2) by (intro Cons.prems(3)) (auto simp: stops_number_def)
  moreover have "js \<noteq> [] \<Longrightarrow> read_items m (join '','' (map (json_text html) js) @ CHR '']'' # r) = Some (map clean_json js, r)"
    using n(3) Cons.prems(3) by (intro Cons.IH) simp_all
  ultimately show ?case by (simp add: n(1) join_Cons)
qed simp

lemma read_members_text:
  assumes "kvs \<noteq> []" and "items_fuel (map (\<lambda>(k, v). fuel v) kvs) \<le> n"
    and "\<And>k v m r. (k, v) \<in> set kvs \<Longrightarrow> fuel v \<le> m \<Longrightarrow> stops_number r \<Longrightarrow>
      read_value m (json_text html v @ r) = Some (clean_json v, r)"
  shows "read_members n (join '','' (map (\<lambda>(k, v). string_text html k @ '':'' @ json_text html v) kvs) @ CHR 0x7D # r) =
    Some (map (\<lambda>(k, v). (clean k, clean_json v)) kvs, r)"
  using assms
proof (induction kvs arbitrary: n)
  case (Cons kv kvs)
  obtain k v where kv: "kv = (k, v)" by fastforce
  from Cons kv obtain m where n: "n = Suc m" "fuel v \<le> m" "items_fuel (map (\<lambda>(k, v). fuel v) kvs) \<le> m" by (cases n) auto
  let ?text = "join '','' (map (\<lambda>(k, v). string_text html k @ '':'' @ json_text html v) kvs)"
  let ?r = "(if kvs = [] then [] else '','' @ ?text) @ CHR 0x7D # r"
  have "read_value m (json_text html v @ ?r) = Some (clean_json v, ?r)"
    using n(2) kv by (intro Cons.prems(3)[of k]) (auto simp: stops_number_def)
  moreover have "read_chars (escape html k @ CHR 0x22 # t) = Some (clean k, t)" for t
    by (rule read_escape)
  moreover have "kvs \<noteq> [] \<Longrightarrow> read_members m (?text @ CHR 0x7D # r) =
      Some (map (\<lambda>(k, v). (clean k, clean_json v)) kvs, r)"
    using n(3) Cons.prems(3) by (intro Cons.IH) auto
  moreover have "join '','' (map (\<lambda>(k, v). string_text html k @ '':'' @ json_text html v) (kv # kvs)) @ CHR 0x7D # r =
      CHR 0x22 # escape html k @ CHR 0x22 # CHR '':'' # json_text html v @ ?r"
    by (simp add: kv join_Cons string_text_def[of html k])
  ultimately show ?case
    by (cases "kvs = []") (simp_all add: n(1) kv)
qed simp

lemma read_value_text:
  "numbers_ok j \<Longrightarrow> fuel j \<le> n \<Longrightarrow> stops_number r \<Longrightarrow> read_value n (json_text html j @ r) = Some (clean_json j, r)"
proof (induction j arbitrary: n r)
  case JNull
  then show ?case by (cases n) (simp_all add: literal_def)
next
  case (JBool b)
  then show ?case by (cases n) (simp_all add: literal_def)
next
  case (JNum lit)
  then obtain c cs m where c: "lit = c # cs" "number_char c" "n = Suc m" by (cases lit; cases n) auto
  then have "c \<noteq> CHR 0x22" "c \<noteq> CHR ''[''" "c \<noteq> CHR 0x7B" "c \<noteq> CHR ''n''" "c \<noteq> CHR ''t''" "c \<noteq> CHR ''f''"
    using number_char_facts by metis+
  with c JNum takeWhile_number[of lit r] show ?case by simp
next
  case (JStr s)
  then show ?case by (cases n) (simp_all add: string_text_def read_escape)
next
  case (JArr js)
  then obtain m where m: "n = Suc m" "items_fuel (map fuel js) \<le> m" by (cases n) auto
  show ?case
  proof (cases "js = []")
    case True
    with m show ?thesis by simp
  next
    case False
    let ?t = "join '','' (map (json_text html) js)"
    have "read_items m (?t @ CHR '']'' # r) = Some (map clean_json js, r)"
      using False m(2)
    proof (rule read_items_text)
      fix j k t assume "j \<in> set js" "fuel j \<le> k" "stops_number t"
      then show "read_value k (json_text html j @ t) = Some (clean_json j, t)"
        using JArr.prems(1) by (intro JArr.IH) (simp_all add: list_all_iff)
    qed
    moreover have "take 1 (?t @ CHR '']'' # r) \<noteq> '']''"
    proof -
      obtain j js' where js: "js = j # js'" using False by (cases js) auto
      with JArr.prems(1) json_text_head[of j html] show ?thesis by (auto simp: join_Cons)
    qed
    ultimately show ?thesis using m(1) by simp
  qed
next
  case (JObj kvs)
  then obtain m where m: "n = Suc m" "items_fuel (map (\<lambda>(k, v). fuel v) kvs) \<le> m" by (cases n) auto
  show ?case
  proof (cases "kvs = []")
    case True
    with m show ?thesis by simp
  next
    case False
    let ?t = "join '','' (map (\<lambda>(k, v). string_text html k @ '':'' @ json_text html v) kvs)"
    have "read_members m (?t @ CHR 0x7D # r) = Some (map (\<lambda>(k, v). (clean k, clean_json v)) kvs, r)"
      using False m(2)
    proof (rule read_members_text)
      fix k v i t assume kv: "(k, v) \<in> set kvs" "fuel v \<le> i" "stops_number t"
      have "v \<in> Basic_BNFs.snds (k, v)" by simp
      with kv show "read_value i (json_text html v @ t) = Some (clean_json v, t)"
        using JObj.prems(1) by (intro JObj.IH) (auto simp: list_all_iff)
    qed
    moreover have "take 1 (?t @ CHR 0x7D # r) \<noteq> [CHR 0x7D]"
      using False by (cases kvs) (auto simp: join_Cons string_text_def)
    ultimately show ?thesis using m(1) by simp
  qed
qed

text \<open>The length of the text is fuel enough.\<close>

lemma items_fuel_bound:
  "(\<And>x. x \<in> set xs \<Longrightarrow> f x \<le> length (g x) \<and> g x \<noteq> []) \<Longrightarrow>
     items_fuel (map f xs) \<le> Suc (length (join '','' (map g xs)))"
proof (induction xs)
  case (Cons x xs)
  then have "f x \<le> length (g x)" "g x \<noteq> []" "items_fuel (map f xs) \<le> Suc (length (join '','' (map g xs)))" by auto
  then show ?case by (cases "xs = []") (auto simp: join_Cons length_greater_0_conv[symmetric] simp del: length_greater_0_conv)
qed simp

lemma fuel_length: "numbers_ok j \<Longrightarrow> fuel j \<le> length (json_text html j) \<and> json_text html j \<noteq> []"
proof (induction j)
  case (JNum lit)
  then show ?case by (cases lit) simp_all
next
  case (JArr js)
  then have "items_fuel (map fuel js) \<le> Suc (length (join '','' (map (json_text html) js)))"
    by (intro items_fuel_bound) (auto simp: list_all_iff)
  then show ?case by simp
next
  case (JObj kvs)
  have "items_fuel (map (\<lambda>(k, v). fuel v) kvs) \<le>
      Suc (length (join '','' (map (\<lambda>(k, v). string_text html k @ '':'' @ json_text html v) kvs)))"
  proof (intro items_fuel_bound, clarify)
    fix k v assume kv: "(k, v) \<in> set kvs"
    have "v \<in> Basic_BNFs.snds (k, v)" by simp
    with kv JObj show "fuel v \<le> length (string_text html k @ '':'' @ json_text html v) \<and>
        string_text html k @ '':'' @ json_text html v \<noteq> []"
      by (fastforce simp: list_all_iff)
  qed
  then show ?case by simp
qed (simp_all add: string_text_def)

theorem read_json_text: "numbers_ok j \<Longrightarrow> read_json (json_text html j) = Some (clean_json j)"
  using read_value_text[of j "length (json_text html j)" "[]" html] fuel_length[of j html]
  by (simp add: read_json_def stops_number_def)

section \<open>No control characters\<close>

definition printable :: "string \<Rightarrow> bool" where
  "printable s \<longleftrightarrow> (\<forall>c \<in> set s. 32 \<le> (of_char c :: nat))"

lemma printable_simps [simp]:
  "printable []" "printable (c # s) \<longleftrightarrow> 32 \<le> (of_char c :: nat) \<and> printable s"
  "printable (s @ t) \<longleftrightarrow> printable s \<and> printable t"
  by (auto simp: printable_def)

lemma printable_hex: "n < 16 \<Longrightarrow> 32 \<le> (of_char (hex_digit n) :: nat)"
  by (auto simp: hex_digit_def of_char_of)

lemma printable_escape_ascii: "ascii c \<Longrightarrow> printable (escape_ascii html c)"
proof -
  assume "ascii c"
  then have b: "(of_char c :: nat) < 128" by (simp add: ascii_def)
  consider "c = CHR 0x22 \<or> c = CHR 0x5C"
    | "32 \<le> (of_char c :: nat)" "escape_ascii html c = [c]"
    | "c \<in> {CHR 0x08, CHR 0x0C, CHR 0x0A, CHR 0x0D, CHR 0x09}"
    | "escape_ascii html c = CHR 0x5C # ''u00'' @ [hex_digit (of_char c div 16), hex_digit (of_char c mod 16)]"
    using escape_ascii_cases[of c html] by blast
  then show ?thesis
  proof cases
    case 4
    with b show ?thesis by (simp add: printable_hex)
  qed (auto simp: escape_ascii_def)
qed

lemma printable_escape_rune: "\<not> ascii c \<Longrightarrow> printable (fst (escape_rune (c # cs)))"
proof -
  assume c: "\<not> ascii c"
  obtain r n where d: "decode_rune (map of_char (c # cs)) = (r, n)" by fastforce
  have "(128 :: nat) \<le> map of_char (c # cs) ! 0" using c by (simp add: ascii_def)
  from decode_rune_bytes(1)[OF _ this d] have "\<forall>b \<in> of_char ` set (take n (c # cs)). (128 :: nat) \<le> b"
    by (simp add: take_map del: list.map)
  then have "printable (take n (c # cs))" by (auto simp: printable_def intro: order_trans[of 32 "128 :: nat"])
  then show ?thesis using d by (auto simp: escape_rune_def printable_hex)
qed

lemma printable_escape: "printable (escape html s)"
proof (induction html s rule: escape.induct)
  case (2 html c cs)
  then show ?case by (simp add: escape.simps printable_escape_ascii printable_escape_rune)
qed simp

lemma printable_join: "printable sep \<Longrightarrow> (\<And>x. x \<in> set xs \<Longrightarrow> printable x) \<Longrightarrow> printable (join sep xs)"
  by (induction xs) (simp_all add: join_Cons)

lemma number_char_printable: "number_char c \<Longrightarrow> 32 \<le> (of_char c :: nat)"
  by (auto simp: number_char_def is_digit_def digit_value_def Let_def split: if_splits)

theorem json_text_printable: "numbers_ok j \<Longrightarrow> printable (json_text html j)"
proof (induction j)
  case (JNum lit)
  then show ?case by (auto simp: printable_def list_all_iff number_char_printable)
next
  case (JArr js)
  then show ?case by (auto simp: list_all_iff intro!: printable_join)
next
  case (JObj kvs)
  have "printable (json_text html v)" if "(k, v) \<in> set kvs" for k v
    using JObj(1)[OF that, of v] JObj(2) that by (auto simp: list_all_iff)
  then show ?case by (auto simp: string_text_def printable_escape intro!: printable_join)
qed (simp_all add: string_text_def printable_escape)

end
