(* ===== verification/JsonAny.thy ===== *)
theory JsonAny
  imports Json "HOL-Library.Multiset"
begin

text \<open>
  The dynamic values of Go (\<open>any\<close>) and JSON: what \<open>encoding/json\<close> writes for one, and what it makes of
  a JSON value that is read into an \<open>any\<close>. \<open>other\<close> is what it writes for the types that the model does
  not distinguish (\<open>AOther\<close>), a value or an error; \<open>number\<close> is the \<open>float64\<close> of a number literal.
\<close>

section \<open>Writing\<close>

fun collect :: "('e + 'a) list \<Rightarrow> 'e + 'a list" where
  "collect [] = Inr []"
| "collect (Inl err # xs) = Inl err"
| "collect (Inr x # xs) = map_sum id ((#) x) (collect xs)"

definition with_key :: "string \<times> ('e + json) \<Rightarrow> 'e + string \<times> json" where
  "with_key kv = map_sum id (Pair (fst kv)) (snd kv)"

text \<open>
  A value of the metadata. Maps are written in the order of their keys; a nil slice or map would be
  \<open>null\<close>, the empty lists of the model stand for the others.
\<close>

fun json_of_any :: "(string \<Rightarrow> string \<Rightarrow> string + json) \<Rightarrow> any \<Rightarrow> string + json" where
  "json_of_any other ANil = Inr JNull"
| "json_of_any other (AStr s) = Inr (JStr s)"
| "json_of_any other (ABool b) = Inr (JBool b)"
| "json_of_any other (AInt i) = Inr (JNum (FormatInt i))"
| "json_of_any other (AStrs ss) = Inr (JArr (map JStr ss))"
| "json_of_any other (AList xs) = map_sum id JArr (collect (map (json_of_any other) xs))"
| "json_of_any other (AMap kvs) =
     map_sum id JObj (collect (map with_key (sort_key fst (map (\<lambda>(k, v). (k, json_of_any other v)) kvs))))"
| "json_of_any other (AOther ty v) = other ty v"

definition meta_object :: "(string \<Rightarrow> string \<Rightarrow> string + json) \<Rightarrow> attributes \<Rightarrow> string + json" where
  "meta_object other m =
     map_sum id JObj (collect (map (\<lambda>k. with_key (k, json_of_any other (attr m k))) (sorted_list_of_set (dom m))))"

section \<open>Reading\<close>

text \<open>An \<open>any\<close> that a JSON value is read into. The maps of the model list their keys in order.\<close>

fun any_of_json :: "(string \<Rightarrow> any) \<Rightarrow> json \<Rightarrow> any" where
  "any_of_json number JNull = ANil"
| "any_of_json number (JBool b) = ABool b"
| "any_of_json number (JNum lit) = number lit"
| "any_of_json number (JStr s) = AStr s"
| "any_of_json number (JArr js) = AList (map (any_of_json number) js)"
| "any_of_json number (JObj kvs) = AMap (map (\<lambda>(k, v). (k, any_of_json number v)) kvs)"

text \<open>No object has a key twice; the last value would count then.\<close>

fun unique_keys :: "json \<Rightarrow> bool" where
  "unique_keys (JArr js) \<longleftrightarrow> list_all unique_keys js"
| "unique_keys (JObj kvs) \<longleftrightarrow> distinct (map fst kvs) \<and> list_all (\<lambda>(k, v). unique_keys v) kvs"
| "unique_keys j \<longleftrightarrow> True"

text \<open>
  Values of the types that JSON keeps apart, with texts in UTF-8, and what is left of them after they
  were written and read: an integer becomes a \<open>float64\<close>, a \<open>[]string\<close> a \<open>[]any\<close>.
\<close>

fun plain :: "any \<Rightarrow> bool" where
  "plain (AStr s) \<longleftrightarrow> clean s = s"
| "plain (AStrs ss) \<longleftrightarrow> list_all (\<lambda>s. clean s = s) ss"
| "plain (AList xs) \<longleftrightarrow> list_all plain xs"
| "plain (AMap kvs) \<longleftrightarrow> distinct (map fst kvs) \<and> list_all (\<lambda>(k, v). clean k = k \<and> plain v) kvs"
| "plain (AOther ty v) \<longleftrightarrow> False"
| "plain v \<longleftrightarrow> True"

fun json_view :: "(string \<Rightarrow> any) \<Rightarrow> any \<Rightarrow> any" where
  "json_view number (AInt i) = number (FormatInt i)"
| "json_view number (AStrs ss) = AList (map AStr ss)"
| "json_view number (AList xs) = AList (map (json_view number) xs)"
| "json_view number (AMap kvs) = AMap (sort_key fst (map (\<lambda>(k, v). (k, json_view number v)) kvs))"
| "json_view number v = v"

definition plain_attributes :: "attributes \<Rightarrow> bool" where
  "plain_attributes m \<longleftrightarrow> finite (dom m) \<and> (\<forall>k v. m k = Some v \<longrightarrow> clean k = k \<and> plain v)"

text \<open>
  What is relied on of \<open>json.Marshal\<close> on a map, and of \<open>json.Unmarshal\<close> into one: a text that a JSON
  reader takes for an object is read as that object.
\<close>

definition marshal_law ::
  "(string \<Rightarrow> string \<Rightarrow> string + json) \<Rightarrow> (string \<Rightarrow> any) \<Rightarrow>
     (attributes \<Rightarrow> string + string) \<Rightarrow> (string \<Rightarrow> attributes option) \<Rightarrow> bool" where
  "marshal_law other number marshal unmarshal \<longleftrightarrow>
     (\<forall>m. finite (dom m) \<longrightarrow> marshal m = map_sum id (json_text True) (meta_object other m)) \<and>
     (\<forall>s kvs. read_json s = Some (JObj kvs) \<longrightarrow> unique_keys (JObj kvs) \<longrightarrow>
        unmarshal s = Some (map_of (map (\<lambda>(k, v). (k, any_of_json number v)) kvs)))"

section \<open>Lemmas\<close>

definition numbers_law :: "(string \<Rightarrow> string \<Rightarrow> string + json) \<Rightarrow> bool" where
  "numbers_law other \<longleftrightarrow> (\<forall>ty v j. other ty v = Inr j \<longrightarrow> numbers_ok j)"

lemma map_sum_Inr: "map_sum id f x = Inr y \<longleftrightarrow> (\<exists>z. x = Inr z \<and> y = f z)"
  by (cases x) auto

lemma collect_Inr: "collect xs = Inr ys \<longleftrightarrow> xs = map Inr ys"
proof (induction xs arbitrary: ys rule: collect.induct)
  case (3 x xs)
  then show ?case by (cases ys) (auto simp: map_sum_Inr)
qed auto

lemma with_key_Inr: "with_key (k, x) = Inr kv \<longleftrightarrow> (\<exists>j. x = Inr j \<and> kv = (k, j))"
  by (auto simp: with_key_def map_sum_Inr)

lemma collected_fields:
  assumes "collect (map with_key fs) = Inr kvs" and "\<And>k j. (k, Inr j) \<in> set fs \<Longrightarrow> P j"
  shows "list_all (\<lambda>(k, v). P v) kvs"
proof -
  have fs: "map with_key fs = map Inr kvs" using assms(1) by (simp add: collect_Inr)
  have "P v" if kv: "(k, v) \<in> set kvs" for k v
  proof -
    have "Inr (k, v) \<in> set (map with_key fs)" unfolding fs using kv by auto
    then obtain k' x where "(k', x) \<in> set fs" "with_key (k', x) = Inr (k, v)" by auto
    with assms(2) show ?thesis by (auto simp: with_key_Inr)
  qed
  then show ?thesis by (auto simp: list_all_iff)
qed

lemma numbers_FormatInt: "numbers_ok (JNum (FormatInt i))"
proof -
  have "number_char c" if "c \<in> set (FormatInt i)" for c
    using FormatInt_chars[OF that] by (auto simp: number_char_def)
  then show ?thesis by (auto simp: list_all_iff FormatInt_def)
qed

lemma numbers_any:
  assumes "numbers_law other"
  shows "json_of_any other v = Inr j \<Longrightarrow> numbers_ok j"
proof (induction v arbitrary: j)
  case (AList xs)
  from AList.prems obtain js where js: "map (json_of_any other) xs = map Inr js" "j = JArr js"
    by (auto simp: map_sum_Inr collect_Inr)
  have "numbers_ok y" if "y \<in> set js" for y
  proof -
    have "Inr y \<in> set (map (json_of_any other) xs)" unfolding js(1) using that by simp
    then show ?thesis using AList.IH by auto
  qed
  then show ?case by (simp add: js(2) list_all_iff)
next
  case (AMap kvs)
  from AMap.prems obtain fs where fs: "j = JObj fs"
      "collect (map with_key (sort_key fst (map (\<lambda>(k, v). (k, json_of_any other v)) kvs))) = Inr fs"
    by (auto simp: map_sum_Inr)
  have "list_all (\<lambda>(k, v). numbers_ok v) fs"
    using fs(2)
  proof (rule collected_fields)
    fix k y assume "(k, Inr y) \<in> set (sort_key fst (map (\<lambda>(k, v). (k, json_of_any other v)) kvs))"
    then obtain v where "(k, v) \<in> set kvs" "json_of_any other v = Inr y" by auto
    then show "numbers_ok y" using AMap.IH[of "(k, v)" v] by simp
  qed
  then show ?case by (simp add: fs(1))
next
  case (AOther ty v)
  with assms show ?case by (auto simp: numbers_law_def)
next
  case (AInt i)
  then show ?case using numbers_FormatInt by auto
qed (auto simp: list_all_iff)

lemma insort_key_keys:
  "insort_key fst (k, f v) (map (\<lambda>(k, v). (k, f v)) xs) = map (\<lambda>(k, v). (k, f v)) (insort_key fst (k, v) xs)"
  by (induction xs) auto

lemma sort_key_keys: "sort_key fst (map (\<lambda>(k, v). (k, f v)) xs) = map (\<lambda>(k, v). (k, f v)) (sort_key fst xs)"
  by (induction xs) (auto simp: insort_key_keys)

lemma collect_map_Inr [simp]: "collect (map Inr xs) = Inr xs"
  by (simp add: collect_Inr)

text \<open>The JSON of a plain value.\<close>

fun plain_json :: "any \<Rightarrow> json" where
  "plain_json (AStr s) = JStr s"
| "plain_json (ABool b) = JBool b"
| "plain_json (AInt i) = JNum (FormatInt i)"
| "plain_json (AStrs ss) = JArr (map JStr ss)"
| "plain_json (AList xs) = JArr (map plain_json xs)"
| "plain_json (AMap kvs) = JObj (sort_key fst (map (\<lambda>(k, v). (k, plain_json v)) kvs))"
| "plain_json _ = JNull"

lemma with_key_sorted:
  "map with_key (sort_key fst (map (\<lambda>(k, v). (k, Inr (f v))) kvs)) = map Inr (sort_key fst (map (\<lambda>(k, v). (k, f v)) kvs))"
proof -
  have "map with_key (map (\<lambda>(k, v). (k, Inr (f v))) xs) = map Inr (map (\<lambda>(k, v). (k, f v)) xs)" for xs
    by (induction xs) (auto simp: with_key_def)
  then show ?thesis by (simp only: sort_key_keys)
qed

lemma json_of_plain: "plain v \<Longrightarrow> json_of_any other v = Inr (plain_json v)"
proof (induction v)
  case (AList xs)
  then have "map (json_of_any other) xs = map Inr (map plain_json xs)"
    by (auto simp: list_all_iff)
  then show ?case by (simp del: map_map)
next
  case (AMap kvs)
  have "map (\<lambda>(k, v). (k, json_of_any other v)) kvs = map (\<lambda>(k, v). (k, Inr (plain_json v))) kvs"
    using AMap by (fastforce simp: list_all_iff)
  then show ?case
    by (simp only: json_of_any.simps plain_json.simps with_key_sorted collect_map_Inr map_sum.simps)
qed simp_all

lemma keys_sorted: "distinct (map fst (sort_key fst (map (\<lambda>(k, v). (k, f v)) kvs))) \<longleftrightarrow> distinct (map fst kvs)"
proof -
  have "map fst (sort_key fst (map (\<lambda>(k, v). (k, f v)) kvs)) = map fst (sort_key fst kvs)"
    unfolding sort_key_keys by (simp add: split_def comp_def)
  moreover have "mset (map fst (sort_key fst kvs)) = mset (map fst kvs)" by simp
  then have "distinct (map fst (sort_key fst kvs)) \<longleftrightarrow> distinct (map fst kvs)"
    by (rule mset_eq_imp_distinct_iff)
  ultimately show ?thesis by simp
qed

lemma clean_plain: "plain v \<Longrightarrow> clean_json (plain_json v) = plain_json v"
proof (induction v)
  case (AMap kvs)
  have "map (\<lambda>(k, v). (clean k, clean_json v)) xs = xs"
    if "set xs \<subseteq> set (map (\<lambda>(k, v). (k, plain_json v)) kvs)" for xs
    using that AMap by (induction xs) (fastforce simp: list_all_iff)+
  then show ?case by simp
qed (simp_all add: list_all_iff map_idI)

lemma unique_plain: "plain v \<Longrightarrow> unique_keys (plain_json v)"
proof (induction v)
  case (AMap kvs)
  then show ?case by (fastforce simp: keys_sorted list_all_iff)
qed (simp_all add: list_all_iff)

lemma numbers_plain: "plain v \<Longrightarrow> numbers_ok (plain_json v)"
proof (induction v)
  case (AMap kvs)
  then show ?case by (fastforce simp: list_all_iff)
next
  case (AInt i)
  then show ?case using numbers_FormatInt by simp
qed (simp_all add: list_all_iff)

lemma any_of_plain: "plain v \<Longrightarrow> any_of_json number (plain_json v) = json_view number v"
proof (induction v)
  case (AMap kvs)
  have "map (\<lambda>(k, v). (k, any_of_json number v)) (map (\<lambda>(k, v). (k, plain_json v)) kvs) =
      map (\<lambda>(k, v). (k, json_view number v)) kvs"
    using AMap by (fastforce simp: list_all_iff)
  then show ?case
    by (simp only: plain_json.simps any_of_json.simps json_view.simps sort_key_keys[symmetric])
qed (auto simp: list_all_iff)

definition plain_object :: "attributes \<Rightarrow> json" where
  "plain_object m = JObj (map (\<lambda>k. (k, plain_json (attr m k))) (sorted_list_of_set (dom m)))"

text \<open>Metadata of plain values comes back from the text that is made of it.\<close>

lemma plain_meta_object:
  assumes "plain_attributes m"
  shows "meta_object other m = Inr (plain_object m)"
proof -
  have "map (\<lambda>k. with_key (k, json_of_any other (attr m k))) (sorted_list_of_set (dom m)) =
      map Inr (map (\<lambda>k. (k, plain_json (attr m k))) (sorted_list_of_set (dom m)))"
    using assms by (auto simp: plain_attributes_def attr_def with_key_def json_of_plain)
  then show ?thesis by (simp add: meta_object_def plain_object_def del: map_map)
qed

lemma clean_plain_object: "plain_attributes m \<Longrightarrow> clean_json (plain_object m) = plain_object m"
  by (auto simp: plain_object_def plain_attributes_def attr_def clean_plain)

theorem marshalled_attributes_read_back:
  assumes "marshal_law other number marshal unmarshal" and "plain_attributes m"
  shows "\<exists>text. marshal m = Inr text \<and> text \<noteq> '''' \<and> unmarshal text = Some (\<lambda>k. map_option (json_view number) (m k))"
proof -
  let ?ks = "sorted_list_of_set (dom m)"
  let ?o = "plain_object m"
  let ?text = "json_text True ?o"
  have fin: "finite (dom m)" and plain: "k \<in> dom m \<Longrightarrow> clean k = k \<and> plain (attr m k)" for k
    using assms(2) by (auto simp: plain_attributes_def attr_def)
  have "marshal m = Inr ?text"
    using assms(1) fin by (simp add: marshal_law_def plain_meta_object[OF assms(2)])
  moreover have ok: "numbers_ok ?o"
    using plain fin numbers_plain by (auto simp: plain_object_def list_all_iff)
  then have "?text \<noteq> ''''" using fuel_length by blast
  moreover have "read_json ?text = Some ?o"
    using read_json_text[OF ok, of True] clean_plain_object[OF assms(2)] by simp
  moreover have "unique_keys ?o"
    using plain fin unique_plain by (auto simp: plain_object_def list_all_iff comp_def)
  ultimately have "unmarshal ?text = Some (map_of (map (\<lambda>k. (k, json_view number (attr m k))) ?ks))"
    using assms(1) plain fin any_of_plain
    by (auto simp: plain_object_def marshal_law_def comp_def intro!: arg_cong[of _ _ map_of])
  also have "map_of (map (\<lambda>k. (k, json_view number (attr m k))) ?ks) = (\<lambda>k. map_option (json_view number) (m k))"
    using fin by (auto simp: map_of_map_restrict restrict_map_def attr_def fun_eq_iff split: option.splits)
  finally show ?thesis
    using \<open>marshal m = Inr ?text\<close> \<open>?text \<noteq> ''''\<close> by blast
qed

text \<open>The encoder and the reader of \<open>Json\<close> themselves are an instance of what is relied on.\<close>

definition text_marshal :: "(string \<Rightarrow> string \<Rightarrow> string + json) \<Rightarrow> attributes \<Rightarrow> string + string" where
  "text_marshal other m = map_sum id (json_text True) (meta_object other m)"

definition text_unmarshal :: "(string \<Rightarrow> any) \<Rightarrow> string \<Rightarrow> attributes option" where
  "text_unmarshal number s =
     (case read_json s of
        Some (JObj kvs) \<Rightarrow> Some (map_of (map (\<lambda>(k, v). (k, any_of_json number v)) kvs))
      | _ \<Rightarrow> None)"

lemma text_marshal_law: "marshal_law other number (text_marshal other) (text_unmarshal number)"
  by (simp add: marshal_law_def text_marshal_def text_unmarshal_def)

end
