(* ===== verification/AuditHttp.thy ===== *)
theory AuditHttp
  imports Http
begin

text \<open>
  The HTTP part of the package \<open>audit\<close> (\<open>audit/audit.go\<close>): the logger in the request context, the
  middleware with its status recorder, and the logging methods of the event builder. The logger
  is called for its effect on the state; its error is discarded where the code discards it.
\<close>

section \<open>The logger in the context\<close>

definition WithLogger :: "'w http_Request \<Rightarrow> 'w Logger \<Rightarrow> 'w http_Request" where
  "WithLogger r l = r\<lparr>ctx_Logger := Some l\<rparr>"

definition FromContext :: "'w http_Request \<Rightarrow> 'w Logger" where
  "FromContext r = (case ctx_Logger r of Some l \<Rightarrow> l | None \<Rightarrow> NOOPLogger_Log)"

definition audit_Log :: "'w http_Request \<Rightarrow> Event \<Rightarrow> 'w \<Rightarrow> 'w \<times> string option" where
  "audit_Log r event w = FromContext r event w"

definition Build :: "Event \<Rightarrow> Event" where
  "Build b = b"

definition EventBuilder_Log :: "Event \<Rightarrow> 'w http_Request \<Rightarrow> 'w \<Rightarrow> 'w \<times> string option" where
  "EventBuilder_Log b r w = FromContext r b w"

definition Logf :: "Event \<Rightarrow> 'w http_Request \<Rightarrow> 'w \<Rightarrow> 'w \<times> string" where
  "Logf b r w =
     (case EventBuilder_Log b r w of
        (w', Some err) \<Rightarrow> (w', ''audit: failed to log event: '' @ err)
      | (w', None) \<Rightarrow> (w', ''''))"

section \<open>The middleware\<close>

definition indexOf :: "string \<Rightarrow> char \<Rightarrow> int" where
  "indexOf s b = (case index_of b s of Some i \<Rightarrow> int i | None \<Rightarrow> -1)"

definition audit_remoteIP :: "'w http_Request \<Rightarrow> string" where
  "audit_remoteIP r =
     (let xff = Header_Get (req_Header r) ''X-Forwarded-For'' in
      if xff \<noteq> '''' then (let i = indexOf xff (CHR '','') in if 0 \<le> i then take (nat i) xff else xff)
      else case SplitHostPort (req_RemoteAddr r) of None \<Rightarrow> req_RemoteAddr r | Some host \<Rightarrow> host)"

definition eventTypeForStatus :: "int \<Rightarrow> EventType" where
  "eventTypeForStatus status = (if 400 \<le> status then EventAccessDenied else EventAccessGranted)"

text \<open>
  The recorder passes every call on and keeps the argument of the last \<open>WriteHeader\<close>; it starts
  with 200.
\<close>

fun recorder_step :: "rw_call \<Rightarrow> int \<Rightarrow> int" where
  "recorder_step (RwWriteHeader status) s = status"
| "recorder_step _ s = s"

definition recorded_status :: "rw_call list \<Rightarrow> int" where
  "recorded_status calls = fold recorder_step calls 200"

definition request_event :: "time \<Rightarrow> 'w http_Request \<Rightarrow> int \<Rightarrow> Event" where
  "request_event now r status =
     \<lparr>Event_ID = '''', Event_Type = eventTypeForStatus status, Event_Timestamp = now, Event_Subject = '''',
      Event_Resource = req_Path r, Event_Action = req_Method r,
      Event_Result = (if 400 \<le> status then ResultDeny else ResultAllow),
      Event_IP = audit_remoteIP r, Event_UserAgent = Header_Get (req_Header r) ''User-Agent'',
      Event_RequestID = Header_Get (req_Header r) ''X-Request-Id'', Event_Meta = Some [''status'' \<mapsto> AInt status]\<rparr>"

definition audit_Middleware :: "'w Logger \<Rightarrow> bool list \<Rightarrow> time \<Rightarrow> 'w Handler \<Rightarrow> 'w Handler" where
  "audit_Middleware l logRequests now nextH r w =
     (let autoLog = (logRequests \<noteq> [] \<and> hd logRequests); r = WithLogger r l in
      if \<not> autoLog then nextH r w
      else bind_outcome (nextH r w) (\<lambda>(w', calls).
             Ret (fst (l (request_event now r (recorded_status calls)) w'), calls)))"

section \<open>Lemmas\<close>

lemma recorded_Nil [simp]: "recorded_status [] = 200"
  by (simp add: recorded_status_def)

fun status_call :: "rw_call \<Rightarrow> bool" where
  "status_call (RwWriteHeader s) = True"
| "status_call _ = False"

lemma recorder_no_status: "list_all (\<lambda>c. \<not> status_call c) calls \<Longrightarrow> fold recorder_step calls s = s"
proof (induction calls arbitrary: s)
  case (Cons c cs)
  then show ?case by (cases c) simp_all
qed simp

lemma recorded_single:
  assumes "list_all header_call xs" "list_all (\<lambda>c. \<not> status_call c) ys"
  shows "recorded_status (xs @ RwWriteHeader s # ys) = s"
  using recorder_no_status[OF assms(2)] by (simp add: recorded_status_def)

text \<open>A response that is begun properly: headers, then at most one status, which is final.\<close>

definition orderly :: "rw_call list \<Rightarrow> bool" where
  "orderly calls \<longleftrightarrow>
     list_all (\<lambda>c. \<not> status_call c) calls \<or>
     (\<exists>xs s ys. calls = xs @ RwWriteHeader s # ys \<and> list_all header_call xs \<and> \<not> informational s \<and>
        list_all (\<lambda>c. \<not> status_call c) ys)"

lemma rw_Sent_no_status:
  "list_all (\<lambda>c. \<not> status_call c) calls \<Longrightarrow> rw_Sent rw = None \<or> (\<exists>h. rw_Sent rw = Some (200, h)) \<Longrightarrow>
     rw_Sent (rw_run calls rw) = None \<or> (\<exists>h. rw_Sent (rw_run calls rw) = Some (200, h))"
proof (induction calls arbitrary: rw)
  case (Cons c cs)
  have "rw_Sent (rw_step c rw) = None \<or> (\<exists>h. rw_Sent (rw_step c rw) = Some (200, h))"
    using Cons.prems by (cases c) (auto simp: send_header_def informational_def Let_def)
  with Cons show ?case by simp
qed simp

lemma orderly_status: "orderly calls \<Longrightarrow> recorded_status calls = response_status calls"
  unfolding orderly_def
proof (elim disjE exE conjE)
  assume ns: "list_all (\<lambda>c. \<not> status_call c) calls"
  then have "rw_Sent (rw_run calls new_ResponseWriter) = None \<or>
      (\<exists>h. rw_Sent (rw_run calls new_ResponseWriter) = Some (200, h))"
    by (rule rw_Sent_no_status) (simp add: new_ResponseWriter_def)
  then have "response_status calls = 200"
    by (auto simp: response_status_def response_def send_header_def informational_def)
  with recorder_no_status[OF ns] show ?thesis by (simp add: recorded_status_def)
next
  fix xs s ys
  assume c: "calls = xs @ RwWriteHeader s # ys" "list_all header_call xs" "\<not> informational s"
    "list_all (\<lambda>c. \<not> status_call c) ys"
  have "rw_Sent (rw_run xs new_ResponseWriter) = None"
    using header_calls_Sent[OF c(2)] by (simp add: new_ResponseWriter_def)
  from response_fixed[OF this c(3), of ys] recorded_single[OF c(2,4)] c(1) show ?thesis
    by (simp add: response_status_def)
qed

section \<open>Properties\<close>

text \<open>
  Every answered request is logged with the status the client got. With automatic logging the
  middleware leaves the answer of the handler alone and hands the logger exactly one event,
  after the handler is done; when the handler sends its status once and before the body, the
  event is marked as denied exactly when the client got a status of 400 or more, and carries that
  status, the method, the path and the address of the request.
\<close>

theorem logged_status_is_sent:
  assumes "nextH (WithLogger r l) w = Ret (w', calls)" and "orderly calls"
  shows "\<exists>event. audit_Middleware l [True] now nextH r w = Ret (fst (l event w'), calls) \<and>
    Event_Meta event = Some [''status'' \<mapsto> AInt (response_status calls)] \<and>
    (Event_Type event = EventAccessDenied \<longleftrightarrow> 400 \<le> response_status calls) \<and>
    (Event_Result event = ResultDeny \<longleftrightarrow> 400 \<le> response_status calls) \<and>
    Event_Action event = req_Method r \<and> Event_Resource event = req_Path r \<and> Event_IP event = audit_remoteIP r"
proof -
  let ?e = "request_event now (WithLogger r l) (response_status calls)"
  have "audit_Middleware l [True] now nextH r w = Ret (fst (l ?e w'), calls)"
    using assms(1) orderly_status[OF assms(2)] by (simp add: audit_Middleware_def)
  moreover have "audit_remoteIP (WithLogger r l) = audit_remoteIP r"
    by (simp add: audit_remoteIP_def WithLogger_def Let_def split: option.split)
  ultimately show ?thesis
    by (intro exI[of _ ?e]) (simp add: request_event_def eventTypeForStatus_def WithLogger_def)
qed

text \<open>A logger that collects the events, and a handler that refuses.\<close>

definition list_logger :: "Event list Logger" where
  "list_logger e w = (w @ [e], None)"

definition refusing :: "Event list Handler" where
  "refusing r w = reply [RwSet ''Content-Type'' ''text/plain'', RwWriteHeader 403, RwWrite ''no''] w"

definition audit_request :: "'w http_Request" where
  "audit_request = \<lparr>req_Method = ''GET'', req_Path = ''/x'', req_Query = (\<lambda>_. ''''), req_RemoteAddr = ''10.0.0.1:80'',
     req_Header = Map.empty, req_Body = Body '''', ctx_Claims = None, ctx_Key = None, ctx_Logger = None\<rparr>"

lemma logged_status_is_sent_witness:
  "\<exists>event. audit_Middleware list_logger [True] 0 refusing audit_request [] =
       Ret (fst (list_logger event []),
         [RwSet ''Content-Type'' ''text/plain'', RwWriteHeader 403, RwWrite ''no'']) \<and>
     Event_Type event = EventAccessDenied"
proof -
  let ?calls = "[RwSet ''Content-Type'' ''text/plain'', RwWriteHeader 403, RwWrite ''no'']"
  have h: "refusing (WithLogger audit_request list_logger) [] = Ret ([], ?calls)"
    by (simp add: refusing_def reply_def)
  have "?calls = [RwSet ''Content-Type'' ''text/plain''] @ RwWriteHeader 403 # [RwWrite ''no'']" by simp
  then have o: "orderly ?calls"
    unfolding orderly_def by (intro disjI2 exI conjI) (assumption, simp_all add: informational_def)
  have "response_status ?calls = 403"
    by (simp add: response_status_def response_def new_ResponseWriter_def send_header_def informational_def Let_def)
  with logged_status_is_sent[where nextH = refusing and r = audit_request and l = list_logger and now = 0, OF h o]
  show ?thesis by auto
qed

text \<open>
  A status that comes too late is logged, not sent. A handler that has begun the body and then calls
  \<open>WriteHeader\<close> answers 200, as the server ignores the late status; the event is logged as denied.
\<close>

theorem late_status_is_logged:
  assumes "400 \<le> status"
  shows "response_status [RwWrite body, RwWriteHeader status] = 200 \<and>
    Event_Type (request_event now r (recorded_status [RwWrite body, RwWriteHeader status])) = EventAccessDenied"
  using assms
  by (simp add: response_status_def response_def new_ResponseWriter_def send_header_def informational_def
      request_event_def eventTypeForStatus_def recorded_status_def Let_def)

end
