(* ===== verification/AuditJson.thy ===== *)
theory AuditJson
  imports JsonAny AuditHttp
begin

text \<open>
  The JSON logger of \<open>audit/audit.go\<close>: the JSON of an event, field by field, and the encoder behind
  the logger, which remembers a failed write. A timestamp is written in UTC, as the package makes
  them. \<open>other\<close> is the argument of \<open>json_of_any\<close>.
\<close>

section \<open>Timestamps\<close>

text \<open>Year, month and day of a day counted from 1 January 1970, in the Gregorian calendar.\<close>

definition civil :: "int \<Rightarrow> int \<times> int \<times> int" where
  "civil days =
     (let z = days + 719468; era = z div 146097; doe = z mod 146097;
          yoe = (doe - doe div 1460 + doe div 36524 - doe div 146096) div 365;
          doy = doe - (365 * yoe + yoe div 4 - yoe div 100); mp = (5 * doy + 2) div 153;
          m = (if mp < 10 then mp + 3 else mp - 9)
      in (yoe + era * 400 + (if m \<le> 2 then 1 else 0), m, doy - (153 * mp + 2) div 5 + 1))"

definition padded :: "nat \<Rightarrow> int \<Rightarrow> string" where
  "padded width i = (let s = decimal (nat i) in replicate (width - length s) (CHR ''0'') @ s)"

text \<open>The digits of the nanoseconds without trailing zeros.\<close>

definition fraction_text :: "int \<Rightarrow> string" where
  "fraction_text ns =
     (if ns = 0 then '''' else CHR ''.'' # rev (dropWhile (\<lambda>c. c = CHR ''0'') (rev (padded 9 ns))))"

text \<open>\<open>Time.MarshalJSON\<close>: RFC 3339 with nanoseconds; it is an error if the year needs more than four digits.\<close>

definition RFC3339Nano :: "time \<Rightarrow> string option" where
  "RFC3339Nano t =
     (let s = t div Second; sod = s mod 86400 in
      case civil (s div 86400) of
        (y, m, d) \<Rightarrow>
          if y < 0 \<or> 9999 < y then None
          else Some (padded 4 y @ ''-'' @ padded 2 m @ ''-'' @ padded 2 d @ ''T'' @
            padded 2 (sod div 3600) @ '':'' @ padded 2 (sod div 60 mod 60) @ '':'' @ padded 2 (sod mod 60) @
            fraction_text (t mod Second) @ ''Z''))"

section \<open>The JSON of an event\<close>

definition omitempty :: "string \<Rightarrow> string \<Rightarrow> (string \<times> json) list" where
  "omitempty name v = (if v = '''' then [] else [(name, JStr v)])"

definition meta_field :: "(string \<Rightarrow> string \<Rightarrow> string + json) \<Rightarrow> Event \<Rightarrow> string + (string \<times> json) list" where
  "meta_field other e =
     (case Event_Meta e of
        None \<Rightarrow> Inr []
      | Some m \<Rightarrow> if m = Map.empty then Inr [] else map_sum id (\<lambda>j. [(''meta'', j)]) (meta_object other m))"

text \<open>The fields of the struct in their order, with the names and options of their tags.\<close>

definition event_json :: "(string \<Rightarrow> string \<Rightarrow> string + json) \<Rightarrow> Event \<Rightarrow> string + json" where
  "event_json other e =
     (case RFC3339Nano (Event_Timestamp e) of
        None \<Rightarrow> Inl ''json: error calling MarshalJSON for type time.Time: Time.MarshalJSON: year outside of range [0,9999]''
      | Some ts \<Rightarrow>
          map_sum id
            (\<lambda>meta. JObj
              (omitempty ''id'' (Event_ID e) @
               [(''type'', JStr (EventType_string (Event_Type e))), (''timestamp'', JStr ts)] @
               omitempty ''subject'' (Event_Subject e) @
               omitempty ''resource'' (Event_Resource e) @
               omitempty ''action'' (Event_Action e) @
               omitempty ''result'' (Result_string (Event_Result e)) @
               omitempty ''ip'' (Event_IP e) @
               omitempty ''user_agent'' (Event_UserAgent e) @
               omitempty ''request_id'' (Event_RequestID e) @ meta))
            (meta_field other e))"

section \<open>The logger\<close>

text \<open>The writer and the fields of its \<open>json.Encoder\<close>: the error it has met, if any, and the option.\<close>

record 'w JSONLogger =
  jl_w :: 'w
  enc_err :: "string option"
  enc_escapeHTML :: bool

definition NewJSONLogger :: "'w \<Rightarrow> 'w JSONLogger" where
  "NewJSONLogger w = \<lparr>jl_w = w, enc_err = None, enc_escapeHTML = False\<rparr>"

text \<open>
  \<open>Encoder.Encode\<close> returns the error of an earlier write, if there was one; otherwise it writes the
  text and a newline in one \<open>Write\<close>, unless the value has no JSON.
\<close>

definition Encode ::
  "(string \<Rightarrow> 'w \<Rightarrow> 'w \<times> string option) \<Rightarrow> string + json \<Rightarrow> 'w JSONLogger \<Rightarrow> 'w JSONLogger \<times> string option" where
  "Encode write v l =
     (case enc_err l of
        Some err \<Rightarrow> (l, Some err)
      | None \<Rightarrow>
          (case v of
             Inl err \<Rightarrow> (l, Some err)
           | Inr j \<Rightarrow>
               (case write (json_text (enc_escapeHTML l) j @ [CHR 0x0A]) (jl_w l) of
                  (w', err) \<Rightarrow> (l\<lparr>jl_w := w', enc_err := err\<rparr>, err))))"

definition JSONLogger_Log ::
  "(string \<Rightarrow> string \<Rightarrow> string + json) \<Rightarrow> (string \<Rightarrow> 'w \<Rightarrow> 'w \<times> string option) \<Rightarrow> time \<Rightarrow> 'w JSONLogger Logger" where
  "JSONLogger_Log other write now e l = Encode write (event_json other (stamp now e)) l"

section \<open>Lemmas\<close>

lemma numbers_omitempty: "list_all (\<lambda>(k, v). numbers_ok v) (omitempty name v)"
  by (simp add: omitempty_def)

lemma numbers_event:
  assumes "numbers_law other" and "event_json other e = Inr j"
  shows "numbers_ok j"
proof -
  from assms(2) obtain ts meta where ts: "RFC3339Nano (Event_Timestamp e) = Some ts" and meta: "meta_field other e = Inr meta"
    by (auto simp: event_json_def map_sum_Inr split: option.splits)
  have "list_all (\<lambda>(k, v). numbers_ok v) meta"
  proof (cases "Event_Meta e = None \<or> Event_Meta e = Some Map.empty")
    case True
    with meta show ?thesis by (auto simp: meta_field_def)
  next
    case False
    with meta obtain m fs where fs: "meta = [(''meta'', JObj fs)]"
        "collect (map with_key (map (\<lambda>k. (k, json_of_any other (attr m k))) (sorted_list_of_set (dom m)))) = Inr fs"
      by (auto simp: meta_field_def meta_object_def map_sum_Inr comp_def split: option.splits if_splits)
    have "list_all (\<lambda>(k, v). numbers_ok v) fs"
      using fs(2) by (rule collected_fields) (auto intro: numbers_any[OF assms(1)] dest: sym)
    with fs(1) show ?thesis by simp
  qed
  with assms(2) ts meta show ?thesis
    by (auto simp: event_json_def numbers_omitempty)
qed

section \<open>The lines of the log\<close>

text \<open>The events handed to the logger one after the other, each with the time of its call.\<close>

definition log_events ::
  "(string \<Rightarrow> string \<Rightarrow> string + json) \<Rightarrow> (string \<Rightarrow> 'w \<Rightarrow> 'w \<times> string option) \<Rightarrow>
     (time \<times> Event) list \<Rightarrow> 'w JSONLogger \<Rightarrow> 'w JSONLogger" where
  "log_events other write es l = fold (\<lambda>(now, e) l. fst (JSONLogger_Log other write now e l)) es l"

text \<open>A writer that keeps what it gets, and what a reader of the log makes of it: one value a line.\<close>

definition buffer_write :: "string \<Rightarrow> string \<Rightarrow> string \<times> string option" where
  "buffer_write s w = (w @ s, None)"

fun lines_of :: "string \<Rightarrow> string list" where
  "lines_of [] = []"
| "lines_of (c # s) =
     (if c = CHR 0x0A then [] # lines_of s
      else case lines_of s of [] \<Rightarrow> [[c]] | l # ls \<Rightarrow> (c # l) # ls)"

text \<open>The events that have a JSON, in the order in which they came.\<close>

definition logged :: "(string \<Rightarrow> string \<Rightarrow> string + json) \<Rightarrow> (time \<times> Event) list \<Rightarrow> json list" where
  "logged other es =
     concat (map (\<lambda>(now, e). case event_json other (stamp now e) of Inl err \<Rightarrow> [] | Inr j \<Rightarrow> [j]) es)"

definition field :: "string \<Rightarrow> json \<Rightarrow> json option" where
  "field name j = (case j of JObj kvs \<Rightarrow> map_of kvs name | _ \<Rightarrow> None)"

definition event_texts :: "Event \<Rightarrow> (string \<times> string) list" where
  "event_texts e =
     [(''id'', Event_ID e), (''subject'', Event_Subject e), (''resource'', Event_Resource e),
      (''action'', Event_Action e), (''result'', Result_string (Event_Result e)), (''ip'', Event_IP e),
      (''user_agent'', Event_UserAgent e), (''request_id'', Event_RequestID e)]"

lemma lines_of_line: "CHR 0x0A \<notin> set x \<Longrightarrow> lines_of (x @ CHR 0x0A # s) = x # lines_of s"
  by (induction x) auto

lemma lines_of_concat: "(\<And>x. x \<in> set xs \<Longrightarrow> CHR 0x0A \<notin> set x) \<Longrightarrow> lines_of (concat (map (\<lambda>x. x @ [CHR 0x0A]) xs)) = xs"
  by (induction xs) (simp_all add: lines_of_line)

lemma printable_no_newline: "printable s \<Longrightarrow> CHR 0x0A \<notin> set s"
  by (auto simp: printable_def)

lemma logged_Cons:
  "logged other ((now, e) # es) =
     (case event_json other (stamp now e) of Inl err \<Rightarrow> [] | Inr j \<Rightarrow> [j]) @ logged other es"
  by (simp add: logged_def)

text \<open>The logger over a writer that takes everything appends the lines of the events.\<close>

lemma buffered_log:
  assumes "enc_err l = None" and "\<not> enc_escapeHTML l"
  shows "log_events other buffer_write es l =
    l\<lparr>jl_w := jl_w l @ concat (map (\<lambda>j. json_text False j @ [CHR 0x0A]) (logged other es))\<rparr>"
  using assms
proof (induction es arbitrary: l)
  case Nil
  then show ?case by (simp add: log_events_def logged_def)
next
  case (Cons ne es)
  obtain now e where ne: "ne = (now, e)" by fastforce
  let ?l = "fst (JSONLogger_Log other buffer_write now e l)"
  have l': "?l = l\<lparr>jl_w := jl_w l @ concat (map (\<lambda>j. json_text False j @ [CHR 0x0A])
      (case event_json other (stamp now e) of Inl err \<Rightarrow> [] | Inr j \<Rightarrow> [j]))\<rparr>"
    using Cons.prems by (cases "event_json other (stamp now e)")
      (simp_all add: JSONLogger_Log_def Encode_def buffer_write_def)
  have "log_events other buffer_write (ne # es) l = log_events other buffer_write es ?l"
    by (simp add: log_events_def ne)
  also have "\<dots> = ?l\<lparr>jl_w := jl_w ?l @ concat (map (\<lambda>j. json_text False j @ [CHR 0x0A]) (logged other es))\<rparr>"
    by (rule Cons.IH) (simp_all add: l' Cons.prems)
  finally show ?case by (simp add: l' ne logged_Cons)
qed

lemma numbers_logged: "numbers_law other \<Longrightarrow> j \<in> set (logged other es) \<Longrightarrow> numbers_ok j"
  by (auto simp: logged_def split: sum.splits intro: numbers_event)

lemma clean_names [simp]:
  "clean ''id'' = ''id''" "clean ''type'' = ''type''" "clean ''timestamp'' = ''timestamp''"
  "clean ''subject'' = ''subject''" "clean ''resource'' = ''resource''" "clean ''action'' = ''action''"
  "clean ''result'' = ''result''" "clean ''ip'' = ''ip''" "clean ''user_agent'' = ''user_agent''"
  "clean ''request_id'' = ''request_id''" "clean ''meta'' = ''meta''"
  by code_simp+

lemma map_of_omitempty:
  "map_of (map (\<lambda>(k, v). (clean k, clean_json v)) (omitempty name v)) =
     (if v = '''' then Map.empty else [clean name \<mapsto> JStr (clean v)])"
  by (simp add: omitempty_def)

lemma meta_field_name: "meta_field other e = Inr meta \<Longrightarrow> meta = [] \<or> (\<exists>j. meta = [(''meta'', j)])"
  by (auto simp: meta_field_def map_sum_Inr split: option.splits if_splits)

lemma event_fields:
  assumes "event_json other e = Inr j"
  shows "field ''type'' (clean_json j) = Some (JStr (clean (EventType_string (Event_Type e))))"
    and "(name, v) \<in> set (event_texts e) \<Longrightarrow>
      field name (clean_json j) = (if v = '''' then None else Some (JStr (clean v)))"
    and "Event_Meta e = Some m \<Longrightarrow> m \<noteq> Map.empty \<Longrightarrow> plain_attributes m \<Longrightarrow>
      field ''meta'' (clean_json j) = Some (plain_object m)"
proof -
  from assms obtain ts meta where "RFC3339Nano (Event_Timestamp e) = Some ts" and meta: "meta_field other e = Inr meta"
    by (auto simp: event_json_def map_sum_Inr split: option.splits)
  with assms have j: "clean_json j = JObj (map (\<lambda>(k, v). (clean k, clean_json v))
      (omitempty ''id'' (Event_ID e) @
       [(''type'', JStr (EventType_string (Event_Type e))), (''timestamp'', JStr ts)] @
       omitempty ''subject'' (Event_Subject e) @ omitempty ''resource'' (Event_Resource e) @
       omitempty ''action'' (Event_Action e) @ omitempty ''result'' (Result_string (Event_Result e)) @
       omitempty ''ip'' (Event_IP e) @ omitempty ''user_agent'' (Event_UserAgent e) @
       omitempty ''request_id'' (Event_RequestID e) @ meta))"
    by (auto simp: event_json_def)
  have m: "map_of (map (\<lambda>(k, v). (clean k, clean_json v)) meta) name = None" if "name \<noteq> ''meta''" for name
    using meta_field_name[OF meta] that by auto
  show "field ''type'' (clean_json j) = Some (JStr (clean (EventType_string (Event_Type e))))"
    by (simp add: j field_def map_add_def map_of_omitempty m)
  show "field name (clean_json j) = (if v = '''' then None else Some (JStr (clean v)))"
    if "(name, v) \<in> set (event_texts e)"
    using that unfolding event_texts_def list.set insert_iff empty_iff prod.inject
    by (elim disjE conjE FalseE) (simp_all add: j field_def map_add_def map_of_omitempty m)
  show "field ''meta'' (clean_json j) = Some (plain_object m)"
    if "Event_Meta e = Some m" "m \<noteq> Map.empty" "plain_attributes m"
  proof -
    from meta that have "meta = [(''meta'', plain_object m)]"
      by (simp add: meta_field_def plain_meta_object)
    with that(3) show ?thesis
      by (simp add: j field_def map_add_def map_of_omitempty clean_plain_object)
  qed
qed

section \<open>Properties\<close>

text \<open>
  C32: No event can forge a line of the log. Over a writer that takes everything, the lines of a JSON
  logger are exactly one per event that has a JSON, in the order of the calls, and a JSON reader gets
  the event back from its line, whatever bytes a client has put into its texts (newlines, quotes and
  invalid UTF-8 included): the type, and each text field under its own name, absent when it is empty,
  with U+FFFD for bytes that are not UTF-8, and metadata of plain values as an object with exactly its
  keys. The ID is one of the texts: an event without one is written without one.
\<close>

theorem log_lines_read_back:
  assumes "numbers_law other"
  shows "map read_json (lines_of (jl_w (log_events other buffer_write es (NewJSONLogger [])))) =
      map (\<lambda>j. Some (clean_json j)) (logged other es) \<and>
    (\<forall>e j. event_json other e = Inr j \<longrightarrow>
      field ''type'' (clean_json j) = Some (JStr (clean (EventType_string (Event_Type e)))) \<and>
      (\<forall>(name, v) \<in> set (event_texts e).
         field name (clean_json j) = (if v = '''' then None else Some (JStr (clean v)))) \<and>
      (\<forall>m. Event_Meta e = Some m \<and> m \<noteq> Map.empty \<and> plain_attributes m \<longrightarrow>
         field ''meta'' (clean_json j) = Some (plain_object m)))"
proof -
  let ?js = "logged other es"
  have w: "jl_w (log_events other buffer_write es (NewJSONLogger [])) =
      concat (map (\<lambda>x. x @ [CHR 0x0A]) (map (json_text False) ?js))"
    by (simp add: buffered_log NewJSONLogger_def comp_def)
  have "CHR 0x0A \<notin> set x" if "x \<in> set (map (json_text False) ?js)" for x
  proof -
    from that obtain j where "j \<in> set ?js" "x = json_text False j" by auto
    then show ?thesis
      using printable_no_newline[OF json_text_printable[OF numbers_logged[OF assms]]] by simp
  qed
  then have "lines_of (jl_w (log_events other buffer_write es (NewJSONLogger []))) = map (json_text False) ?js"
    unfolding w by (rule lines_of_concat)
  then have "map read_json (lines_of (jl_w (log_events other buffer_write es (NewJSONLogger [])))) =
      map (\<lambda>j. Some (clean_json j)) ?js"
    by (auto intro: read_json_text numbers_logged[OF assms])
  then show ?thesis using event_fields by fastforce
qed

text \<open>A user name that tries to forge a second event.\<close>

definition forging_event :: Event where
  "forging_event = Eventf 1700000000000000000 EventLoginFailed
     (''x'' @ [CHR 0x22, CHR ''}'', CHR 0x0A, CHR ''{'', CHR 0x22, CHR 0xFF]) ResultDeny"

definition no_other :: "string \<Rightarrow> string \<Rightarrow> string + json" where
  "no_other ty v = Inl ''json: unsupported type''"

lemma forging_time: "RFC3339Nano 1700000000000000000 = Some ''2023-11-14T22:13:20Z''"
  by code_simp

lemma clean_forged: "clean [CHR 0xFF] = [CHR 0xEF, CHR 0xBF, CHR 0xBD]"
proof -
  have d: "decode_rune (map of_char [CHR 0xFF]) = (0xFFFD, 1)"
    by (simp add: decode_rune_def Let_def)
  have "utf8 0xFFFD = [CHR 0xEF, CHR 0xBF, CHR 0xBD]"
    by (simp add: utf8_def Let_def char_of_def bit_simps)
  then show ?thesis
    using d by (simp add: clean.simps clean_rune_def escape_rune_def ascii_def)
qed

lemma forging_json:
  "event_json no_other (stamp now forging_event) = Inr (JObj
     [(''type'', JStr ''auth.login_failed''), (''timestamp'', JStr ''2023-11-14T22:13:20Z''),
      (''subject'', JStr (''x'' @ [CHR 0x22, CHR ''}'', CHR 0x0A, CHR ''{'', CHR 0x22, CHR 0xFF])),
      (''result'', JStr ''deny'')])"
proof -
  have "Event_Timestamp forging_event = 1700000000000000000"
    by (simp add: forging_event_def Eventf_def)
  then have "stamp now forging_event = forging_event"
    by (simp add: stamp_def zero_time_def Second_def)
  then show ?thesis
    by (simp add: event_json_def forging_event_def Eventf_def zero_Event_def forging_time meta_field_def omitempty_def)
qed

lemma log_lines_read_back_witness:
  "map read_json (lines_of (jl_w (log_events no_other buffer_write [(0, forging_event)] (NewJSONLogger [])))) =
     [Some (JObj
       [(''type'', JStr ''auth.login_failed''), (''timestamp'', JStr ''2023-11-14T22:13:20Z''),
        (''subject'', JStr (''x'' @ [CHR 0x22, CHR ''}'', CHR 0x0A, CHR ''{'', CHR 0x22, CHR 0xEF, CHR 0xBF, CHR 0xBD])),
        (''result'', JStr ''deny'')])]"
proof -
  have "numbers_law no_other" by (simp add: numbers_law_def no_other_def)
  from log_lines_read_back[OF this, of "[(0, forging_event)]"]
  have "map read_json (lines_of (jl_w (log_events no_other buffer_write [(0, forging_event)] (NewJSONLogger [])))) =
     map (\<lambda>j. Some (clean_json j)) (logged no_other [(0, forging_event)])"
    by (rule conjunct1)
  also have "logged no_other [(0, forging_event)] = [JObj
     [(''type'', JStr ''auth.login_failed''), (''timestamp'', JStr ''2023-11-14T22:13:20Z''),
      (''subject'', JStr (''x'' @ [CHR 0x22, CHR ''}'', CHR 0x0A, CHR ''{'', CHR 0x22, CHR 0xFF])),
      (''result'', JStr ''deny'')]]"
    by (simp add: logged_def forging_json)
  also have "map (\<lambda>j. Some (clean_json j)) \<dots> = [Some (JObj
       [(''type'', JStr ''auth.login_failed''), (''timestamp'', JStr ''2023-11-14T22:13:20Z''),
        (''subject'', JStr (''x'' @ [CHR 0x22, CHR ''}'', CHR 0x0A, CHR ''{'', CHR 0x22, CHR 0xEF, CHR 0xBF, CHR 0xBD])),
        (''result'', JStr ''deny'')])]"
    by (simp add: clean.simps(2)[where cs = "_ # _"] clean_forged clean_ascii ascii_def)
  finally show ?thesis .
qed

text \<open>
  C33: What an error of the JSON logger means. Either the event has no JSON, and the logger is as
  before; or a write has failed, now or earlier, and then the logger is silent for good: it writes
  none of the later events, returns the old error for each, whatever the writer could do by then, and
  the middleware of the package answers every request as the handler alone and logs nothing.
\<close>

theorem failed_write_silences_logger:
  assumes "JSONLogger_Log other write now e l = (l', Some err)"
  shows "(enc_err l = None \<and> event_json other (stamp now e) = Inl err \<and> l' = l) \<or>
    (enc_err l' = Some err \<and> log_events other write es l' = l' \<and>
     (\<forall>now e. JSONLogger_Log other write now e l' = (l', Some err)) \<and>
     (\<forall>now t nextH r calls. nextH (WithLogger r (JSONLogger_Log other write now)) l' = Ret (l', calls) \<longrightarrow>
        audit_Middleware (JSONLogger_Log other write now) [True] t nextH r l' = Ret (l', calls)))"
proof -
  have "(enc_err l = None \<and> event_json other (stamp now e) = Inl err \<and> l' = l) \<or> enc_err l' = Some err"
    using assms by (auto simp: JSONLogger_Log_def Encode_def split: option.splits sum.splits prod.splits)
  moreover have silent: "JSONLogger_Log other write now e l' = (l', Some err)" if "enc_err l' = Some err" for now e
    using that by (simp add: JSONLogger_Log_def Encode_def)
  moreover have "log_events other write es l' = l'" if "enc_err l' = Some err"
    using silent[OF that] by (induction es) (auto simp: log_events_def)
  moreover have "audit_Middleware (JSONLogger_Log other write now) [True] t nextH r l' = Ret (l', calls)"
    if "enc_err l' = Some err" "nextH (WithLogger r (JSONLogger_Log other write now)) l' = Ret (l', calls)"
    for now t nextH r calls
    using that by (simp add: audit_Middleware_def silent)
  ultimately show ?thesis by blast
qed

text \<open>A writer that fails once and then works again: the first event is lost, and so are all others.\<close>

definition fails_once :: "string \<Rightarrow> string option \<times> string list \<Rightarrow> (string option \<times> string list) \<times> string option" where
  "fails_once s w =
     (case w of (Some err, out) \<Rightarrow> ((None, out), Some err) | (None, out) \<Rightarrow> ((None, out @ [s]), None))"

lemma failed_write_silences_logger_witness:
  "log_events no_other fails_once (replicate 100 (0, forging_event))
     (fst (JSONLogger_Log no_other fails_once 0 forging_event (NewJSONLogger (Some ''no space left on device'', [])))) =
   \<lparr>jl_w = (None, []), enc_err = Some ''no space left on device'', enc_escapeHTML = False\<rparr>"
proof -
  let ?l' = "\<lparr>jl_w = (None, []), enc_err = Some ''no space left on device'', enc_escapeHTML = False\<rparr>"
  have first: "JSONLogger_Log no_other fails_once 0 forging_event (NewJSONLogger (Some ''no space left on device'', [])) =
      (?l', Some ''no space left on device'')"
    by (simp add: JSONLogger_Log_def forging_json Encode_def NewJSONLogger_def fails_once_def)
  from failed_write_silences_logger[OF this, of "replicate 100 (0, forging_event)"]
  have "log_events no_other fails_once (replicate 100 (0, forging_event)) ?l' = ?l'"
    by (auto simp: NewJSONLogger_def)
  then show ?thesis by (simp only: first fst_conv)
qed

end
