(* ===== verification/DbLogger.thy ===== *)
theory DbLogger
  imports AuditLog JsonAny
begin

text \<open>
  The database logger of the package \<open>audit\<close> (\<open>audit/dblogger.go\<close>). The database is the record
  \<open>database\<close> of the methods of \<open>database/sql\<close> that the code calls, over a state \<open>'w\<close>; contexts are
  not modelled. \<open>marshal\<close> and \<open>unmarshal\<close> stand for \<open>encoding/json\<close> on the metadata; the latter gives
  what the call leaves in the field, its error being ignored. \<open>marshal_law\<close> of \<open>JsonAny\<close> is what is
  relied on of the two.
\<close>

section \<open>Values, rows and the database\<close>

text \<open>
  Arguments of a statement; an invalid \<open>sql.NullString\<close> is sent as NULL. The columns of a row that
  may be NULL are optional.
\<close>

datatype sql_value = SqlNull | SqlString string | SqlTime time | SqlInt int | SqlAny any

record db_row =
  row_event_id :: "string option"
  row_type :: string
  row_timestamp :: time
  row_subject :: "string option"
  row_resource :: "string option"
  row_action :: "string option"
  row_result :: "string option"
  row_ip :: "string option"
  row_user_agent :: "string option"
  row_request_id :: "string option"
  row_meta :: "string option"

datatype row_error = ErrNoRows | RowError string

text \<open>A query delivers its rows, each scanned or with the error of the scan, and a final error.\<close>

record 'w database =
  ExecContext :: "string \<Rightarrow> sql_value list \<Rightarrow> 'w \<Rightarrow> 'w \<times> string option"
  QueryContext :: "string \<Rightarrow> sql_value list \<Rightarrow> 'w \<Rightarrow> string + (string + db_row) list \<times> string option"
  PingContext :: "'w \<Rightarrow> string option"
  QueryRowContext :: "string \<Rightarrow> 'w \<Rightarrow> row_error option"

datatype db_error =
    ErrInsert string
  | ErrUnreachable string
  | ErrTable string string
  | ErrQuery string
  | ErrScan string
  | ErrRows string

section \<open>Construction\<close>

type_synonym EventMapper = "Event \<Rightarrow> sql_value list"

record DBLogger =
  table :: string
  insertSQL :: string
  mapper :: "EventMapper option"
  customSchema :: bool

definition newline_tabs :: "nat \<Rightarrow> string" where
  "newline_tabs n = CHR 0x0A # replicate n (CHR 0x09)"

definition buildInsertSQL :: "string \<Rightarrow> string" where
  "buildInsertSQL tbl =
     ''INSERT INTO '' @ tbl @ newline_tabs 2 @
     ''(event_id, type, timestamp, subject, resource, action,'' @ newline_tabs 2 @
     '' result, ip, user_agent, request_id, meta)'' @ newline_tabs 2 @
     ''VALUES ($1, $2, $3, $4, $5, $6, $7, $8, $9, $10, $11)''"

definition WithTableName :: "string \<Rightarrow> DBLogger \<Rightarrow> DBLogger" where
  "WithTableName name l =
     (if customSchema l then l else l\<lparr>table := name, insertSQL := buildInsertSQL name\<rparr>)"

text \<open>A nil mapper is \<open>None\<close>.\<close>

definition WithCustomSchema :: "string \<Rightarrow> EventMapper option \<Rightarrow> DBLogger \<Rightarrow> DBLogger" where
  "WithCustomSchema sql m l = l\<lparr>insertSQL := sql, mapper := m, customSchema := True\<rparr>"

definition NewDBLogger :: "(DBLogger \<Rightarrow> DBLogger) list \<Rightarrow> DBLogger" where
  "NewDBLogger opts =
     fold (\<lambda>o' l. o' l) opts
       \<lparr>table = ''audit_logs'', insertSQL = buildInsertSQL ''audit_logs'', mapper = None, customSchema = False\<rparr>"

section \<open>Writing\<close>

definition nullString :: "string \<Rightarrow> sql_value" where
  "nullString s = (if s \<noteq> '''' then SqlString s else SqlNull)"

definition nullBytes :: "string \<Rightarrow> sql_value" where
  "nullBytes b = (if length b = 0 then SqlNull else SqlString b)"

definition meta_json :: "(attributes \<Rightarrow> string + string) \<Rightarrow> attributes option \<Rightarrow> string" where
  "meta_json marshal meta =
     (case meta of
        None \<Rightarrow> ''''
      | Some m \<Rightarrow>
          if m = Map.empty then ''''
          else (case marshal m of Inl err \<Rightarrow> ''{}'' | Inr json \<Rightarrow> json))"

definition insert_args :: "(attributes \<Rightarrow> string + string) \<Rightarrow> Event \<Rightarrow> sql_value list" where
  "insert_args marshal e =
     [nullString (Event_ID e), SqlString (EventType_string (Event_Type e)), SqlTime (Event_Timestamp e),
      nullString (Event_Subject e), nullString (Event_Resource e), nullString (Event_Action e),
      nullString (Result_string (Event_Result e)), nullString (Event_IP e), nullString (Event_UserAgent e),
      nullString (Event_RequestID e), nullBytes (meta_json marshal (Event_Meta e))]"

definition DBLogger_Log ::
  "'w database \<Rightarrow> (attributes \<Rightarrow> string + string) \<Rightarrow> DBLogger \<Rightarrow> time \<Rightarrow> Event \<Rightarrow> 'w \<Rightarrow> 'w \<times> db_error option" where
  "DBLogger_Log db marshal l now event w =
     (let e = stamp now event;
          args = (case mapper l of Some m \<Rightarrow> m e | None \<Rightarrow> insert_args marshal e)
      in case ExecContext db (insertSQL l) args w of
           (w', Some err) \<Rightarrow> (w', Some (ErrInsert err))
         | (w', None) \<Rightarrow> (w', None))"

definition Ping :: "'w database \<Rightarrow> DBLogger \<Rightarrow> 'w \<Rightarrow> db_error option" where
  "Ping db l w =
     (case PingContext db w of
        Some err \<Rightarrow> Some (ErrUnreachable err)
      | None \<Rightarrow>
          (case QueryRowContext db (''SELECT 1 FROM '' @ table l @ '' LIMIT 1'') w of
             Some (RowError err) \<Rightarrow> Some (ErrTable (table l) err)
           | Some ErrNoRows \<Rightarrow> None
           | None \<Rightarrow> None))"

section \<open>Reading\<close>

definition event_types :: "EventType list" where
  "event_types =
     [EventLogin, EventLoginFailed, EventLogout, EventMFASuccess, EventMFAFailed, EventTokenIssued,
      EventTokenVerified, EventTokenRefreshed, EventTokenRevoked, EventTokenExpired, EventTokenInvalid,
      EventAPIKeyIssued, EventAPIKeyUsed, EventAPIKeyRevoked, EventAPIKeyInvalid, EventAccessGranted,
      EventAccessDenied, EventRateLimited, EventPasswordChanged, EventPasswordReset, EventAccountLocked,
      EventAccountUnlocked]"

text \<open>The value of the string type \<open>EventType\<close>, and of \<open>Result\<close>, for a string.\<close>

definition EventType_of :: "string \<Rightarrow> EventType" where
  "EventType_of s =
     (case find (\<lambda>t. EventType_string t = s) event_types of Some t \<Rightarrow> t | None \<Rightarrow> EventOther s)"

definition Result_of :: "string \<Rightarrow> Result" where
  "Result_of s =
     (case find (\<lambda>r. Result_string r = s) [ResultAllow, ResultDeny, ResultUnknown] of
        Some r \<Rightarrow> r | None \<Rightarrow> ResultOther s)"

definition text_of :: "string option \<Rightarrow> string" where
  "text_of s = (case s of None \<Rightarrow> '''' | Some t \<Rightarrow> t)"

definition event_of_row :: "(string \<Rightarrow> attributes option) \<Rightarrow> db_row \<Rightarrow> Event" where
  "event_of_row unmarshal r =
     \<lparr>Event_ID = text_of (row_event_id r), Event_Type = EventType_of (row_type r),
      Event_Timestamp = row_timestamp r, Event_Subject = text_of (row_subject r),
      Event_Resource = text_of (row_resource r), Event_Action = text_of (row_action r),
      Event_Result = Result_of (text_of (row_result r)), Event_IP = text_of (row_ip r),
      Event_UserAgent = text_of (row_user_agent r), Event_RequestID = text_of (row_request_id r),
      Event_Meta = (if text_of (row_meta r) \<noteq> '''' then unmarshal (text_of (row_meta r)) else None)\<rparr>"

text \<open>The loop over the rows; an error of a scan ends it.\<close>

fun scan_rows :: "(string \<Rightarrow> attributes option) \<Rightarrow> (string + db_row) list \<Rightarrow> Event list \<Rightarrow> string + Event list" where
  "scan_rows unmarshal [] events = Inr events"
| "scan_rows unmarshal (Inl err # rows) events = Inl err"
| "scan_rows unmarshal (Inr r # rows) events = scan_rows unmarshal rows (events @ [event_of_row unmarshal r])"

definition select_columns :: string where
  "select_columns =
     ''SELECT event_id, type, timestamp, subject, resource, action,'' @ newline_tabs 3 @
     ''result, ip, user_agent, request_id, meta'' @ newline_tabs 3"

definition select_subject :: "string \<Rightarrow> string" where
  "select_subject tbl = select_columns @ ''FROM '' @ tbl @ '' WHERE subject = $1 ORDER BY timestamp DESC LIMIT $2''"

definition select_all :: "string \<Rightarrow> string" where
  "select_all tbl = select_columns @ ''FROM '' @ tbl @ '' ORDER BY timestamp DESC LIMIT $1''"

definition Recent ::
  "'w database \<Rightarrow> (string \<Rightarrow> attributes option) \<Rightarrow> DBLogger \<Rightarrow> string \<Rightarrow> int \<Rightarrow> 'w \<Rightarrow> Event list \<times> db_error option" where
  "Recent db unmarshal l subject limit w =
     (let limit = (if limit \<le> 0 then 100 else limit) in
      case (if subject \<noteq> '''' then QueryContext db (select_subject (table l)) [SqlString subject, SqlInt limit] w
            else QueryContext db (select_all (table l)) [SqlInt limit] w) of
        Inl err \<Rightarrow> ([], Some (ErrQuery err))
      | Inr (rows, final) \<Rightarrow>
          (case scan_rows unmarshal rows [] of
             Inl err \<Rightarrow> ([], Some (ErrScan err))
           | Inr events \<Rightarrow> (events, map_option ErrRows final)))"

section \<open>What is relied on of the database\<close>

text \<open>
  The row a database makes of the arguments of the default statement: an argument NULL makes the
  column NULL, and the time is kept with the precision \<open>prec\<close> of the column type.
\<close>

fun column :: "sql_value \<Rightarrow> string option" where
  "column (SqlString s) = Some s"
| "column _ = None"

fun row_of_args :: "(time \<Rightarrow> time) \<Rightarrow> sql_value list \<Rightarrow> db_row option" where
  "row_of_args prec [i, SqlString t, SqlTime ts, su, rs, ac, r, ip, ua, rq, meta] =
     Some \<lparr>row_event_id = column i, row_type = t, row_timestamp = prec ts, row_subject = column su,
       row_resource = column rs, row_action = column ac, row_result = column r, row_ip = column ip,
       row_user_agent = column ua, row_request_id = column rq, row_meta = column meta\<rparr>"
| "row_of_args prec _ = None"

text \<open>Rows come in some order by descending time, as many as asked for.\<close>

definition selects ::
  "(string + (string + db_row) list \<times> string option) \<Rightarrow> int \<Rightarrow> db_row multiset \<Rightarrow> bool" where
  "selects answer n rows \<longleftrightarrow> (\<exists>xs. mset xs = rows \<and> sorted (map (\<lambda>r. - row_timestamp r) xs) \<and>
     answer = Inr (map Inr (take (nat n) xs), None))"

text \<open>
  The table \<open>tbl\<close> of the database holds the rows \<open>rows_of w\<close>: the default insert adds its row, and
  the two queries select from them.
\<close>

definition table_law ::
  "'w database \<Rightarrow> (time \<Rightarrow> time) \<Rightarrow> ('w \<Rightarrow> db_row multiset) \<Rightarrow> string \<Rightarrow> bool" where
  "table_law db prec rows_of tbl \<longleftrightarrow>
     (\<forall>args row w. row_of_args prec args = Some row \<longrightarrow>
        (\<exists>w'. ExecContext db (buildInsertSQL tbl) args w = (w', None) \<and> rows_of w' = add_mset row (rows_of w))) \<and>
     (\<forall>n w. 0 < n \<longrightarrow> selects (QueryContext db (select_all tbl) [SqlInt n] w) n (rows_of w)) \<and>
     (\<forall>s n w. 0 < n \<longrightarrow> selects (QueryContext db (select_subject tbl) [SqlString s, SqlInt n] w) n
        (filter_mset (\<lambda>r. row_subject r = Some s) (rows_of w)))"

section \<open>Lemmas\<close>

lemma declared_types: "list_all (\<lambda>t. EventType_of (EventType_string t) = t) event_types"
  by code_simp

lemma column_nullString [simp]: "text_of (column (nullString s)) = s"
  by (simp add: nullString_def text_of_def)

lemma column_nullBytes [simp]: "text_of (column (nullBytes b)) = b"
  by (simp add: nullBytes_def text_of_def)

definition event_row :: "(time \<Rightarrow> time) \<Rightarrow> (attributes \<Rightarrow> string + string) \<Rightarrow> Event \<Rightarrow> db_row" where
  "event_row prec marshal e = the (row_of_args prec (insert_args marshal e))"

lemma row_of_insert_args: "row_of_args prec (insert_args marshal e) = Some (event_row prec marshal e)"
  by (simp add: event_row_def insert_args_def)

text \<open>A type or a result that is written as one of the declared constants is that constant.\<close>

definition proper_event :: "Event \<Rightarrow> bool" where
  "proper_event e \<longleftrightarrow> EventType_of (EventType_string (Event_Type e)) = Event_Type e \<and>
     Result_of (Result_string (Event_Result e)) = Event_Result e"

text \<open>
  What is read back of an event that was logged at a time: a missing time stamp is filled in, its
  precision is that of the column, and the metadata went through JSON.
\<close>

definition stored_event ::
  "(time \<Rightarrow> time) \<Rightarrow> (attributes \<Rightarrow> string + string) \<Rightarrow> (string \<Rightarrow> attributes option) \<Rightarrow> time \<times> Event \<Rightarrow> Event" where
  "stored_event prec marshal unmarshal x =
     (case x of (now, e) \<Rightarrow>
        (stamp now e)\<lparr>Event_Timestamp := prec (Event_Timestamp (stamp now e)),
          Event_Meta := (let json = meta_json marshal (Event_Meta e) in
            if json \<noteq> '''' then unmarshal json else None)\<rparr>)"

lemma stamp_simps [simp]:
  "Event_ID (stamp now e) = Event_ID e" "Event_Type (stamp now e) = Event_Type e"
  "Event_Subject (stamp now e) = Event_Subject e" "Event_Resource (stamp now e) = Event_Resource e"
  "Event_Action (stamp now e) = Event_Action e" "Event_Result (stamp now e) = Event_Result e"
  "Event_IP (stamp now e) = Event_IP e" "Event_UserAgent (stamp now e) = Event_UserAgent e"
  "Event_RequestID (stamp now e) = Event_RequestID e" "Event_Meta (stamp now e) = Event_Meta e"
  by (simp_all add: stamp_def)

lemma event_of_event_row:
  assumes "proper_event e"
  shows "event_of_row unmarshal (event_row prec marshal (stamp now e)) = stored_event prec marshal unmarshal (now, e)"
proof (rule Event.equality)
  show "Event_Type (event_of_row unmarshal (event_row prec marshal (stamp now e))) =
      Event_Type (stored_event prec marshal unmarshal (now, e))"
    "Event_Result (event_of_row unmarshal (event_row prec marshal (stamp now e))) =
      Event_Result (stored_event prec marshal unmarshal (now, e))"
    using assms
    by (simp_all add: event_of_row_def event_row_def insert_args_def stored_event_def proper_event_def)
qed (simp_all add: event_of_row_def event_row_def insert_args_def stored_event_def Let_def)

lemma row_subject_event_row: "s \<noteq> '''' \<Longrightarrow> row_subject (event_row prec marshal e) = Some s \<longleftrightarrow> Event_Subject e = s"
  by (auto simp: event_row_def insert_args_def nullString_def)

lemma scan_rows_Inr: "scan_rows unmarshal (map Inr rs) events = Inr (events @ map (event_of_row unmarshal) rs)"
  by (induction rs arbitrary: events) simp_all

fun log_all ::
  "'w database \<Rightarrow> (attributes \<Rightarrow> string + string) \<Rightarrow> DBLogger \<Rightarrow> (time \<times> Event) list \<Rightarrow> 'w \<Rightarrow> 'w" where
  "log_all db marshal l [] w = w"
| "log_all db marshal l ((now, e) # es) w = log_all db marshal l es (fst (DBLogger_Log db marshal l now e w))"

definition default_logger :: "string \<Rightarrow> DBLogger \<Rightarrow> bool" where
  "default_logger tbl l \<longleftrightarrow> table l = tbl \<and> mapper l = None \<and> insertSQL l = buildInsertSQL tbl"

lemma log_all_rows:
  assumes "table_law db prec rows_of tbl" "default_logger tbl l"
  shows "rows_of (log_all db marshal l es w) =
    rows_of w + mset (map (\<lambda>(now, e). event_row prec marshal (stamp now e)) es)"
proof (induction es arbitrary: w)
  case (Cons x es)
  obtain now e where x: "x = (now, e)" by (cases x)
  from assms(1) obtain w' where "ExecContext db (buildInsertSQL tbl) (insert_args marshal (stamp now e)) w = (w', None)"
    "rows_of w' = add_mset (event_row prec marshal (stamp now e)) (rows_of w)"
    unfolding table_law_def using row_of_insert_args by blast
  with assms(2) Cons.IH[of w'] x show ?case
    by (simp add: DBLogger_Log_def default_logger_def Let_def)
qed simp

lemma selects_events:
  assumes "selects answer n rows"
  obtains xs where "mset xs = image_mset (event_of_row unmarshal) rows"
    "sorted (map (\<lambda>e. - Event_Timestamp e) xs)"
    "\<exists>rs. answer = Inr (rs, None) \<and> scan_rows unmarshal rs [] = Inr (take (nat n) xs)"
proof -
  from assms obtain rs where rs: "mset rs = rows" "sorted (map (\<lambda>r. - row_timestamp r) rs)"
    "answer = Inr (map Inr (take (nat n) rs), None)"
    by (auto simp: selects_def)
  have "map (\<lambda>e. - Event_Timestamp e) (map (event_of_row unmarshal) rs) = map (\<lambda>r. - row_timestamp r) rs"
    by (simp add: event_of_row_def)
  with rs that[of "map (event_of_row unmarshal) rs"] show ?thesis
    by (simp add: scan_rows_Inr take_map del: map_map)
qed

lemma default_logger_New: "default_logger tbl (NewDBLogger [WithTableName tbl])"
  by (simp add: default_logger_def NewDBLogger_def WithTableName_def)

lemma wanted_rows:
  "filter_mset (\<lambda>r. row_subject r = Some s) (mset (map (\<lambda>(now, e). event_row prec marshal (stamp now e)) es)) =
     mset (map (\<lambda>(now, e). event_row prec marshal (stamp now e)) (filter (\<lambda>x. Event_Subject (snd x) = s) es))"
  if "s \<noteq> ''''"
  using that by (induction es) (auto simp: row_subject_event_row)

lemma rows_to_events:
  assumes "\<forall>x \<in> set es. proper_event (snd x)"
  shows "image_mset (event_of_row unmarshal) (mset (map (\<lambda>(now, e). event_row prec marshal (stamp now e)) es)) =
    mset (map (stored_event prec marshal unmarshal) es)"
  using assms by (induction es) (auto simp: event_of_event_row)

lemma stored_meta:
  assumes "marshal_law other number marshal unmarshal \<and> Event_Meta e = Some m \<and> m \<noteq> Map.empty \<and> plain_attributes m"
  shows "Event_Meta (stored_event prec marshal unmarshal (now, e)) = Some (\<lambda>k. map_option (json_view number) (m k))"
  using assms marshalled_attributes_read_back[of other number marshal unmarshal m]
  by (auto simp: stored_event_def meta_json_def Let_def)

section \<open>Properties\<close>


text \<open>A table in memory that keeps whole seconds.\<close>

definition newest_first :: "db_row list \<Rightarrow> int \<Rightarrow> string + (string + db_row) list \<times> string option" where
  "newest_first rows n = Inr (map Inr (take (nat n) (sort_key (\<lambda>r. - row_timestamp r) rows)), None)"

definition seconds_only :: "time \<Rightarrow> time" where
  "seconds_only t = t div Second * Second"

fun memory_query :: "sql_value list \<Rightarrow> db_row list \<Rightarrow> string + (string + db_row) list \<times> string option" where
  "memory_query [SqlInt n] rows = newest_first rows n"
| "memory_query [SqlString s, SqlInt n] rows = newest_first (filter (\<lambda>r. row_subject r = Some s) rows) n"
| "memory_query _ rows = Inl ''bad arguments''"

definition memory_database :: "db_row list database" where
  "memory_database = \<lparr>ExecContext = (\<lambda>sql args rows.
       case row_of_args seconds_only args of Some r \<Rightarrow> (rows @ [r], None) | None \<Rightarrow> (rows, Some ''bad arguments'')),
     QueryContext = (\<lambda>sql args rows. memory_query args rows), PingContext = (\<lambda>rows. None),
     QueryRowContext = (\<lambda>sql rows. if rows = [] then Some ErrNoRows else None)\<rparr>"

lemma newest_first_selects: "selects (newest_first rows n) n (mset rows)"
  unfolding selects_def newest_first_def
  by (intro exI[of _ "sort_key (\<lambda>r. - row_timestamp r) rows"]) simp

lemma memory_database_law: "table_law memory_database seconds_only mset tbl"
  unfolding table_law_def memory_database_def
  using newest_first_selects by (auto simp: newest_first_selects simp flip: mset_filter)

definition sample_meta :: attributes where
  "sample_meta = [''tries'' \<mapsto> AInt 3, ''groups'' \<mapsto> AStrs [''a'', ''b'']]"

definition sample_events :: "(time \<times> Event) list" where
  "sample_events =
     [(0, (Eventf (5 * Second + 7) EventLogin ''ann'' ResultAllow)\<lparr>Event_Meta := Some sample_meta\<rparr>),
      (9 * Second, zero_Event\<lparr>Event_Type := EventLogout, Event_Subject := ''ann''\<rparr>),
      (9 * Second, zero_Event\<lparr>Event_Type := EventLogin, Event_Subject := ''bob''\<rparr>)]"

definition no_type :: "string \<Rightarrow> string \<Rightarrow> string + json" where
  "no_type ty v = Inl ''json: unsupported type''"


text \<open>
  The options: once a custom schema is set, the statement and the mapper are the caller's, whatever
  table names are set before or after.
\<close>

lemma custom_schema_kept:
  assumes "customSchema l" "\<forall>f \<in> set opts. \<exists>name. f = WithTableName name"
  shows "fold (\<lambda>f l. f l) opts l = l"
  using assms by (induction opts) (auto simp: WithTableName_def)

lemma custom_schema_owns_insert:
  assumes "\<forall>f \<in> set before. \<exists>name. f = WithTableName name" "\<forall>f \<in> set after. \<exists>name. f = WithTableName name"
  shows "insertSQL (NewDBLogger (before @ WithCustomSchema sql m # after)) = sql"
    "mapper (NewDBLogger (before @ WithCustomSchema sql m # after)) = m"
  using custom_schema_kept[OF _ assms(2)] by (simp_all add: NewDBLogger_def WithCustomSchema_def)

end
