(* ===== verification/Ginmw.thy ===== *)
theory Ginmw
  imports Guards
begin

text \<open>
  The package \<open>ginmw\<close>: the same guards for the Gin framework. A Gin context is the request and the
  map of keys. A handler gets the context with the chain behind it as an argument: calling it is
  \<open>c.Next()\<close>, and not calling it after an abort ends the chain. Gin's rendering of an abort and the
  parts of \<open>strings\<close> that depend on Unicode tables are the record \<open>gin\<close>.
\<close>

section \<open>Gin\<close>

datatype gin_value = GinClaims Claims | GinAny any

record 'w gin_Context =
  gin_Request :: "'w http_Request"
  gin_Keys :: "string \<rightharpoonup> gin_value"

record gin =
  AbortWithStatusJSON :: "int \<Rightarrow> string \<Rightarrow> rw_call list"
  err_Error :: "jwt_error \<Rightarrow> string"
  u_EqualFold :: "string \<Rightarrow> string \<Rightarrow> bool"
  u_ToLower :: "string \<Rightarrow> string"
  u_Fields :: "string \<Rightarrow> string list"

type_synonym 'w gin_Handler = "'w gin_Context \<Rightarrow> 'w \<Rightarrow> ('w \<times> rw_call list) outcome"

definition gin_Set :: "string \<Rightarrow> gin_value \<Rightarrow> 'w gin_Context \<Rightarrow> 'w gin_Context" where
  "gin_Set key v c = c\<lparr>gin_Keys := (gin_Keys c)(key \<mapsto> v)\<rparr>"

definition abort :: "gin \<Rightarrow> int \<Rightarrow> string \<Rightarrow> 'w \<Rightarrow> ('w \<times> rw_call list) outcome" where
  "abort g status msg w = Ret (w, AbortWithStatusJSON g status msg)"

text \<open>The type assertion \<open>v.(string)\<close> on a value of the context.\<close>

fun gin_string :: "gin_value \<Rightarrow> string option" where
  "gin_string (GinAny v) = as_string v"
| "gin_string (GinClaims _) = None"

section \<open>Accessors and helpers\<close>

definition claimsKey :: string where "claimsKey = ''ginmw:claims''"
definition subjectKey :: string where "subjectKey = ''ginmw:subject''"

definition gin_ClaimsFrom :: "'w gin_Context \<Rightarrow> Claims option" where
  "gin_ClaimsFrom c = (case gin_Keys c claimsKey of Some (GinClaims claims) \<Rightarrow> Some claims | _ \<Rightarrow> None)"

definition gin_SubjectFrom :: "'w gin_Context \<Rightarrow> string" where
  "gin_SubjectFrom c =
     (case gin_Keys c subjectKey of
        None \<Rightarrow> ''''
      | Some v \<Rightarrow> (case gin_string v of Some s \<Rightarrow> s | None \<Rightarrow> ''''))"

definition gin_extractBearer :: "gin \<Rightarrow> string \<Rightarrow> string" where
  "gin_extractBearer g header =
     (if 7 < length header \<and> EqualFold (u_EqualFold g) (take 7 header) ''Bearer '' then drop 7 header else '''')"

fun Contains :: "string \<Rightarrow> string \<Rightarrow> bool" where
  "Contains [] sub = (sub = [])"
| "Contains (c # cs) sub = (HasPrefix (c # cs) sub \<or> Contains cs sub)"

definition isWebSocketUpgrade :: "gin \<Rightarrow> 'w http_Request \<Rightarrow> bool" where
  "isWebSocketUpgrade g r =
     (EqualFold (u_EqualFold g) (Header_Get (req_Header r) ''Upgrade'') ''websocket'' \<and>
      Contains (ToLower (u_ToLower g) (Header_Get (req_Header r) ''Connection'')) ''upgrade'')"

text \<open>\<open>strings.Fields\<close>: the maximal runs of characters that are not spaces.\<close>

fun ascii_fields :: "string \<Rightarrow> string \<Rightarrow> string list" where
  "ascii_fields word [] = (if word = [] then [] else [rev word])"
| "ascii_fields word (c # cs) =
     (if is_space c then (if word = [] then ascii_fields [] cs else rev word # ascii_fields [] cs)
      else ascii_fields (c # word) cs)"

definition Fields :: "gin \<Rightarrow> string \<Rightarrow> string list" where
  "Fields g s = (if list_all ascii s then ascii_fields [] s else u_Fields g s)"

text \<open>The loop over a JSON array keeps the strings.\<close>

fun strings_of :: "any list \<Rightarrow> string list" where
  "strings_of [] = []"
| "strings_of (item # items) =
     (case as_string item of Some s \<Rightarrow> s # strings_of items | None \<Rightarrow> strings_of items)"

definition scopes_array :: "any option \<Rightarrow> string list" where
  "scopes_array raw =
     (case raw of Some (AStrs v) \<Rightarrow> v | Some (AList v) \<Rightarrow> strings_of v | _ \<Rightarrow> [])"

text \<open>A nil map has no entries.\<close>

definition extractScopes :: "gin \<Rightarrow> attributes \<Rightarrow> string list" where
  "extractScopes g custom =
     (case custom ''scope'' of
        Some (AStr s) \<Rightarrow> Fields g s
      | _ \<Rightarrow> scopes_array (custom ''scopes''))"

fun hasScope :: "string list \<Rightarrow> string \<Rightarrow> bool" where
  "hasScope [] need = False"
| "hasScope (s # granted) need = (if s = need then True else hasScope granted need)"

section \<open>Authentication\<close>

type_synonym 'w ClaimsExtractor = "'w gin_Context \<Rightarrow> Claims \<Rightarrow> 'w gin_Context"

record 'w jwtConfig =
  extractor :: "'w ClaimsExtractor option"
  webSocketFallback :: bool

type_synonym 'w JWTOption = "'w jwtConfig \<Rightarrow> 'w jwtConfig"

definition WithClaimsExtractor :: "'w ClaimsExtractor \<Rightarrow> 'w JWTOption" where
  "WithClaimsExtractor fn cfg = cfg\<lparr>extractor := Some fn\<rparr>"

definition WithWebSocketFallback :: "'w JWTOption" where
  "WithWebSocketFallback cfg = cfg\<lparr>webSocketFallback := True\<rparr>"

definition gin_config :: "'w JWTOption list \<Rightarrow> 'w jwtConfig" where
  "gin_config opts = fold (\<lambda>o' cfg. o' cfg) opts \<lparr>extractor = None, webSocketFallback = False\<rparr>"

text \<open>The token of a request, empty when there is none.\<close>

definition gin_token :: "gin \<Rightarrow> 'w jwtConfig \<Rightarrow> 'w http_Request \<Rightarrow> string" where
  "gin_token g cfg r =
     (let token = gin_extractBearer g (Header_Get (req_Header r) ''Authorization'') in
      if token = '''' \<and> webSocketFallback cfg \<and> isWebSocketUpgrade g r then req_Query r ''token'' else token)"

definition gin_authenticated :: "'w jwtConfig \<Rightarrow> Claims \<Rightarrow> 'w gin_Context \<Rightarrow> 'w gin_Context" where
  "gin_authenticated cfg claims c =
     (let c = gin_Set claimsKey (GinClaims claims) c;
          c = gin_Set subjectKey (GinAny (AStr (Claims_Subject claims))) c
      in case extractor cfg of Some fn \<Rightarrow> fn c claims | None \<Rightarrow> c)"

definition gin_JWT ::
  "gin \<Rightarrow> 'w gojwt \<Rightarrow> 'w jwt_options \<Rightarrow> 'w JWTOption list \<Rightarrow> time \<Rightarrow> 'w gin_Handler \<Rightarrow> 'w gin_Handler" where
  "gin_JWT g lib svc opts now nextH c w =
     (let cfg = gin_config opts; token = gin_token g cfg (gin_Request c) in
      if token = '''' then abort g 401 ''missing or malformed Authorization header'' w
      else case jwt_Verify lib svc now token w of
             (w', Inl err) \<Rightarrow> abort g 401 (err_Error g err) w'
           | (w', Inr claims) \<Rightarrow> nextH (gin_authenticated cfg claims c) w')"

section \<open>Roles and permissions\<close>

fun has_any_role :: "(string \<Rightarrow> 'e + string list) \<Rightarrow> string \<Rightarrow> string list \<Rightarrow> bool" where
  "has_any_role getSubjectRoles subject [] = False"
| "has_any_role getSubjectRoles subject (role # roles) =
     (if HasRole getSubjectRoles subject role then True else has_any_role getSubjectRoles subject roles)"

definition gin_RequireRole ::
  "gin \<Rightarrow> ('w \<Rightarrow> string \<Rightarrow> 'e + string list) \<Rightarrow> string list \<Rightarrow> 'w gin_Handler \<Rightarrow> 'w gin_Handler" where
  "gin_RequireRole g getSubjectRoles roles nextH c w =
     (let subject = gin_SubjectFrom c in
      if subject = '''' then abort g 401 ''unauthenticated'' w
      else if has_any_role (getSubjectRoles w) subject roles then nextH c w
      else abort g 403 ''forbidden: insufficient role'' w)"

definition not_allowed :: "string \<Rightarrow> string \<Rightarrow> string" where
  "not_allowed action resource = ''forbidden: '' @ action @ '' on '' @ resource @ '' not allowed''"

definition gin_RequirePermission ::
  "gin \<Rightarrow> ('w \<Rightarrow> string \<Rightarrow> 'e + Role) \<Rightarrow> ('w \<Rightarrow> string \<Rightarrow> 'e + string list) \<Rightarrow> string \<Rightarrow> string \<Rightarrow>
     'w gin_Handler \<Rightarrow> 'w gin_Handler" where
  "gin_RequirePermission g getRole getSubjectRoles action resource nextH c w =
     (let subject = gin_SubjectFrom c in
      if subject = '''' then abort g 401 ''unauthenticated'' w
      else if \<not> Can (getRole w) (getSubjectRoles w) subject action resource
      then abort g 403 (not_allowed action resource) w
      else nextH c w)"

section \<open>Claims in the context\<close>

fun matches_any :: "string \<Rightarrow> string list \<Rightarrow> bool" where
  "matches_any s [] = False"
| "matches_any s (allowed # rest) = (if s = allowed then True else matches_any s rest)"

definition RequireCustomClaim :: "gin \<Rightarrow> string \<Rightarrow> string list \<Rightarrow> 'w gin_Handler \<Rightarrow> 'w gin_Handler" where
  "RequireCustomClaim g contextKey allowedValues nextH c w =
     (case gin_Keys c contextKey of
        None \<Rightarrow> abort g 403 ''forbidden: missing claim'' w
      | Some v \<Rightarrow>
          (case gin_string v of
             None \<Rightarrow> abort g 403 ''forbidden: claim is not a string'' w
           | Some s \<Rightarrow>
               if matches_any s allowedValues then nextH c w
               else abort g 403 ''forbidden: insufficient privileges'' w))"

definition RequireCustomClaimNot :: "gin \<Rightarrow> string \<Rightarrow> string \<Rightarrow> 'w gin_Handler \<Rightarrow> 'w gin_Handler" where
  "RequireCustomClaimNot g contextKey blockedValue nextH c w =
     (case gin_Keys c contextKey of
        None \<Rightarrow> nextH c w
      | Some v \<Rightarrow>
          if gin_string v = Some blockedValue then abort g 403 ''forbidden: account not permitted'' w
          else nextH c w)"

text \<open>The permission function may consult, and change, the state behind it.\<close>

type_synonym 'w PermissionFunc = "'w http_Request \<Rightarrow> string \<Rightarrow> string \<Rightarrow> string \<Rightarrow> 'w \<Rightarrow> 'w \<times> bool"

definition bypassed :: "string \<Rightarrow> string \<Rightarrow> 'w gin_Context \<Rightarrow> bool" where
  "bypassed bypassKey bypassValue c =
     (if bypassKey \<noteq> '''' \<and> bypassValue \<noteq> '''' then
        (case gin_Keys c bypassKey of None \<Rightarrow> False | Some bv \<Rightarrow> gin_string bv = Some bypassValue)
      else False)"

definition RequireAsyncPermission ::
  "gin \<Rightarrow> string \<Rightarrow> string \<Rightarrow> string \<Rightarrow> 'w PermissionFunc \<Rightarrow> string \<Rightarrow> string \<Rightarrow> 'w gin_Handler \<Rightarrow> 'w gin_Handler" where
  "RequireAsyncPermission g subjKey bypassKey bypassValue fn resource action nextH c w =
     (if bypassed bypassKey bypassValue c then nextH c w
      else case gin_Keys c subjKey of
        None \<Rightarrow> abort g 401 ''unauthenticated'' w
      | Some sv \<Rightarrow>
          (case gin_string sv of
             None \<Rightarrow> abort g 401 ''unauthenticated'' w
           | Some subject \<Rightarrow>
               if subject = '''' then abort g 401 ''unauthenticated'' w
               else (case fn (gin_Request c) subject resource action w of
                       (w', allowed) \<Rightarrow>
                         if \<not> allowed then abort g 403 (not_allowed action resource) w' else nextH c w')))"

section \<open>Scopes\<close>

text \<open>The loop over the required scopes: the first one that is missing.\<close>

fun first_missing :: "string list \<Rightarrow> string list \<Rightarrow> string option" where
  "first_missing granted [] = None"
| "first_missing granted (need # required) =
     (if \<not> hasScope granted need then Some need else first_missing granted required)"

definition ScopeChecker :: "gin \<Rightarrow> string list \<Rightarrow> 'w gin_Handler \<Rightarrow> 'w gin_Handler" where
  "ScopeChecker g required nextH c w =
     (case gin_ClaimsFrom c of
        None \<Rightarrow> abort g 401 ''unauthenticated'' w
      | Some claims \<Rightarrow>
          (case first_missing (extractScopes g (Claims_Custom claims)) required of
             Some need \<Rightarrow> abort g 403 (''forbidden: missing required scope: '' @ need) w
           | None \<Rightarrow> nextH c w))"

section \<open>Lemmas\<close>

text \<open>
  The token a request presents: after seven characters that fold to the scheme, or, with the
  fallback, in the query of a WebSocket upgrade whose header has none.
\<close>

definition bearer_header :: "gin \<Rightarrow> string \<Rightarrow> string \<Rightarrow> bool" where
  "bearer_header g header token \<longleftrightarrow> token \<noteq> '''' \<and>
     (\<exists>scheme. header = scheme @ token \<and> length scheme = 7 \<and> EqualFold (u_EqualFold g) scheme ''Bearer '')"

definition presents :: "gin \<Rightarrow> 'w jwtConfig \<Rightarrow> 'w http_Request \<Rightarrow> string \<Rightarrow> bool" where
  "presents g cfg r token \<longleftrightarrow>
     bearer_header g (Header_Get (req_Header r) ''Authorization'') token \<or>
     ((\<nexists>t. bearer_header g (Header_Get (req_Header r) ''Authorization'') t) \<and>
      webSocketFallback cfg \<and> isWebSocketUpgrade g r \<and> req_Query r ''token'' = token \<and> token \<noteq> '''')"

lemma bearer_header_iff: "bearer_header g header token \<longleftrightarrow> gin_extractBearer g header = token \<and> token \<noteq> ''''"
proof
  assume "bearer_header g header token"
  then show "gin_extractBearer g header = token \<and> token \<noteq> ''''"
    by (auto simp: bearer_header_def gin_extractBearer_def)
next
  assume t: "gin_extractBearer g header = token \<and> token \<noteq> ''''"
  then have "7 < length header" "EqualFold (u_EqualFold g) (take 7 header) ''Bearer ''" "token = drop 7 header"
    by (auto simp: gin_extractBearer_def split: if_splits)
  with t show "bearer_header g header token"
    unfolding bearer_header_def by (intro conjI exI[of _ "take 7 header"]) simp_all
qed

lemma presents_iff: "presents g cfg r token \<longleftrightarrow> gin_token g cfg r = token \<and> token \<noteq> ''''"
  by (auto simp: presents_def bearer_header_iff gin_token_def Let_def)

lemma gin_keys_differ: "claimsKey \<noteq> subjectKey"
  by (simp add: claimsKey_def subjectKey_def)

lemma gin_authenticated_plain:
  assumes "extractor cfg = None"
  shows "gin_SubjectFrom (gin_authenticated cfg claims c) = Claims_Subject claims"
    "gin_ClaimsFrom (gin_authenticated cfg claims c) = Some claims"
    "gin_Request (gin_authenticated cfg claims c) = gin_Request c"
  using assms gin_keys_differ
  by (simp_all add: gin_authenticated_def gin_SubjectFrom_def gin_ClaimsFrom_def gin_Set_def)

lemma gin_JWT_accepts:
  "gin_token g (gin_config opts) (gin_Request c) = token \<Longrightarrow> token \<noteq> '''' \<Longrightarrow>
     jwt_Verify lib svc now token w = (w', Inr claims) \<Longrightarrow>
     gin_JWT g lib svc opts now nextH c w = nextH (gin_authenticated (gin_config opts) claims c) w'"
  by (simp add: gin_JWT_def Let_def)

lemma bearer_token:
  assumes "Header_Get (req_Header r) ''Authorization'' = ''Bearer '' @ token" "token \<noteq> ''''"
  shows "gin_token g cfg r = token"
proof -
  have "list_all ascii ''Bearer ''" by code_simp
  then have "EqualFold (u_EqualFold g) ''Bearer '' ''Bearer ''" by (simp add: EqualFold_def)
  moreover have "length ''Bearer '' = 7" by simp
  ultimately have "bearer_header g (''Bearer '' @ token) token"
    unfolding bearer_header_def using assms(2) by blast
  with assms have "presents g cfg r token" unfolding presents_def by metis
  then show ?thesis by (simp add: presents_iff)
qed

lemma has_any_role_iff: "has_any_role held subject roles \<longleftrightarrow> (\<exists>role \<in> set roles. HasRole held subject role)"
  by (induction roles) auto

lemma matches_any_iff: "matches_any s xs \<longleftrightarrow> s \<in> set xs"
  by (induction xs) auto

lemma hasScope_iff: "hasScope granted need \<longleftrightarrow> need \<in> set granted"
  by (induction granted) auto

lemma first_missing_None: "first_missing granted required = None \<longleftrightarrow> set required \<subseteq> set granted"
  by (induction required) (auto simp: hasScope_iff)

lemma first_missing_Some: "first_missing granted required = Some need \<Longrightarrow> need \<in> set required \<and> need \<notin> set granted"
  by (induction required) (auto simp: hasScope_iff split: if_splits)

lemma set_strings_of: "s \<in> set (strings_of items) \<longleftrightarrow> AStr s \<in> set items"
  by (induction items) (auto split: option.splits simp: as_string_eq_Some)

lemma set_scopes_array:
  "s \<in> set (scopes_array raw) \<longleftrightarrow>
     (\<exists>v. raw = Some (AStrs v) \<and> s \<in> set v) \<or> (\<exists>items. raw = Some (AList items) \<and> AStr s \<in> set items)"
proof (cases raw)
  case (Some v)
  then show ?thesis by (cases v) (simp_all add: scopes_array_def set_strings_of)
qed (simp add: scopes_array_def)

text \<open>The words of a list, put together with single spaces, are its fields.\<close>

definition is_word :: "string \<Rightarrow> bool" where
  "is_word s \<longleftrightarrow> s \<noteq> '''' \<and> list_all (\<lambda>c. \<not> is_space c) s"

lemma ascii_fields_word: "list_all (\<lambda>c. \<not> is_space c) s \<Longrightarrow> ascii_fields word (s @ t) = ascii_fields (rev s @ word) t"
  by (induction s arbitrary: word) auto

lemma ascii_fields_join: "list_all is_word ss \<Longrightarrow> ascii_fields [] (join '' '' ss) = ss"
proof (induction ss rule: join.induct[of _ "undefined"])
  case (2 sep x)
  then show ?case using ascii_fields_word[of x "[]" "[]"] by (auto simp: is_word_def)
next
  case (3 sep x y zs)
  have "is_space (CHR '' '')" by (simp add: is_space_def)
  with 3 ascii_fields_word[of x "[]" "CHR '' '' # join '' '' (y # zs)"] show ?case
    by (simp add: is_word_def)
qed simp

text \<open>What a token grants: the words of the claim \<open>scope\<close> if that is a string, else the strings of \<open>scopes\<close>.\<close>

definition scope_granted :: "gin \<Rightarrow> attributes \<Rightarrow> string \<Rightarrow> bool" where
  "scope_granted g custom s \<longleftrightarrow>
     (if \<exists>str. custom ''scope'' = Some (AStr str)
      then \<exists>str. custom ''scope'' = Some (AStr str) \<and> s \<in> set (Fields g str)
      else (\<exists>v. custom ''scopes'' = Some (AStrs v) \<and> s \<in> set v) \<or>
           (\<exists>items. custom ''scopes'' = Some (AList items) \<and> AStr s \<in> set items))"

lemma set_extractScopes: "s \<in> set (extractScopes g custom) \<longleftrightarrow> scope_granted g custom s"
proof (cases "custom ''scope''")
  case None
  then show ?thesis by (simp add: extractScopes_def scope_granted_def set_scopes_array)
next
  case (Some v)
  then show ?thesis by (cases v) (simp_all add: extractScopes_def scope_granted_def set_scopes_array)
qed

section \<open>Properties\<close>

text \<open>
  Complete mediation in Gin. The chain behind \<open>JWT\<close> runs exactly for requests that present a
  token which verifies, in a header whose scheme is compared without regard to case, or, only with
  the fallback and only on a WebSocket upgrade without such a header, in the query; the context
  then holds the claims of that token. Every other request is aborted with 401.
\<close>

theorem gin_JWT_complete_mediation:
  "if \<exists>token w' claims. presents g (gin_config opts) (gin_Request c) token \<and>
        jwt_Verify lib svc now token w = (w', Inr claims)
   then \<exists>token w' claims. presents g (gin_config opts) (gin_Request c) token \<and>
        jwt_Verify lib svc now token w = (w', Inr claims) \<and>
        gin_JWT g lib svc opts now nextH c w = nextH (gin_authenticated (gin_config opts) claims c) w'
   else \<exists>w' msg. gin_JWT g lib svc opts now nextH c w = Ret (w', AbortWithStatusJSON g 401 msg)"
proof (cases "\<exists>token w' claims. presents g (gin_config opts) (gin_Request c) token \<and>
    jwt_Verify lib svc now token w = (w', Inr claims)")
  case True
  then obtain token w' claims where t: "presents g (gin_config opts) (gin_Request c) token"
    "jwt_Verify lib svc now token w = (w', Inr claims)" by blast
  then have "gin_JWT g lib svc opts now nextH c w = nextH (gin_authenticated (gin_config opts) claims c) w'"
    by (intro gin_JWT_accepts) (simp_all add: presents_iff)
  with t True show ?thesis by auto
next
  case False
  let ?token = "gin_token g (gin_config opts) (gin_Request c)"
  obtain w' x where v: "jwt_Verify lib svc now ?token w = (w', x)" by fastforce
  have "\<exists>w' msg. gin_JWT g lib svc opts now nextH c w = Ret (w', AbortWithStatusJSON g 401 msg)"
  proof (cases "?token = ''''")
    case True
    then show ?thesis by (auto simp: gin_JWT_def abort_def Let_def)
  next
    case no: False
    with False v have "x \<noteq> Inr claims" for claims by (auto simp: presents_iff)
    then obtain err where "x = Inl err" by (cases x) auto
    with v no show ?thesis by (auto simp: gin_JWT_def abort_def Let_def)
  qed
  then show ?thesis by (simp only: False if_False)
qed


definition plain_gin :: gin where
  "plain_gin = \<lparr>AbortWithStatusJSON = (\<lambda>status msg. [RwWriteHeader status, RwWrite (json_error msg)]),
     err_Error = (\<lambda>_. ''invalid''), u_EqualFold = (=), u_ToLower = id, u_Fields = (\<lambda>s. [s])\<rparr>"


text \<open>
  C36: all scopes are required. After \<open>ScopeChecker\<close> the chain goes on exactly when the context has
  claims and every required scope is granted by them, by a word of the string claim \<open>scope\<close> or,
  when there is no such string, by a string in the array \<open>scopes\<close>; otherwise the request is aborted,
  with 401 without claims and with 403 naming a required scope that is not granted.
\<close>

theorem ScopeChecker_requires_all_scopes:
  "case gin_ClaimsFrom c of
     None \<Rightarrow> ScopeChecker g required nextH c w = Ret (w, AbortWithStatusJSON g 401 ''unauthenticated'')
   | Some claims \<Rightarrow>
       if set required \<subseteq> {s. scope_granted g (Claims_Custom claims) s}
       then ScopeChecker g required nextH c w = nextH c w
       else \<exists>need \<in> set required. \<not> scope_granted g (Claims_Custom claims) need \<and>
         ScopeChecker g required nextH c w =
           Ret (w, AbortWithStatusJSON g 403 (''forbidden: missing required scope: '' @ need))"
proof (cases "gin_ClaimsFrom c")
  case None
  then show ?thesis by (simp add: ScopeChecker_def abort_def)
next
  case (Some claims)
  let ?granted = "extractScopes g (Claims_Custom claims)"
  have granted: "set ?granted = {s. scope_granted g (Claims_Custom claims) s}"
    using set_extractScopes by auto
  show ?thesis
  proof (cases "first_missing ?granted required")
    case None
    then have "set required \<subseteq> {s. scope_granted g (Claims_Custom claims) s}"
      using granted by (simp add: first_missing_None)
    with None Some show ?thesis by (simp add: ScopeChecker_def)
  next
    case (Some need)
    then have "need \<in> set required" "\<not> scope_granted g (Claims_Custom claims) need"
      using first_missing_Some[OF Some] granted by auto
    with Some \<open>gin_ClaimsFrom c = Some claims\<close> show ?thesis by (auto simp: ScopeChecker_def abort_def)
  qed
qed

lemma gin_string_Some: "gin_string v = Some s \<longleftrightarrow> v = GinAny (AStr s)"
  by (cases v) (simp_all add: as_string_eq_Some)

lemma claim_guard_decides:
  "if \<exists>s \<in> set allowed. gin_Keys c key = Some (GinAny (AStr s))
   then RequireCustomClaim g key allowed nextH c w = nextH c w
   else \<exists>msg. RequireCustomClaim g key allowed nextH c w = Ret (w, AbortWithStatusJSON g 403 msg)"
proof (cases "gin_Keys c key")
  case (Some v)
  show ?thesis
  proof (cases "gin_string v")
    case None
    then have "v \<noteq> GinAny (AStr s)" for s by auto
    with None Some show ?thesis by (auto simp: RequireCustomClaim_def abort_def)
  next
    case (Some s)
    with \<open>gin_Keys c key = Some v\<close> show ?thesis
      by (auto simp: gin_string_Some RequireCustomClaim_def abort_def matches_any_iff)
  qed
qed (auto simp: RequireCustomClaim_def abort_def)

lemma claim_not_guard_decides:
  "if gin_Keys c key = Some (GinAny (AStr b))
   then \<exists>msg. RequireCustomClaimNot g key b nextH c w = Ret (w, AbortWithStatusJSON g 403 msg)
   else RequireCustomClaimNot g key b nextH c w = nextH c w"
  by (cases "gin_Keys c key") (auto simp: RequireCustomClaimNot_def abort_def gin_string_Some)

lemma bypassed_iff: "bypassed bk bv c \<longleftrightarrow> bk \<noteq> '''' \<and> bv \<noteq> '''' \<and> gin_Keys c bk = Some (GinAny (AStr bv))"
  by (cases "gin_Keys c bk") (simp_all add: bypassed_def gin_string_Some)

lemma async_guard_bypassed:
  "bk \<noteq> '''' \<and> bv \<noteq> '''' \<and> gin_Keys c bk = Some (GinAny (AStr bv)) \<Longrightarrow>
     RequireAsyncPermission g key bk bv fn resource action nextH c w = nextH c w"
  by (simp only: RequireAsyncPermission_def bypassed_iff if_True simp_thms)

lemma async_guard_asks:
  assumes "\<not> (bk \<noteq> '''' \<and> bv \<noteq> '''' \<and> gin_Keys c bk = Some (GinAny (AStr bv)))"
  shows "if \<exists>subject. subject \<noteq> '''' \<and> gin_Keys c key = Some (GinAny (AStr subject))
    then \<exists>subject w' ok msg. gin_Keys c key = Some (GinAny (AStr subject)) \<and>
      fn (gin_Request c) subject resource action w = (w', ok) \<and>
      RequireAsyncPermission g key bk bv fn resource action nextH c w =
        (if ok then nextH c w' else Ret (w', AbortWithStatusJSON g 403 msg))
    else \<exists>msg. RequireAsyncPermission g key bk bv fn resource action nextH c w = Ret (w, AbortWithStatusJSON g 401 msg)"
proof -
  from assms have no: "\<not> bypassed bk bv c" by (simp only: bypassed_iff not_False_eq_True)
  show ?thesis
  proof (cases "gin_Keys c key")
    case None
    with no show ?thesis by (auto simp: RequireAsyncPermission_def abort_def)
  next
    case (Some v)
    show ?thesis
    proof (cases "gin_string v")
      case None
      then have "v \<noteq> GinAny (AStr s)" for s by auto
      with None Some no show ?thesis by (auto simp: RequireAsyncPermission_def abort_def)
    next
      case (Some subject)
      obtain w' ok where "fn (gin_Request c) subject resource action w = (w', ok)" by fastforce
      with Some \<open>gin_Keys c key = Some v\<close> no show ?thesis
        by (auto simp: RequireAsyncPermission_def abort_def gin_string_Some)
    qed
  qed
qed

text \<open>
  The guards on context values. \<open>RequireCustomClaim\<close> continues exactly for a string among the
  allowed ones, \<open>RequireCustomClaimNot\<close> for everything but the blocked string, a missing or
  non-string value included, and \<open>RequireAsyncPermission\<close> exactly when the bypass applies or the
  permission function, asked once about the subject in the context, says so; each answers 401 or
  403 otherwise.
\<close>

theorem context_guards_decide:
  "(if \<exists>s \<in> set allowed. gin_Keys c key = Some (GinAny (AStr s))
    then RequireCustomClaim g key allowed nextH c w = nextH c w
    else \<exists>msg. RequireCustomClaim g key allowed nextH c w = Ret (w, AbortWithStatusJSON g 403 msg)) \<and>
   (if gin_Keys c key = Some (GinAny (AStr b))
    then \<exists>msg. RequireCustomClaimNot g key b nextH c w = Ret (w, AbortWithStatusJSON g 403 msg)
    else RequireCustomClaimNot g key b nextH c w = nextH c w) \<and>
   (if bk \<noteq> '''' \<and> bv \<noteq> '''' \<and> gin_Keys c bk = Some (GinAny (AStr bv))
    then RequireAsyncPermission g key bk bv fn resource action nextH c w = nextH c w
    else if \<exists>subject. subject \<noteq> '''' \<and> gin_Keys c key = Some (GinAny (AStr subject))
    then \<exists>subject w' ok msg. gin_Keys c key = Some (GinAny (AStr subject)) \<and>
      fn (gin_Request c) subject resource action w = (w', ok) \<and>
      RequireAsyncPermission g key bk bv fn resource action nextH c w =
        (if ok then nextH c w' else Ret (w', AbortWithStatusJSON g 403 msg))
    else \<exists>msg. RequireAsyncPermission g key bk bv fn resource action nextH c w =
      Ret (w, AbortWithStatusJSON g 401 msg))"
proof (intro conjI, rule claim_guard_decides, rule claim_not_guard_decides, rule if_bool_eq_conj[THEN iffD2], intro conjI impI)
  assume "bk \<noteq> '''' \<and> bv \<noteq> '''' \<and> gin_Keys c bk = Some (GinAny (AStr bv))"
  then show "RequireAsyncPermission g key bk bv fn resource action nextH c w = nextH c w"
    by (rule async_guard_bypassed)
qed (rule async_guard_asks)

end
