(* ===== verification/Examples.thy ===== *)
theory Examples
  imports Guards CryptoKeys
begin

text \<open>
  The two example servers (\<open>examples/basic/main.go\<close>, \<open>examples/advanced/main.go\<close>): their
  configuration and their routes, composed from the models of the packages. \<open>quote\<close> is the verb
  \<open>%q\<close>; \<open>other\<close> is what \<open>http.ServeMux\<close> answers when it does not call a handler (404, or a redirect
  to a cleaned path). Paths are taken without percent escapes.
\<close>

section \<open>Routing\<close>

text \<open>A pattern that ends in a slash matches a subtree; the longest match wins.\<close>

definition pattern_matches :: "string \<Rightarrow> string \<Rightarrow> bool" where
  "pattern_matches path pat \<longleftrightarrow> path = pat \<or> (pat \<noteq> '''' \<and> last pat = CHR ''/'' \<and> HasPrefix path pat)"

fun best_route :: "string \<Rightarrow> (string \<times> 'h) list \<Rightarrow> (string \<times> 'h) option" where
  "best_route path [] = None"
| "best_route path ((pat, h) # routes) =
     (case best_route path routes of
        None \<Rightarrow> if pattern_matches path pat then Some (pat, h) else None
      | Some (pat', h') \<Rightarrow>
          if pattern_matches path pat \<and> length pat' < length pat then Some (pat, h) else Some (pat', h'))"

text \<open>A path with empty, \<open>.\<close> or \<open>..\<close> segments is redirected, except for \<open>CONNECT\<close>.\<close>

definition canonical_path :: "string \<Rightarrow> bool" where
  "canonical_path path =
     (case Split (CHR ''/'') path of
        s # t # segs \<Rightarrow>
          s = [] \<and> list_all (\<lambda>x. x \<noteq> []) (butlast (t # segs)) \<and>
          list_all (\<lambda>x. x \<noteq> ''.'' \<and> x \<noteq> ''..'') (t # segs)
      | _ \<Rightarrow> False)"

definition ServeMux :: "'w Handler \<Rightarrow> (string \<times> 'w Handler) list \<Rightarrow> 'w Handler" where
  "ServeMux other routes r w =
     (if req_Method r \<noteq> ''CONNECT'' \<and> \<not> canonical_path (req_Path r) then other r w
      else case best_route (req_Path r) routes of None \<Rightarrow> other r w | Some (pat, h) \<Rightarrow> h r w)"

definition http_Error :: "string \<Rightarrow> int \<Rightarrow> rw_call list" where
  "http_Error msg code =
     [RwDel ''Content-Length'', RwSet ''Content-Type'' ''text/plain; charset=utf-8'',
      RwSet ''X-Content-Type-Options'' ''nosniff'', RwWriteHeader code, RwWrite (msg @ [CHR 0x0A])]"

definition json_reply :: "string \<Rightarrow> rw_call list" where
  "json_reply body = [RwSet ''Content-Type'' ''application/json'', RwWrite body]"

definition token_body :: "(string \<Rightarrow> string) \<Rightarrow> string \<Rightarrow> string" where
  "token_body quote token = [CHR 0x7B] @ quoted ''token'' @ '':'' @ quote token @ [CHR 0x7D]"

definition message_body :: "string \<Rightarrow> string \<Rightarrow> string" where
  "message_body msg more_fields = [CHR 0x7B] @ quoted ''message'' @ '':'' @ quoted msg @ more_fields @ [CHR 0x7D]"

section \<open>The basic example\<close>

definition basic_secret :: string where
  "basic_secret = ''replace-with-a-secret-of-at-least-32-bytes!!''"

definition basic_jwtSvc :: "'w jwt_options" where
  "basic_jwtSvc = jwt_New [WithHMAC basic_secret, WithExpiry (15 * Minute), WithIssuer ''basic-example'']"

definition basic_roles :: "Role list" where
  "basic_roles =
     [\<lparr>Role_Name = ''admin'', Role_Parents = [],
       Role_Permissions = [\<lparr>Permission_Resource = ''*'', Permission_Action = ''*''\<rparr>]\<rparr>,
      \<lparr>Role_Name = ''viewer'', Role_Parents = [],
       Role_Permissions = [\<lparr>Permission_Resource = ''*'', Permission_Action = ''read''\<rparr>]\<rparr>,
      \<lparr>Role_Name = ''editor'', Role_Parents = [''viewer''],
       Role_Permissions =
         [\<lparr>Permission_Resource = ''posts'', Permission_Action = ''create''\<rparr>,
          \<lparr>Permission_Resource = ''posts'', Permission_Action = ''update''\<rparr>,
          \<lparr>Permission_Resource = ''posts'', Permission_Action = ''delete''\<rparr>]\<rparr>]"

definition basic_assignments :: "(string \<times> string) list" where
  "basic_assignments = [(''alice'', ''admin''), (''bob'', ''editor''), (''carol'', ''viewer'')]"

text \<open>The calls of \<open>AddRole\<close> and \<open>AssignRole\<close>, in order; their errors are discarded.\<close>

definition basic_store :: rbac_MemoryStore where
  "basic_store =
     fold (\<lambda>(subject, role) s. fst (AssignRole s subject role)) basic_assignments
       (fold (\<lambda>role s. fst (AddRole s role)) basic_roles rbac_NewMemoryStore)"

definition basic_claims :: "string \<Rightarrow> Claims" where
  "basic_claims userID =
     \<lparr>Claims_Subject = userID, Claims_Audience = [], Claims_ExpiresAt = zero_time, Claims_IssuedAt = zero_time,
      Claims_Custom = [''email'' \<mapsto> AStr (userID @ ''@example.com'')]\<rparr>"

definition basic_login :: "'w gojwt \<Rightarrow> (string \<Rightarrow> string) \<Rightarrow> time \<Rightarrow> 'w Handler" where
  "basic_login lib quote now r w =
     (let userID = req_Query r ''user'' in
      if userID = '''' then reply (http_Error (json_error ''missing user param'') 400) w
      else case jwt_Sign lib (basic_jwtSvc :: 'w jwt_options) now (basic_claims userID) of
             Inl err \<Rightarrow> reply (http_Error (json_error ''could not sign token'') 500) w
           | Inr token \<Rightarrow> reply (json_reply (token_body quote token)) w)"

definition readHandler :: "'w Handler" where
  "readHandler r =
     reply (json_reply (message_body (''hello '' @ SubjectFrom r @ '', here are your posts'') ('','' @ quoted ''posts'' @ '':[]'')))"

definition createHandler :: "'w Handler" where
  "createHandler r = reply (json_reply (message_body (''post created by '' @ SubjectFrom r) ''''))"

definition basic_protected :: "'w gojwt \<Rightarrow> time \<Rightarrow> string \<Rightarrow> 'w Handler \<Rightarrow> 'w Handler" where
  "basic_protected lib now action h =
     JWT lib basic_jwtSvc [] now
       (rbac_Require (\<lambda>_. GetRole basic_store) (\<lambda>_. GetSubjectRoles basic_store) action ''posts'' h)"

definition basic_server :: "'w gojwt \<Rightarrow> (string \<Rightarrow> string) \<Rightarrow> 'w Handler \<Rightarrow> time \<Rightarrow> 'w Handler" where
  "basic_server lib quote other now =
     ServeMux other
       [(''/login'', basic_login lib quote now),
        (''/posts'', basic_protected lib now ''read'' readHandler),
        (''/posts/create'', basic_protected lib now ''create'' createHandler)]"

text \<open>
  A run of a program: the lines it logs and its exit code. \<open>listen\<close> is \<open>http.ListenAndServe\<close>, which
  serves until it fails and returns an error; a fatal error is logged and ends the program with 1.
\<close>

type_synonym run = "string list \<times> int"

definition log_Fatal :: "string list \<Rightarrow> string \<Rightarrow> run" where
  "log_Fatal lines err = (lines @ [err], 1)"

definition em_dash :: string where
  "em_dash = [CHR 0xE2, CHR 0x80, CHR 0x94]"

definition basic_main ::
  "'w gojwt \<Rightarrow> (string \<Rightarrow> string) \<Rightarrow> 'w Handler \<Rightarrow> (string \<Rightarrow> (time \<Rightarrow> 'w Handler) \<Rightarrow> string) \<Rightarrow> run" where
  "basic_main lib quote other listen =
     log_Fatal
       [''Listening on :8080'',
        ''  GET  /login?user=<alice|bob|carol>  '' @ em_dash @ '' issue token'',
        ''  GET  /posts                         '' @ em_dash @ '' requires read:posts'',
        ''  POST /posts/create                  '' @ em_dash @ '' requires create:posts'']
       (listen '':8080'' (basic_server lib quote other))"

section \<open>The advanced example\<close>

definition advanced_jwtSvc :: "curve \<times> string \<Rightarrow> curve \<times> string \<Rightarrow> MemoryBlacklist jwt_options" where
  "advanced_jwtSvc privKey pubKey =
     jwt_New [WithECDSA privKey pubKey, WithExpiry (15 * Minute), WithIssuer ''advanced-example'',
       WithBlacklist memory_blacklist]"

definition advanced_policies :: "Policy list" where
  "advanced_policies =
     [\<lparr>Policy_ID = ''admin-all'', Policy_Effect = Allow, Policy_Condition = SubjectHasRole ''admin'',
       Policy_Priority = 100\<rparr>,
      \<lparr>Policy_ID = ''deny-root-delete'', Policy_Effect = Deny,
       Policy_Condition = And [ResourceAttrEquals ''owner'' (AStr ''root''), ActionIs [''delete'']],
       Policy_Priority = 90\<rparr>,
      \<lparr>Policy_ID = ''owner-access'', Policy_Effect = Allow,
       Policy_Condition = And [OwnerIsSubject, ActionIs [''read'', ''update'', ''delete'']], Policy_Priority = 50\<rparr>,
      \<lparr>Policy_ID = ''public-read'', Policy_Effect = Allow,
       Policy_Condition = And [ResourceAttrEquals ''visibility'' (AStr ''public''), ActionIs [''read'']],
       Policy_Priority = 10\<rparr>]"

definition advanced_policyStore :: abac_MemoryStore where
  "advanced_policyStore = fold (\<lambda>p s. fst (AddPolicy s p)) advanced_policies abac_NewMemoryStore"

definition advanced_claims :: "string \<Rightarrow> string \<Rightarrow> Claims" where
  "advanced_claims userID role =
     \<lparr>Claims_Subject = userID, Claims_Audience = [], Claims_ExpiresAt = zero_time, Claims_IssuedAt = zero_time,
      Claims_Custom = [''roles'' \<mapsto> AStrs [role]]\<rparr>"

definition advanced_login ::
  "MemoryBlacklist gojwt \<Rightarrow> MemoryBlacklist jwt_options \<Rightarrow> (string \<Rightarrow> string) \<Rightarrow> time \<Rightarrow> MemoryBlacklist Handler" where
  "advanced_login lib svc quote now r w =
     (let userID = req_Query r ''user''; role = req_Query r ''role'' in
      if userID = '''' then reply (http_Error (json_error ''missing user'') 400) w
      else case jwt_Sign lib svc now (advanced_claims userID role) of
             Inl err \<Rightarrow> reply (http_Error (json_error ''sign failed'') 500) w
           | Inr token \<Rightarrow> reply (json_reply (token_body quote token)) w)"

text \<open>Slicing a header that is shorter than the scheme panics.\<close>

definition logoutHandler :: "MemoryBlacklist jwt_options \<Rightarrow> MemoryBlacklist Handler" where
  "logoutHandler svc r w =
     (let auth = Header_Get (req_Header r) ''Authorization'' in
      if length auth < 7 then Panic
      else case jwt_Revoke svc w (drop 7 auth) of
             (w', err) \<Rightarrow> reply (json_reply (message_body ''logged out'' '''')) w')"

definition docHandler :: "'w Handler" where
  "docHandler r = reply (json_reply (message_body (''access granted for '' @ SubjectFrom r) ''''))"

definition sample_document :: attributes where
  "sample_document = [''owner'' \<mapsto> AStr ''alice'', ''visibility'' \<mapsto> AStr ''private'']"

definition advanced_documents :: "string list \<Rightarrow> MemoryBlacklist Handler" where
  "advanced_documents ord =
     abac_Require (\<lambda>_. Policies ord advanced_policyStore) (abac_New []) ''read'' (Some (\<lambda>r. Some sample_document))
       SubjectFromClaims docHandler"

definition generateHandler :: "(string \<Rightarrow> string) \<Rightarrow> string \<Rightarrow> 'w Handler" where
  "generateHandler quote rand r w =
     bind_outcome (GenerateToken 32 rand) (\<lambda>t.
       case t of
         Inl err \<Rightarrow> reply (http_Error (json_error ''generation failed'') 500) w
       | Inr token \<Rightarrow> reply (json_reply (token_body quote token)) w)"

text \<open>
  \<open>ord\<close> is the order in which the policy map is iterated for this request, \<open>rand\<close> the random bytes
  still to come.
\<close>

definition advanced_server ::
  "MemoryBlacklist gojwt \<Rightarrow> MemoryBlacklist jwt_options \<Rightarrow> (string \<Rightarrow> string) \<Rightarrow> MemoryBlacklist Handler \<Rightarrow>
     string list \<Rightarrow> string \<Rightarrow> time \<Rightarrow> MemoryBlacklist Handler" where
  "advanced_server lib svc quote other ord rand now =
     ServeMux other
       [(''/login'', advanced_login lib svc quote now),
        (''/logout'', JWT lib svc [] now (logoutHandler svc)),
        (''/documents/'', JWT lib svc [] now (advanced_documents ord)),
        (''/token/generate'', generateHandler quote rand)]"

text \<open>
  \<open>main\<close>: a password is hashed and verified, the signing keys are made, and the server is started
  with them. \<open>rand\<close> and \<open>rand'\<close> are the random bytes of the salt and the key, \<open>message\<close> is the text of
  an error.
\<close>

definition serve_advanced ::
  "MemoryBlacklist gojwt \<Rightarrow> (string \<Rightarrow> string) \<Rightarrow> MemoryBlacklist Handler \<Rightarrow>
     (string \<Rightarrow> (string list \<Rightarrow> string \<Rightarrow> time \<Rightarrow> MemoryBlacklist Handler) \<Rightarrow> string) \<Rightarrow>
     string list \<Rightarrow> MemoryBlacklist jwt_options \<Rightarrow> run" where
  "serve_advanced lib quote other listen lines svc =
     log_Fatal
       (lines @
        [''Listening on :8080'',
         ''  GET  /login?user=<id>&role=<admin|user>  '' @ em_dash @ '' issue ES256 token'',
         ''  POST /logout                             '' @ em_dash @ '' revoke token'',
         ''  GET  /documents/<id>                     '' @ em_dash @ '' ABAC-protected resource'',
         ''  GET  /token/generate                     '' @ em_dash @ '' generate secure random token''])
       (listen '':8080'' (advanced_server lib svc quote other))"

definition advanced_main ::
  "argon2 \<Rightarrow> keylib \<Rightarrow> (crypto_error \<Rightarrow> string) \<Rightarrow> string \<Rightarrow> string \<Rightarrow>
     (string list \<Rightarrow> MemoryBlacklist jwt_options \<Rightarrow> run) \<Rightarrow> run outcome" where
  "advanced_main a2 kl message rand rand' serve =
     bind_outcome (HashPassword a2 ''hunter2'' rand) (\<lambda>h.
       case h of
         Inl err \<Rightarrow> Ret (log_Fatal [] (message err))
       | Inr hash \<Rightarrow>
           bind_outcome (VerifyPassword a2 ''hunter2'' hash) (\<lambda>v.
             let ok = (case v of Inl err \<Rightarrow> False | Inr b \<Rightarrow> b);
                 lines = [''password verified: '' @ (if ok then ''true'' else ''false'')] in
             case GenerateECDSAKeyPair kl P256 rand' of
               Inl err \<Rightarrow> Ret (log_Fatal lines (message err))
             | Inr (privKey, pubKey) \<Rightarrow> Ret (serve lines (advanced_jwtSvc privKey pubKey))))"


section \<open>Lemmas\<close>

lemma basic_jwtSvc_simps [simp]:
  "opt_signingMethod basic_jwtSvc = Some HS256" "opt_verifyKey basic_jwtSvc = Some (HMACSecret basic_secret)"
  "opt_keyFunc basic_jwtSvc = None" "opt_blacklist basic_jwtSvc = None" "opt_expiry basic_jwtSvc = 15 * Minute"
  by (simp_all add: basic_jwtSvc_def jwt_option_defs WithExpiry_def WithIssuer_def)

text \<open>The role store after the set-up.\<close>

lemma GetRole_basic_store:
  "GetRole basic_store ''admin'' = Inr (basic_roles ! 0)"
  "GetRole basic_store ''viewer'' = Inr (basic_roles ! 1)"
  "GetRole basic_store ''editor'' = Inr (basic_roles ! 2)"
  by (simp_all add: basic_store_def basic_roles_def basic_assignments_def GetRole_def store_laws rbac_NewMemoryStore_def)

lemma subject_slice_basic_store:
  "subject_slice basic_store user =
     (if user = ''alice'' then [''admin''] else if user = ''bob'' then [''editor'']
      else if user = ''carol'' then [''viewer''] else [])"
  by (simp add: basic_store_def basic_roles_def basic_assignments_def store_laws subject_slice_def
      rbac_NewMemoryStore_def AssignRole_def AddRole_def)

lemma Can_basic_store:
  "Can (GetRole basic_store) (GetSubjectRoles basic_store) user ''read'' ''posts'' \<longleftrightarrow>
     user \<in> {''alice'', ''bob'', ''carol''}"
  "Can (GetRole basic_store) (GetSubjectRoles basic_store) user ''create'' ''posts'' \<longleftrightarrow>
     user \<in> {''alice'', ''bob''}"
  by (simp_all add: Can_def GetSubjectRoles_def subject_slice_basic_store roleHasPermission.simps
      GetRole_basic_store basic_roles_def matches_def)


lemma basic_server_routes:
  "req_Path r = ''/login'' \<Longrightarrow> basic_server lib quote other now r w = basic_login lib quote now r w"
  "req_Path r = ''/posts'' \<Longrightarrow>
     basic_server lib quote other now r w = basic_protected lib now ''read'' readHandler r w"
  "req_Path r = ''/posts/create'' \<Longrightarrow>
     basic_server lib quote other now r w = basic_protected lib now ''create'' createHandler r w"
  by (simp_all add: basic_server_def ServeMux_def pattern_matches_def canonical_path_def)

text \<open>
  A protected route, for a token that carries the claims of a log-in of \<open>user\<close>: the check of
  the role decides.
\<close>

lemma basic_protected_decides:
  assumes "library_carries lib HS256 (Some (HMACSecret basic_secret)) token
      (claims_to_sign lib basic_jwtSvc t (basic_claims user))"
    and "NewNumericDate lib t \<le> now" "now < NewNumericDate lib (t + 15 * Minute)"
    and "Header_Get (req_Header r) ''Authorization'' = ''Bearer '' @ token" "token \<noteq> ''''"
  shows "\<exists>c. Claims_Subject c = user \<and> basic_protected lib now action h r w =
    (if user \<noteq> '''' \<and> Can (GetRole basic_store) (GetSubjectRoles basic_store) user action ''posts''
     then h (WithClaims r (Some c)) w else Ret (w, forbidden_calls))"
proof -
  let ?c = "claims_to_sign lib basic_jwtSvc t (basic_claims user)"
  have "valid_at ?c now"
    using assms(2,3) by (simp add: valid_at_def claims_to_sign_def time_Add_def)
  then have "jwt_Verify lib basic_jwtSvc now token w = (w, Inr (claims_of ?c))"
    using assms(1) by (intro Verify_carried[of _ HS256]) (simp_all add: check_revoked_def)
  with assms(4,5) have "authenticates lib basic_jwtSvc now r w w (claims_of ?c)"
    by (auto simp: authenticates_def)
  note JWT_accepts[OF this]
  moreover have subject: "Claims_Subject (claims_of ?c) = user"
    by (simp add: claims_of_def claims_to_sign_def basic_claims_def)
  ultimately have "basic_protected lib now action h r w =
    (if user \<noteq> '''' \<and> Can (GetRole basic_store) (GetSubjectRoles basic_store) user action ''posts''
     then h (WithClaims r (Some (claims_of ?c))) w else Ret (w, forbidden_calls))"
    by (simp add: basic_protected_def rbac_Require_def WithClaims_def writeForbidden_def reply_def)
  with subject show ?thesis by blast
qed

text \<open>
  The advanced program starts: with a key derivation that gives keys of the length asked for, and
  with random bytes enough, the password verifies and the server is run on the new keys; without
  random bytes for the salt nothing is served.
\<close>

lemma advanced_main_starts:
  assumes "key_length_law a2" and "HashPassword a2 ''hunter2'' rand = Ret (Inr hash)"
    and "ecdsa_GenerateKey kl P256 rand' = Inr priv"
  shows "advanced_main a2 kl message rand rand' serve =
    Ret (serve [''password verified: true''] (advanced_jwtSvc priv (ecdsa_PublicKey kl priv)))"
  using VerifyPassword_hashed[OF _ assms(1)] assms(2,3)
  by (simp add: advanced_main_def HashPassword_def GenerateECDSAKeyPair_def)

lemma advanced_main_without_salt:
  "length rand < 16 \<Longrightarrow> advanced_main a2 kl message rand rand' serve = Ret ([message ErrSalt], 1)"
  by (simp add: advanced_main_def HashPassword_def HashPasswordWithConfig_def DefaultPasswordConfig_def log_Fatal_def)

section \<open>Properties\<close>

text \<open>
  C39: the basic server from log-in to posts. \<open>/login\<close> answers a user with the token signed for
  it. With that token, while it is valid, \<open>/posts\<close> greets alice, bob and carol by name and
  \<open>/posts/create\<close> creates a post for alice and bob only; everybody else gets 403. The HTTP
  method of the request plays no role.
\<close>

theorem basic_server_decides:
  assumes "jwt_Sign lib basic_jwtSvc t (basic_claims user) = Inr token"
    and "library_carries lib HS256 (Some (HMACSecret basic_secret)) token
      (claims_to_sign lib basic_jwtSvc t (basic_claims user))"
    and "NewNumericDate lib t \<le> now" "now < NewNumericDate lib (t + 15 * Minute)"
    and "user \<noteq> ''''" "req_Query r ''user'' = user"
    and "Header_Get (req_Header r) ''Authorization'' = ''Bearer '' @ token" "token \<noteq> ''''"
  shows "basic_server lib quote other t (r\<lparr>req_Path := ''/login''\<rparr>) w =
      Ret (w, json_reply (token_body quote token)) \<and>
    basic_server lib quote other now (r\<lparr>req_Path := ''/posts''\<rparr>) w =
      (if user \<in> {''alice'', ''bob'', ''carol''}
       then Ret (w, json_reply (message_body (''hello '' @ user @ '', here are your posts'') ('','' @ quoted ''posts'' @ '':[]'')))
       else Ret (w, forbidden_calls)) \<and>
    basic_server lib quote other now (r\<lparr>req_Path := ''/posts/create''\<rparr>) w =
      (if user \<in> {''alice'', ''bob''}
       then Ret (w, json_reply (message_body (''post created by '' @ user) ''''))
       else Ret (w, forbidden_calls))"
proof (intro conjI)
  show "basic_server lib quote other t (r\<lparr>req_Path := ''/login''\<rparr>) w = Ret (w, json_reply (token_body quote token))"
    using assms(1,5,6) by (simp add: basic_server_routes(1) basic_login_def reply_def)
next
  let ?r = "r\<lparr>req_Path := ''/posts''\<rparr>"
  from basic_protected_decides[OF assms(2-4) _ assms(8), of ?r "''read''" readHandler w] assms(7)
  obtain c where "Claims_Subject c = user" "basic_protected lib now ''read'' readHandler ?r w =
    (if user \<in> {''alice'', ''bob'', ''carol''} then readHandler (WithClaims ?r (Some c)) w else Ret (w, forbidden_calls))"
    using assms(5) by (auto simp: Can_basic_store)
  then show "basic_server lib quote other now ?r w =
      (if user \<in> {''alice'', ''bob'', ''carol''}
       then Ret (w, json_reply (message_body (''hello '' @ user @ '', here are your posts'') ('','' @ quoted ''posts'' @ '':[]'')))
       else Ret (w, forbidden_calls))"
    by (simp add: basic_server_routes(2) readHandler_def reply_def WithClaims_def)
next
  let ?r = "r\<lparr>req_Path := ''/posts/create''\<rparr>"
  from basic_protected_decides[OF assms(2-4) _ assms(8), of ?r "''create''" createHandler w] assms(7)
  obtain c where "Claims_Subject c = user" "basic_protected lib now ''create'' createHandler ?r w =
    (if user \<in> {''alice'', ''bob''} then createHandler (WithClaims ?r (Some c)) w else Ret (w, forbidden_calls))"
    using assms(5) by (auto simp: Can_basic_store)
  then show "basic_server lib quote other now ?r w =
      (if user \<in> {''alice'', ''bob''}
       then Ret (w, json_reply (message_body (''post created by '' @ user) ''''))
       else Ret (w, forbidden_calls))"
    by (simp add: basic_server_routes(3) createHandler_def reply_def WithClaims_def)
qed


lemma basic_server_decides_witness:
  "let lib = one_token_lib (claims_to_sign (one_token_lib undefined :: unit gojwt) basic_jwtSvc 0 (basic_claims ''carol'')) :: unit gojwt;
       r = (bearer_request ''tok'')\<lparr>req_Method := ''POST'', req_Query := (\<lambda>_. ''carol'')\<rparr>;
       server = basic_server lib quoted (\<lambda>r. reply []) in
   server 0 (r\<lparr>req_Path := ''/login''\<rparr>) () = Ret ((), json_reply (token_body quoted ''tok'')) \<and>
   server Minute (r\<lparr>req_Path := ''/posts''\<rparr>) () =
     Ret ((), json_reply (message_body ''hello carol, here are your posts'' ('','' @ quoted ''posts'' @ '':[]''))) \<and>
   server Minute (r\<lparr>req_Path := ''/posts/create''\<rparr>) () = Ret ((), forbidden_calls)"
proof -
  let ?lib = "one_token_lib (claims_to_sign (one_token_lib undefined :: unit gojwt) basic_jwtSvc 0 (basic_claims ''carol'')) :: unit gojwt"
  let ?r = "(bearer_request ''tok'')\<lparr>req_Method := ''POST'', req_Query := (\<lambda>_. ''carol'')\<rparr> :: unit http_Request"
  have eq: "claims_to_sign ?lib basic_jwtSvc 0 (basic_claims ''carol'') =
      claims_to_sign (one_token_lib undefined :: unit gojwt) basic_jwtSvc 0 (basic_claims ''carol'')"
    by (simp add: claims_to_sign_def one_token_lib_def)
  have signed: "jwt_Sign ?lib basic_jwtSvc 0 (basic_claims ''carol'') = Inr ''tok''"
    by (simp add: jwt_Sign_def) (simp add: one_token_lib_def)
  have carries: "library_carries ?lib HS256 (Some (HMACSecret basic_secret)) ''tok''
      (claims_to_sign ?lib basic_jwtSvc 0 (basic_claims ''carol''))"
    unfolding eq by (rule one_token_carries)
  have dates: "NewNumericDate ?lib 0 \<le> Minute" "Minute < NewNumericDate ?lib (0 + 15 * Minute)"
    by (simp_all add: one_token_lib_def duration_defs)
  have h: "Header_Get (req_Header ?r) ''Authorization'' = ''Bearer '' @ ''tok''"
    by (simp add: bearer_request_def Header_Get_def)
  from basic_server_decides[OF signed carries dates _ _ h, of quoted "\<lambda>r. reply []" "()"]
  show ?thesis unfolding Let_def by simp
qed

lemma advanced_jwtSvc_simps:
  "fst privKey = P256 \<Longrightarrow> opt_signingMethod (advanced_jwtSvc privKey pubKey) = Some ES256"
  "opt_verifyKey (advanced_jwtSvc privKey pubKey) = Some (ECDSAPublic (fst pubKey) (snd pubKey))"
  "opt_keyFunc (advanced_jwtSvc privKey pubKey) = None"
  "opt_blacklist (advanced_jwtSvc privKey pubKey) = Some memory_blacklist"
  "opt_expiry (advanced_jwtSvc privKey pubKey) = 15 * Minute"
  by (simp_all add: advanced_jwtSvc_def jwt_option_defs WithExpiry_def WithIssuer_def WithECDSA_def)

lemma advanced_policyStore_ran: "ran (abac_policies advanced_policyStore) = set advanced_policies"
  and advanced_policyStore_invar: "abac_invar advanced_policyStore"
proof -
  have "abac_policies advanced_policyStore =
      [''admin-all'' \<mapsto> advanced_policies ! 0, ''deny-root-delete'' \<mapsto> advanced_policies ! 1,
       ''owner-access'' \<mapsto> advanced_policies ! 2, ''public-read'' \<mapsto> advanced_policies ! 3]"
    by (simp add: advanced_policyStore_def advanced_policies_def store_laws abac_NewMemoryStore_def)
  then show "ran (abac_policies advanced_policyStore) = set advanced_policies"
    by (simp add: advanced_policies_def insert_commute)
  show "abac_invar advanced_policyStore"
    by (simp add: advanced_policyStore_def advanced_policies_def abac_invar_AddPolicy abac_invar_init)
qed

lemma advanced_server_routes:
  "req_Path r = ''/logout'' \<Longrightarrow>
     advanced_server lib svc quote other ord rand now r b = JWT lib svc [] now (logoutHandler svc) r b"
  "req_Path r = ''/documents/'' @ doc \<Longrightarrow> canonical_path (''/documents/'' @ doc) \<Longrightarrow>
     advanced_server lib svc quote other ord rand now r b = JWT lib svc [] now (advanced_documents ord) r b"
   apply (simp add: advanced_server_def ServeMux_def pattern_matches_def HasPrefix_def canonical_path_def)
  by (simp add: advanced_server_def ServeMux_def pattern_matches_def HasPrefix_def)

text \<open>
  The policies on the sample document for a subject whose roles came out of a token: only the
  policy on ownership can match.
\<close>

lemma advanced_documents_decides:
  assumes "iteration_order (abac_policies advanced_policyStore) ord"
    and "ctx_Claims r = Some c" "Claims_Custom c = [''roles'' \<mapsto> AList roles]"
  shows "advanced_documents ord r b =
    (if Claims_Subject c = ''alice'' then docHandler r b else Ret (b, forbidden_calls))"
proof -
  let ?req = "\<lparr>Request_Subject = SubjectFromClaims r, Request_Resource = sample_document, Request_Action = ''read'',
     Request_Environment = [''ip'' \<mapsto> AStr (req_RemoteAddr r), ''method'' \<mapsto> AStr (req_Method r), ''path'' \<mapsto> AStr (req_Path r)]\<rparr>"
  obtain ps where ps: "Policies ord advanced_policyStore = Inr ps" by (simp add: Policies_def)
  then have listing: "abac_listing advanced_policyStore ps"
    using assms(1) by (auto simp: abac_listing_def)
  have attrs: "attr (SubjectFromClaims r) ''roles'' = AList roles"
      "attr (SubjectFromClaims r) ''id'' = AStr (Claims_Subject c)"
      "attr sample_document ''owner'' = AStr ''alice''" "attr sample_document ''visibility'' = AStr ''private''"
    by (simp_all only: SubjectFromClaims_attr[OF assms(2)]) (simp_all add: assms(3) sample_document_def attr_def)
  have applies: "map (\<lambda>p. applies p ?req) advanced_policies =
      [Ret False, Ret False, Ret (Claims_Subject c = ''alice''), Ret False]"
    by (simp add: advanced_policies_def applies_def SubjectHasRole_def And_def ResourceAttrEquals_def ActionIs_def
        OwnerIsSubject_def call_condition_def attrs any_eq_def string_or_empty_def Let_def)
  then have ok: "no_panic (ran (abac_policies advanced_policyStore)) ?req"
    unfolding advanced_policyStore_ran no_panic_def by (auto simp: advanced_policies_def)
  have "Evaluator_Allow (Inr ps :: abac_error + Policy list) (abac_New []) ?req = Ret (Claims_Subject c = ''alice'')"
    using pol.Evaluate_cases[OF advanced_policyStore_invar listing ok, of "abac_New []"] applies
    unfolding advanced_policyStore_ran
    by (auto simp: advanced_policies_def Evaluator_Allow_def decision_of_def default_decision_def abac_New_def)
  then show ?thesis
    by (simp add: advanced_documents_def abac_Require_def ps reply_def)
qed


text \<open>What \<open>/login\<close> signs, as it comes back out of JSON: an array is a list of interface values.\<close>

definition decoded_login ::
  "'w gojwt \<Rightarrow> 'w jwt_options \<Rightarrow> time \<Rightarrow> string \<Rightarrow> string \<Rightarrow> standardClaims" where
  "decoded_login lib svc t user role =
     (claims_to_sign lib svc t (advanced_claims user role))\<lparr>sc_Custom := [''roles'' \<mapsto> AList [AStr role]]\<rparr>"

lemma revoked_is_rejected:
  assumes "library_frame lib" and "MemoryBlacklist_IsRevoked b token = Inr True"
    and "Header_Get (req_Header r) ''Authorization'' = ''Bearer '' @ token"
  shows "\<exists>b'. JWT lib (advanced_jwtSvc privKey pubKey) [] now h r b = Ret (b', unauthorized_calls)"
proof (rule JWT_rejects)
  have "memory_service lib (advanced_jwtSvc privKey pubKey)"
    using assms(1) by (simp add: memory_service_def advanced_jwtSvc_simps)
  from revoked_never_verifies[OF this assms(2), of now "[]"]
  show "\<nexists>b' claims. authenticates lib (advanced_jwtSvc privKey pubKey) now r b b' claims"
    unfolding authenticates_def assms(3) by auto
qed

text \<open>
  C40: a session of the advanced server. A token from \<open>/login\<close> opens \<open>/documents/\<close> for the user
  alice, the owner of the sample document, and for nobody else, whatever role the log-in asked
  for and whatever order the policies are walked in; \<open>/logout\<close> with the token succeeds, and
  from then on the token is answered 401 at every time.
\<close>

theorem advanced_session:
  assumes "fst privKey = P256" and "library_frame lib"
    and "library_carries lib ES256 (Some (ECDSAPublic (fst pubKey) (snd pubKey))) token
      (decoded_login lib (advanced_jwtSvc privKey pubKey) t user role)"
    and "NewNumericDate lib t \<le> now" "now < NewNumericDate lib (t + 15 * Minute)"
    and "MemoryBlacklist_IsRevoked b token = Inr False"
    and "iteration_order (abac_policies advanced_policyStore) ord"
    and "Header_Get (req_Header r) ''Authorization'' = ''Bearer '' @ token" "token \<noteq> ''''"
    and "canonical_path (''/documents/'' @ doc)"
  shows "advanced_server lib (advanced_jwtSvc privKey pubKey) quote other ord rand now
        (r\<lparr>req_Path := ''/documents/'' @ doc\<rparr>) b =
      Ret (b, if user = ''alice'' then json_reply (message_body (''access granted for '' @ user) '''') else forbidden_calls) \<and>
    (\<exists>b'. advanced_server lib (advanced_jwtSvc privKey pubKey) quote other ord rand now (r\<lparr>req_Path := ''/logout''\<rparr>) b =
        Ret (b', json_reply (message_body ''logged out'' '''')) \<and>
      (\<forall>later. \<exists>b''. advanced_server lib (advanced_jwtSvc privKey pubKey) quote other ord rand later
          (r\<lparr>req_Path := ''/documents/'' @ doc\<rparr>) b' = Ret (b'', unauthorized_calls)))"
proof -
  let ?svc = "advanced_jwtSvc privKey pubKey" and ?c = "decoded_login lib (advanced_jwtSvc privKey pubKey) t user role"
  let ?b = "fst (MemoryBlacklist_Revoke b token)"
  note svc = advanced_jwtSvc_simps(1)[OF assms(1)] advanced_jwtSvc_simps(2-5)
  have "valid_at ?c now"
    using assms(4,5) by (simp add: decoded_login_def valid_at_def claims_to_sign_def time_Add_def svc)
  moreover have "\<not> check_revoked ?svc b token"
    using assms(6) by (simp add: check_revoked_def svc memory_blacklist_def)
  ultimately have v: "jwt_Verify lib ?svc now token b = (b, Inr (claims_of ?c))"
    using assms(3) by (intro Verify_carried[of _ ES256]) (simp_all add: svc)
  have auth: "authenticates lib ?svc now (r\<lparr>req_Path := p\<rparr>) b b (claims_of ?c)" for p
    using v assms(8,9) by (auto simp: authenticates_def)
  have c: "Claims_Subject (claims_of ?c) = user" "Claims_Custom (claims_of ?c) = [''roles'' \<mapsto> AList [AStr role]]"
    by (simp_all add: claims_of_def decoded_login_def claims_to_sign_def advanced_claims_def)
  let ?d = "WithClaims (r\<lparr>req_Path := ''/documents/'' @ doc\<rparr>) (Some (claims_of ?c))"
  have "ctx_Claims ?d = Some (claims_of ?c)" and subject: "SubjectFrom ?d = user"
    by (simp_all add: WithClaims_def SubjectFrom_def ClaimsFrom_def c)
  note decision = advanced_documents_decides[OF assms(7) this(1) c(2), of b]
  have documents: "advanced_documents ord ?d b =
      Ret (b, if user = ''alice'' then json_reply (message_body (''access granted for '' @ user) '''') else forbidden_calls)"
    unfolding decision c docHandler_def reply_def subject by simp
  have logout: "JWT lib ?svc [] now (logoutHandler ?svc) (r\<lparr>req_Path := ''/logout''\<rparr>) b =
      Ret (?b, json_reply (message_body ''logged out'' ''''))"
    unfolding JWT_accepts[OF auth] using assms(8)
    by (simp add: logoutHandler_def WithClaims_def jwt_Revoke_def svc memory_blacklist_def reply_def Let_def
        split: prod.splits)
  have "MemoryBlacklist_IsRevoked ?b token = Inr True"
    by (rule mb.revoke_revokes) (simp add: MemoryBlacklist_Revoke_def)
  note rejected = revoked_is_rejected[OF assms(2) this, of "r\<lparr>req_Path := ''/documents/'' @ doc\<rparr>"]
  have "advanced_server lib ?svc quote other ord rand now (r\<lparr>req_Path := ''/documents/'' @ doc\<rparr>) b =
      Ret (b, if user = ''alice'' then json_reply (message_body (''access granted for '' @ user) '''') else forbidden_calls)"
    using documents assms(10) by (simp add: advanced_server_routes(2) JWT_accepts[OF auth])
  moreover have "advanced_server lib ?svc quote other ord rand now (r\<lparr>req_Path := ''/logout''\<rparr>) b =
        Ret (?b, json_reply (message_body ''logged out'' ''''))"
    using logout by (simp add: advanced_server_routes(1))
  moreover have "\<exists>b''. advanced_server lib ?svc quote other ord rand later (r\<lparr>req_Path := ''/documents/'' @ doc\<rparr>) ?b =
        Ret (b'', unauthorized_calls)" for later
    using rejected assms(8,10) by (simp add: advanced_server_routes(2))
  ultimately show ?thesis by blast
qed

text \<open>The library with one token, whose header says ES256.\<close>

definition es256_lib :: "standardClaims \<Rightarrow> MemoryBlacklist gojwt" where
  "es256_lib c = \<lparr>NewNumericDate = (\<lambda>t. t - t mod Second), SignedString = (\<lambda>m c k. Inr ''tok''),
     ParseWithClaims = (\<lambda>now s kf. one_token_parse c now s (\<lambda>t. kf (t\<lparr>Token_Alg := ''ES256''\<rparr>)))\<rparr>"

lemma es256_frame: "library_frame (es256_lib c)"
  unfolding library_frame_def
proof (intro allI impI)
  fix P :: "MemoryBlacklist \<Rightarrow> bool" and kf :: "MemoryBlacklist Keyfunc" and now s w
  assume "\<forall>t w. P w \<longrightarrow> P (fst (kf t w))" and "P w"
  then have "P (fst (kf (one_token_header\<lparr>Token_Alg := ''ES256''\<rparr>) w))" by blast
  with \<open>P w\<close> show "P (fst (ParseWithClaims (es256_lib c) now s kf w))"
    by (auto simp: es256_lib_def one_token_parse_def split: prod.splits sum.splits)
qed

lemma es256_carries: "library_carries (es256_lib c) ES256 vk ''tok'' c"
  by (auto simp: library_carries_def es256_lib_def one_token_parse_def one_token_header_def valid_at_def
      split: prod.splits sum.splits)

lemma advanced_session_witness:
  "let svc = advanced_jwtSvc (P256, ''d'') (P256, ''Q'');
       lib = es256_lib (decoded_login (es256_lib undefined) svc 0 ''bob'' ''admin'');
       server = advanced_server lib svc quoted (\<lambda>r. reply []) (map Policy_ID advanced_policies) '''' in
   server Minute ((bearer_request ''tok'')\<lparr>req_Path := ''/documents/7''\<rparr>) NewMemoryBlacklist =
     Ret (NewMemoryBlacklist, forbidden_calls)"
proof -
  let ?svc = "advanced_jwtSvc (P256, ''d'') (P256, ''Q'')"
  let ?lib = "es256_lib (decoded_login (es256_lib undefined) ?svc 0 ''bob'' ''admin'')"
  have p: "fst (P256, ''d'') = P256" by simp
  have eq: "decoded_login ?lib ?svc 0 ''bob'' ''admin'' = decoded_login (es256_lib undefined) ?svc 0 ''bob'' ''admin''"
    by (simp add: decoded_login_def claims_to_sign_def es256_lib_def)
  have carries: "library_carries ?lib ES256 (Some (ECDSAPublic (fst (P256, ''Q'')) (snd (P256, ''Q'')))) ''tok''
      (decoded_login ?lib ?svc 0 ''bob'' ''admin'')"
    unfolding eq by (rule es256_carries)
  have dates: "NewNumericDate ?lib 0 \<le> Minute" "Minute < NewNumericDate ?lib (0 + 15 * Minute)"
    by (simp_all add: es256_lib_def duration_defs)
  have nr: "MemoryBlacklist_IsRevoked NewMemoryBlacklist ''tok'' = Inr False"
    by (simp add: MemoryBlacklist_IsRevoked_def NewMemoryBlacklist_def)
  have ord: "iteration_order (abac_policies advanced_policyStore) (map Policy_ID advanced_policies)"
    by (auto simp: iteration_order_def advanced_policyStore_def advanced_policies_def store_laws abac_NewMemoryStore_def)
  have h: "Header_Get (req_Header (bearer_request ''tok'' :: MemoryBlacklist http_Request)) ''Authorization'' = ''Bearer '' @ ''tok''"
    by (simp add: bearer_request_def Header_Get_def)
  have "canonical_path (''/documents/'' @ ''7'')"
    by (simp add: canonical_path_def)
  from advanced_session[OF p es256_frame carries dates nr ord h _ this, of quoted "\<lambda>r. reply []" "''''"]
  show ?thesis unfolding Let_def by simp
qed

end
