(* ===== verification/Spec2Isabelle.thy ===== *)
theory Spec2Isabelle
  imports Stack RbacConcurrent JwtConcurrent RateResets ReqSign Otp PasswdPolicy Jwks CryptoKeys AuditJson DbLogger
    Ginmw Examples
begin

text \<open>
  A verification library for \<open>api-security-sdk\<close>, a Go library of authentication and authorisation
  components for HTTP servers.

  \<^bold>\<open>The program and its parts.\<close> A server builds services from the packages and puts their middlewares
  in front of its handlers. \<open>auth/middleware\<close> takes the bearer token from a request, has the JWT
  service verify it and puts the claims into the request context; the guards of \<open>rbac\<close> and \<open>abac\<close>
  read them there and ask their engines, which read an in-memory store. The JWT service takes its keys
  from its options or, through a key function, from the JWKS source of \<open>auth/jwks\<close>, and consults a
  blacklist. \<open>apikey\<close> is a second way to authenticate. \<open>ratelimit\<close>, \<open>cors\<close>, \<open>secureheaders\<close>,
  \<open>reqsign\<close> and the middleware of \<open>audit\<close> wrap handlers independently of these. \<open>otp\<close>, \<open>passwdpolicy\<close> and
  \<open>crypto\<close> are functions a log-in calls. \<open>ginmw\<close> offers the guards for the Gin framework. The two
  examples wire the packages into servers.

  \<^bold>\<open>Theories and sources.\<close> Each theory opens with what it holds; its definitions follow the order of
  the code and keep its names, prefixed with the package where two packages share one.
  \<^item> \<open>Prelude\<close>: panics, 64-bit integers, times, the interface type \<open>any\<close>, shared lemmas, conventions.
  \<^item> \<open>Rbac\<close>: \<open>rbac/types.go\<close>, \<open>rbac/store.go\<close>, \<open>rbac/rbac.go\<close>.
  \<^item> \<open>Abac\<close>: \<open>abac/types.go\<close>, \<open>abac/store.go\<close>, \<open>abac/abac.go\<close>.
  \<^item> \<open>Jwt\<close>: the package \<open>auth/jwt\<close>.
  \<^item> \<open>Hashes\<close>: SHA-1, SHA-256, HMAC and hexadecimal, executable from their standards.
  \<^item> \<open>ApiKey\<close>: \<open>apikey/apikey.go\<close> without its middleware, \<open>apikey/store.go\<close>.
  \<^item> \<open>AuditLog\<close>, \<open>AuditHttp\<close>, \<open>AuditJson\<close>: \<open>audit/audit.go\<close>, the logger interface and the events, the HTTP
    part, the JSON logger. \<open>DbLogger\<close>: \<open>audit/dblogger.go\<close>.
  \<^item> \<open>Runes\<close>, \<open>Json\<close>, \<open>JsonAny\<close>: UTF-8 as Go reads it, and what the audit loggers use of
    \<open>encoding/json\<close>, with a reader for JSON texts.
  \<^item> \<open>Http\<close>: requests, handlers and the response writer; what is used of \<open>net/http\<close>, \<open>net\<close>, \<open>strings\<close>.
  \<^item> \<open>AuthMiddleware\<close>: the package \<open>auth/middleware\<close>.
  \<^item> \<open>Guards\<close>: \<open>rbac/middleware.go\<close>, \<open>abac/middleware.go\<close> and the middleware of \<open>apikey/apikey.go\<close>.
  \<^item> \<open>Float64\<close>: rounding to \<open>float64\<close> on rationals. \<open>RateLimit\<close>: the package \<open>ratelimit\<close>.
  \<^item> \<open>Cors\<close>, \<open>SecureHeaders\<close>, \<open>ReqSign\<close>, \<open>Otp\<close>, \<open>PasswdPolicy\<close>: the packages of these names.
  \<^item> \<open>Base64\<close>: the unpadded encodings. \<open>Passwords\<close>: \<open>crypto/password.go\<close>, \<open>crypto/bcrypt.go\<close>,
    \<open>crypto/token.go\<close>. \<open>CryptoKeys\<close>: \<open>crypto/keys.go\<close>.
  \<^item> \<open>Jwks\<close>: the package \<open>auth/jwks\<close>, once as functions and once as an interleaving of calls.
  \<^item> \<open>RbacConcurrent\<close>, \<open>JwtConcurrent\<close>, \<open>RateConcurrent\<close>, \<open>RateResets\<close>: \<open>Enforcer.Can\<close>, the calls of the
    JWT service and of the in-memory limiter once more, as steps that other goroutines interleave with.
  \<^item> \<open>Stack\<close>: the middlewares in the order the integration guide prescribes, and under failing stores.
  \<^item> \<open>Ginmw\<close>: the package \<open>ginmw\<close>. \<open>Examples\<close>: \<open>examples/basic/main.go\<close>, \<open>examples/advanced/main.go\<close>.
  \<^item> this theory: a property of audit middleware and authentication together.

  \<^bold>\<open>State and effects.\<close> A struct is a record and a method returns it updated; a handler is a function of
  the request and of the state \<open>'w\<close> behind it, and returns the new state and the calls it makes on the
  response writer, or panics. Clock readings, random bytes and the order in which Go walks a map are
  arguments, so the theorems hold for all of them. Errors are values of one datatype per package.
  Where calls of one service overlap, a call is a datatype of phases, a step does what the code does
  between two accesses to shared state, and a run is any sequence of steps of any calls.

  \<^bold>\<open>Interfaces.\<close> What a client relies on is a locale, and each is interpreted on the code's own
  in-memory implementation: \<open>role_store\<close> (\<open>mem\<close>), \<open>policy_store\<close> (\<open>pol\<close>), \<open>token_blacklist\<close> (\<open>mb\<close>),
  \<open>key_store\<close> (\<open>keys\<close>), \<open>base64_alphabet\<close> (\<open>b64std\<close>, \<open>b64url\<close>).

  \<^bold>\<open>What the lemmas show.\<close>
  \<^item> RBAC: the search over the role graph is equivalent to a grant by an inherited role while at most 65
    roles are inherited, never visits more, and terminates on cycles; the store refines maps and sets. While others change the store a check still
    ends and grants only along links and a permission it found there, though they need not have
    existed at one moment.
  \<^item> ABAC: decision by priority for every iteration order, and when it does not depend on that order.
  \<^item> JWT and JWKS: signed tokens verify until they expire, the algorithm is the configured one, revoked and
    refreshed tokens stay rejected under every history; keys handed out were offered by the endpoint
    for signatures, rotated keys are found, refreshes are spaced, every call ends within five steps of its
    own whatever the others do, and the sequential functions are schedules of the interleaved steps.
    Among overlapping calls a revocation is final too; a refresh is not atomic.
  \<^item> API keys: the life of a key, the finality of a revocation and the shape of the store after every
    history; the middleware built on them.
  \<^item> Guards: complete mediation by \<open>JWT\<close>, and for each route exactly which requests reach the handler;
    the Gin guards decide as the others do. The whole stack: which layer answers a request, and the
    headers that are on every answer. Failing stores: every guard refuses, except \<open>abac\<close> with
    \<open>WithDefaultAllow\<close>.
  \<^item> Rate limiter: no more than twice the limit within a window's length, and what a rollover forgets;
    overlapping increments and resets have the results of the same calls done one after the other.
  \<^item> Signatures, one-time codes, passwords, keys, password policy, CORS, headers: round trips, and
    which inputs are accepted.
  \<^item> Audit: what is logged for a request, and that reading the table gives the events that were logged.
    The lines of the JSON logger read back to the events, whatever bytes they carry; a failed write
    silences it.
  \<^item> Examples: the servers from log-in to log-out, and how the programs start.

  \<^bold>\<open>Bounds and fuel.\<close> No function that models code of the repository carries fuel. The reader of \<open>Json\<close>
  does, as much as the text is long; \<open>fuel_length\<close> shows that this is enough for what the encoder writes. The search of \<open>rbac\<close> terminates because the guard caps
  the visited roles; loops that draw random bytes recurse on the finite list of bytes still to come and
  report the reader's error at its end; all other recursions are structural. The interleaved
  model of \<open>Jwks\<close> is a step relation with a measure.

  \<^bold>\<open>Parameters.\<close> Code that is not in the repository is an argument with named hypotheses: \<open>golang-jwt\<close>
  (\<open>gojwt\<close>), Argon2 and bcrypt, key generation, X.509 and PEM (\<open>keylib\<close>), \<open>database/sql\<close>,
  the JSON of values that the model does not distinguish, reading the metadata of the database logger,
  the HTTP client of the JWKS source, \<open>http.ListenAndServe\<close>, Gin's rendering, and the Unicode tables behind
  the case functions and character classes. The witnesses run on small instances of them.

  \<^bold>\<open>Not modelled.\<close> Mutexes as objects: a method of an in-memory store that holds its lock throughout is one
  step. Calls that take several such steps are interleaved in \<open>Jwks\<close> and the four theories named above;
  the methods of the other packages access their store once;
  contexts with deadlines; time zones other than UTC; the panic of the
  server on a status code outside 100 to 999; timing (comparison in constant time is equality).
\<close>

section \<open>Properties across packages\<close>

lemma authenticates_WithLogger: "authenticates lib svc now (WithLogger r l) w w' claims = authenticates lib svc now r w w' claims"
  by (simp add: authenticates_def WithLogger_def)

text \<open>
  C34: the audit log covers the authentication. With the auditing middleware in front of \<open>JWT\<close>, a
  request whose bearer token verifies reaches the handler with the logger and the claims in its
  context, and the status of the handler is logged after it; every other request is answered 401
  and logged as denied with that status, its method and its path.
\<close>

theorem authentication_is_audited:
  "if \<exists>w' claims. authenticates lib svc now r w w' claims
   then \<exists>w' claims. authenticates lib svc now r w w' claims \<and>
     audit_Middleware l [True] logtime (JWT lib svc [] now nextH) r w =
       bind_outcome (nextH (r\<lparr>ctx_Logger := Some l, ctx_Claims := Some claims\<rparr>) w')
         (\<lambda>(w'', calls). Ret (fst (l (request_event logtime (WithLogger r l) (recorded_status calls)) w''), calls))
   else \<exists>w' event. audit_Middleware l [True] logtime (JWT lib svc [] now nextH) r w =
       Ret (fst (l event w'), unauthorized_calls) \<and>
     Event_Type event = EventAccessDenied \<and> Event_Meta event = Some [''status'' \<mapsto> AInt 401] \<and>
     Event_Action event = req_Method r \<and> Event_Resource event = req_Path r"
proof (cases "\<exists>w' claims. authenticates lib svc now r w w' claims")
  case True
  then obtain w' claims where a: "authenticates lib svc now r w w' claims" by blast
  then have "authenticates lib svc now (WithLogger r l) w w' claims" by (simp add: authenticates_WithLogger)
  note JWT_accepts[OF this, of "[]" nextH]
  moreover have "WithClaims (WithLogger r l) (Some claims) = r\<lparr>ctx_Logger := Some l, ctx_Claims := Some claims\<rparr>"
    by (simp add: WithClaims_def WithLogger_def)
  ultimately have "audit_Middleware l [True] logtime (JWT lib svc [] now nextH) r w =
      bind_outcome (nextH (r\<lparr>ctx_Logger := Some l, ctx_Claims := Some claims\<rparr>) w')
        (\<lambda>(w'', calls). Ret (fst (l (request_event logtime (WithLogger r l) (recorded_status calls)) w''), calls))"
    by (simp add: audit_Middleware_def)
  with a have "\<exists>w' claims. authenticates lib svc now r w w' claims \<and>
     audit_Middleware l [True] logtime (JWT lib svc [] now nextH) r w =
       bind_outcome (nextH (r\<lparr>ctx_Logger := Some l, ctx_Claims := Some claims\<rparr>) w')
         (\<lambda>(w'', calls). Ret (fst (l (request_event logtime (WithLogger r l) (recorded_status calls)) w''), calls))"
    by blast
  then show ?thesis by (simp only: True if_True)
next
  case False
  then have "\<nexists>w' claims. authenticates lib svc now (WithLogger r l) w w' claims" by (simp add: authenticates_WithLogger)
  from JWT_rejects[OF this, of nextH] obtain w' where
    "JWT lib svc [] now nextH (WithLogger r l) w = Ret (w', unauthorized_calls)" by blast
  moreover have "recorded_status unauthorized_calls = 401"
    by (simp add: recorded_status_def unauthorized_calls_def)
  ultimately have "audit_Middleware l [True] logtime (JWT lib svc [] now nextH) r w =
      Ret (fst (l (request_event logtime (WithLogger r l) 401) w'), unauthorized_calls)"
    by (simp add: audit_Middleware_def)
  moreover have "Event_Type (request_event logtime (WithLogger r l) 401) = EventAccessDenied"
    "Event_Meta (request_event logtime (WithLogger r l) 401) = Some [''status'' \<mapsto> AInt 401]"
    "Event_Action (request_event logtime (WithLogger r l) 401) = req_Method r"
    "Event_Resource (request_event logtime (WithLogger r l) 401) = req_Path r"
    by (simp_all add: request_event_def eventTypeForStatus_def WithLogger_def)
  ultimately show ?thesis unfolding if_not_P[OF False] by blast
qed

end
